(* ===== verification/Prelude.thy ===== *)
theory Prelude
  imports Main "HOL-Library.Word" "HOL-Library.Monad_Syntax"
begin

text \<open>
  Shared vocabulary of the development: Go's fixed-width integers and byte slices, the error
  values of the program (\<^verbatim>\<open>components/status/code.go\<close> and the error types of the packages
  that are modelled), the outcome of a call that may panic or block for ever, and the generic
  lemmas on bytes, words, maps and lists that the component theories share.
\<close>

unbundle bit_operations_syntax

named_theorems outcome_simps \<open>unfolding of the state-passing combinators\<close>

section \<open>Machine integers and byte slices\<close>

text \<open>
  A Go \<^verbatim>\<open>byte\<close> is an 8 bit word, \<^verbatim>\<open>uint64\<close> and (on the 64 bit targets of the program)
  \<^verbatim>\<open>uint\<close> are 64 bit words, and \<^verbatim>\<open>int64\<close> is a 64 bit word read with \<^const>\<open>sint\<close>.
  A Go \<^verbatim>\<open>string\<close> is a sequence of bytes: a \<^typ>\<open>string\<close>, whose characters are bytes.
\<close>

type_synonym byte = "8 word"
type_synonym u64 = "64 word"
type_synonym i64 = "64 word"

abbreviation i64_less :: "i64 \<Rightarrow> i64 \<Rightarrow> bool" where
  "i64_less a b \<equiv> sint a < sint b"

definition byte_of :: "char \<Rightarrow> byte" where
  "byte_of c = of_nat (of_char c)"

definition char_of_byte :: "byte \<Rightarrow> char" where
  "char_of_byte b = char_of (unat b)"

abbreviation bytes_of :: "string \<Rightarrow> byte list" where
  "bytes_of s \<equiv> map byte_of s"

abbreviation string_of :: "byte list \<Rightarrow> string" where
  "string_of bs \<equiv> map char_of_byte bs"

lemma char_of_byte_of [simp]: "char_of_byte (byte_of c) = c"
  by (simp add: byte_of_def char_of_byte_def unat_of_nat)

lemma byte_of_char_of [simp]: "byte_of (char_of_byte b) = b"
proof -
  have "unat b < 2 ^ 8" using unsigned_less [of b] by simp
  then show ?thesis by (simp add: byte_of_def char_of_byte_def take_bit_nat_eq_self)
qed

lemma char_of_byte_comp [simp]: "char_of_byte \<circ> byte_of = id"
  by (simp add: fun_eq_iff)

lemma string_of_bytes_of [simp]: "string_of (bytes_of s) = s"
  by simp

lemma unat_of_nat_u64 [simp]: "n < 2 ^ 64 \<Longrightarrow> unat (of_nat n :: u64) = n"
  by (simp add: unat_of_nat take_bit_nat_eq_self)

section \<open>Error values\<close>

text \<open>
  The sentinel errors of \<^verbatim>\<open>components/status/code.go\<close>. Go compares errors by identity, and
  every sentinel is a value of its own, so they are constructors.
\<close>

datatype status_code =
    StatusError
  | StatusInvalidState
  | StatusInvalidArg
  | StatusNotSupported
  | StatusNoData
  | StatusTimeout

fun status_text :: "status_code \<Rightarrow> string" where
  "status_text StatusError = ''operation failed''"
| "status_text StatusInvalidState = ''invalid state''"
| "status_text StatusInvalidArg = ''invalid argument''"
| "status_text StatusNotSupported = ''not supported''"
| "status_text StatusNoData = ''no data''"
| "status_text StatusTimeout = ''timeout''"

text \<open>The two reasons of a \<^verbatim>\<open>strconv.NumError\<close>.\<close>

datatype num_err = ErrSyntax | ErrRange

text \<open>
  The \<^verbatim>\<open>error\<close> values of the program: the sentinels, the errors of the generated codec, of
  \<^verbatim>\<open>strconv\<close> and of \<^verbatim>\<open>net/url\<close>, the values made by \<^verbatim>\<open>fmt.Errorf\<close> (the formatted text up
  to the error operand, which every call of the program has last, and that operand), and the
  errors that come from code outside the repository, known by their text only.
\<close>

datatype err =
    Status status_code
  | ErrDeviceExist
  | IoEOF
  | ColferMax string
  | ColferError nat
  | ColferTail nat
  | NumError string string num_err
  | UrlError string string
  | Errorf string "err option"
  | ExtErr string

section \<open>Outcomes\<close>

text \<open>
  What a call does: it returns, it panics, or it blocks for ever. A Go function that returns an
  \<^verbatim>\<open>error\<close> returns an \<^typ>\<open>err option\<close>, with \<^const>\<open>None\<close> for \<^verbatim>\<open>nil\<close>; one that
  returns a value and an error is modelled by a sum.
\<close>

datatype 'a outcome = Ret 'a | Panic | Hang

type_synonym ('s, 'a) action = "'s \<Rightarrow> 'a outcome \<times> 's"

text \<open>Sequencing: the state a call leaves is kept when it panics or blocks.\<close>

definition and_then :: "('s, 'a) action \<Rightarrow> ('a \<Rightarrow> ('s, 'b) action) \<Rightarrow> ('s, 'b) action" where
  "and_then m f s =
     (case m s of
        (Ret a, s') \<Rightarrow> f a s'
      | (Panic, s') \<Rightarrow> (Panic, s')
      | (Hang, s') \<Rightarrow> (Hang, s'))"

lemma and_then_Ret [outcome_simps]: "m s = (Ret a, s') \<Longrightarrow> and_then m f s = f a s'"
  by (simp add: and_then_def)

lemma and_then_Ret_iff:
  "and_then m f s = (Ret b, t) \<longleftrightarrow> (\<exists>a s'. m s = (Ret a, s') \<and> f a s' = (Ret b, t))"
  by (cases "m s"; cases "fst (m s)") (auto simp: and_then_def)

text \<open>A transitive fact about what calls do to the state composes.\<close>

lemma and_then_rel:
  assumes "R s (snd (m s))" and "\<And>a s'. m s = (Ret a, s') \<Longrightarrow> R s' (snd (f a s'))"
    and "\<And>s t u. R s t \<Longrightarrow> R t u \<Longrightarrow> R s u"
  shows "R s (snd (and_then m f s))"
  using assms(1,2) assms(3) [of s "snd (m s)"]
  by (auto simp: and_then_def split: prod.splits outcome.splits)

text \<open>A call that acts on one part of a world of two parts.\<close>

definition lift_fst :: "('s, 'a) action \<Rightarrow> ('s \<times> 'w, 'a) action" where
  "lift_fst f = (\<lambda>(s, w). case f s of (r, s') \<Rightarrow> (r, (s', w)))"

definition lift_snd :: "('w, 'a) action \<Rightarrow> ('s \<times> 'w, 'a) action" where
  "lift_snd f = (\<lambda>(s, w). case f w of (r, w') \<Rightarrow> (r, (s, w')))"

lemma lift_snd_pair:
  "lift_snd f (d, s) = (r, (d', s')) \<longleftrightarrow> d' = d \<and> f s = (r, s')"
  by (auto simp: lift_snd_def split: prod.splits)

lemma lift_snd_fst: "fst (snd (lift_snd f (d, s))) = d"
  by (simp add: lift_snd_def split: prod.splits)

lemma lift_snd_Ret [outcome_simps]: "f s = (r, s') \<Longrightarrow> lift_snd f (d, s) = (r, (d, s'))"
  by (simp add: lift_snd_def)

lemma lift_fst_Ret [outcome_simps]: "f s = (r, s') \<Longrightarrow> lift_fst f (s, d) = (r, (s', d))"
  by (simp add: lift_fst_def)

section \<open>Generic lemmas\<close>

lemma map_upd_triv_dom: "dom (m(k \<mapsto> v)) = insert k (dom m)"
  by simp

lemma mask7: "(127 :: u64) = mask 7" "(127 :: byte) = mask 7"
  by (simp_all add: mask_eq_exp_minus_1)

lemma bit7: "(128 :: u64) = push_bit 7 1" "(128 :: byte) = push_bit 7 1"
  by simp_all

text \<open>A word is its seven low bits and the rest, shifted back.\<close>

lemma low7_or_high: "(y AND 127) OR push_bit 7 (drop_bit 7 y) = (y :: u64)"
proof (rule bit_word_eqI)
  fix n assume "n < LENGTH(64)"
  then show "bit ((y AND 127) OR push_bit 7 (drop_bit 7 y)) n \<longleftrightarrow> bit y n"
    by (cases "n < 7") (simp_all add: mask7 bit_simps)
qed

text \<open>What a reader of a continuation byte \<open>byte(x | 0x80)\<close> sees.\<close>

lemma cont_byte_low: "(ucast (ucast (y OR 128 :: u64) :: byte) :: u64) AND 127 = y AND 127"
  unfolding mask7 bit7 by (rule bit_word_eqI) (auto simp: bit_simps simp del: push_bit_of_1)

lemma cont_byte_high: "128 \<le> (ucast (ucast (y OR 128 :: u64) :: byte) :: u64)"
proof -
  have "(ucast (ucast (y OR 128 :: u64) :: byte) :: u64) = ucast (ucast y :: byte) OR 128"
    unfolding bit7 by (rule bit_word_eqI) (auto simp: bit_simps simp del: push_bit_of_1)
  then show ?thesis by (simp add: le_word_or1)
qed

lemma last_byte: "y < 256 \<Longrightarrow> (ucast (ucast (y :: u64) :: byte) :: u64) = y"
  by (simp add: word_unat_eq_iff unsigned_take_bit_eq unsigned_ucast_eq word_less_nat_alt
      take_bit_nat_eq_self)

lemma unat_drop7: "unat (drop_bit 7 (x :: u64)) = unat x div 128"
  by (simp add: drop_bit_eq_div unat_div_distrib)

end
