(* ===== verification/GoLib.thy ===== *)
theory GoLib
  imports Prelude
begin

text \<open>
  What the program uses of Go's \<^verbatim>\<open>strings\<close> and \<^verbatim>\<open>strconv\<close> packages: \<^verbatim>\<open>Contains\<close>,
  \<^verbatim>\<open>Split\<close> by one byte, \<^verbatim>\<open>TrimSuffix\<close>, \<^verbatim>\<open>HasPrefix\<close>, \<^verbatim>\<open>Cut\<close>, decimal
  \<^verbatim>\<open>ParseInt\<close>/\<^verbatim>\<open>Atoi\<close> at 64 bits with their two kinds of error, and \<^verbatim>\<open>FormatInt\<close>. The
  lemmas are the round trip of \<^verbatim>\<open>FormatInt\<close> and \<^verbatim>\<open>ParseInt\<close> and the laws of splitting.
\<close>

section \<open>strings\<close>

definition has_prefix :: "string \<Rightarrow> string \<Rightarrow> bool" where
  "has_prefix s p \<longleftrightarrow> take (length p) s = p"

definition has_suffix :: "string \<Rightarrow> string \<Rightarrow> bool" where
  "has_suffix s p \<longleftrightarrow> length p \<le> length s \<and> drop (length s - length p) s = p"

fun contains :: "string \<Rightarrow> string \<Rightarrow> bool" where
  "contains [] sub = (sub = [])"
| "contains (c # cs) sub = (has_prefix (c # cs) sub \<or> contains cs sub)"

definition trim_suffix :: "string \<Rightarrow> string \<Rightarrow> string" where
  "trim_suffix s p = (if has_suffix s p then take (length s - length p) s else s)"

fun split_char :: "char \<Rightarrow> string \<Rightarrow> string list" where
  "split_char c [] = [[]]"
| "split_char c (x # xs) =
     (if x = c then [] # split_char c xs
      else (case split_char c xs of [] \<Rightarrow> [[x]] | t # ts \<Rightarrow> (x # t) # ts))"

text \<open>\<^verbatim>\<open>strings.Cut\<close> around the first occurrence of one byte.\<close>

fun cut_char :: "char \<Rightarrow> string \<Rightarrow> string \<times> string \<times> bool" where
  "cut_char c [] = ([], [], False)"
| "cut_char c (x # xs) =
     (if x = c then ([], xs, True)
      else (case cut_char c xs of (a, b, ok) \<Rightarrow> (x # a, b, ok)))"

fun join_char :: "char \<Rightarrow> string list \<Rightarrow> string" where
  "join_char c [] = []"
| "join_char c [t] = t"
| "join_char c (t # ts) = t @ c # join_char c ts"

lemma split_char_nonempty [simp]: "split_char c s \<noteq> []"
  by (induction s) (auto split: list.splits)

lemma join_split [simp]: "join_char c (split_char c s) = s"
proof (induction s)
  case (Cons x xs)
  obtain t ts where "split_char c xs = t # ts" by (cases "split_char c xs") auto
  with Cons.IH show ?case by (cases ts) auto
qed simp

lemma split_char_no_sep: "t \<in> set (split_char c s) \<Longrightarrow> c \<notin> set t"
proof (induction s arbitrary: t)
  case (Cons x xs)
  obtain u us where "split_char c xs = u # us" by (cases "split_char c xs") auto
  with Cons show ?case by (auto split: if_splits)
qed simp

lemma split_char_absent: "c \<notin> set s \<Longrightarrow> split_char c s = [s]"
  by (induction s) auto

lemma split_char_once:
  "c \<notin> set a \<Longrightarrow> split_char c (a @ c # b) = a # split_char c b"
  by (induction a) auto

lemma split_char_two_iff:
  "split_char c s = [a, b] \<longleftrightarrow> c \<notin> set a \<and> c \<notin> set b \<and> s = a @ c # b"
proof
  assume *: "split_char c s = [a, b]"
  then have "c \<notin> set a" "c \<notin> set b" using split_char_no_sep [of _ c s] by auto
  moreover have "s = a @ c # b" using * join_split [of c s] by simp
  ultimately show "c \<notin> set a \<and> c \<notin> set b \<and> s = a @ c # b" by simp
next
  assume "c \<notin> set a \<and> c \<notin> set b \<and> s = a @ c # b"
  then show "split_char c s = [a, b]" by (simp add: split_char_once split_char_absent)
qed

lemma contains_char_iff: "contains s [c] \<longleftrightarrow> c \<in> set s"
  by (induction s) (auto simp: has_prefix_def)

lemma contains_infix: "contains s sub \<longleftrightarrow> (\<exists>a b. s = a @ sub @ b)"
proof (induction s)
  case (Cons c cs)
  have pre: "has_prefix (c # cs) sub \<longleftrightarrow> (\<exists>b. c # cs = sub @ b)"
    unfolding has_prefix_def by (metis append_eq_conv_conj)
  have "(\<exists>a b. c # cs = a @ sub @ b) \<longleftrightarrow>
      (\<exists>b. c # cs = sub @ b) \<or> (\<exists>a b. cs = a @ sub @ b)"
    by (metis append_Cons append_Nil neq_Nil_conv list.sel(3))
  then show ?case using Cons.IH pre by auto
qed simp

section \<open>strconv\<close>

definition digit_char :: "nat \<Rightarrow> char" where
  "digit_char d = char_of (48 + d)"

definition digit_val :: "char \<Rightarrow> nat option" where
  "digit_val c = (let n = of_char c in if 48 \<le> n \<and> n \<le> 57 then Some (n - 48) else None)"

fun nat_str :: "nat \<Rightarrow> string" where
  "nat_str n = (if n < 10 then [digit_char n] else nat_str (n div 10) @ [digit_char (n mod 10)])"

declare nat_str.simps [simp del]

text \<open>\<^verbatim>\<open>strconv.FormatInt(v, 10)\<close> and \<^verbatim>\<open>strconv.Itoa\<close>.\<close>

definition format_int :: "i64 \<Rightarrow> string" where
  "format_int v =
     (if sint v < 0 then CHR ''-'' # nat_str (nat (- sint v)) else nat_str (nat (sint v)))"

text \<open>
  The digit loop of \<^verbatim>\<open>strconv.ParseUint\<close> in base 10: an accumulator that no longer fits in 64
  bits is a range error as soon as it is seen, a byte that is no digit is a syntax error.
\<close>

fun scan_uint :: "nat \<Rightarrow> string \<Rightarrow> num_err + nat" where
  "scan_uint n [] = Inr n"
| "scan_uint n (c # cs) =
     (case digit_val c of
        None \<Rightarrow> Inl ErrSyntax
      | Some d \<Rightarrow> if 2 ^ 64 \<le> n * 10 + d then Inl ErrRange else scan_uint (n * 10 + d) cs)"

text \<open>
  \<^verbatim>\<open>strconv.ParseInt(s, 10, 64)\<close>; \<^verbatim>\<open>strconv.Atoi\<close> differs in the function name its error
  carries only.
\<close>

definition parse_int :: "string \<Rightarrow> string \<Rightarrow> err + i64" where
  "parse_int fn s =
     (case s of
        [] \<Rightarrow> Inl (NumError fn s ErrSyntax)
      | c # cs \<Rightarrow>
          (let neg = (c = CHR ''-''); ds = (if neg \<or> c = CHR ''+'' then cs else s) in
           if ds = [] then Inl (NumError fn s ErrSyntax)
           else (case scan_uint 0 ds of
                   Inl e \<Rightarrow> Inl (NumError fn s e)
                 | Inr un \<Rightarrow>
                     if \<not> neg \<and> 2 ^ 63 \<le> un then Inl (NumError fn s ErrRange)
                     else if neg \<and> 2 ^ 63 < un then Inl (NumError fn s ErrRange)
                     else Inr (word_of_int (if neg then - int un else int un)))))"

lemma digit_val_digit_char [simp]: "d < 10 \<Longrightarrow> digit_val (digit_char d) = Some d"
  by (simp add: digit_val_def digit_char_def)

lemma scan_uint_append:
  "scan_uint n (xs @ ys) =
     (case scan_uint n xs of Inl e \<Rightarrow> Inl e | Inr k \<Rightarrow> scan_uint k ys)"
  by (induction n xs rule: scan_uint.induct) (auto split: option.splits)

lemma scan_uint_nat_str: "n < 2 ^ 64 \<Longrightarrow> scan_uint 0 (nat_str n) = Inr n"
proof (induction n rule: nat_str.induct)
  case (1 n)
  show ?case
  proof (cases "n < 10")
    case True
    then show ?thesis by (simp add: nat_str.simps [of n])
  next
    case False
    with 1 have "scan_uint 0 (nat_str (n div 10)) = Inr (n div 10)" by simp
    moreover have "n div 10 * 10 + n mod 10 = n" by simp
    ultimately show ?thesis
      using False 1 by (simp add: nat_str.simps [of n] scan_uint_append del: mult.commute)
  qed
qed

lemma nat_str_nonempty [simp]: "nat_str n \<noteq> []"
  by (subst nat_str.simps) simp

lemma nat_str_digits: "c \<in> set (nat_str n) \<Longrightarrow> \<exists>d < 10. c = digit_char d"
proof (induction n rule: nat_str.induct)
  case (1 n)
  have "\<exists>d < 10. digit_char (n mod 10) = digit_char d" by (rule exI [of _ "n mod 10"]) simp
  with 1 show ?case by (cases "n < 10") (auto simp: nat_str.simps [of n])
qed

lemma digit_char_not_sign: "d < 10 \<Longrightarrow> digit_char d \<noteq> CHR ''-'' \<and> digit_char d \<noteq> CHR ''+''"
proof -
  assume "d < 10"
  then have "of_char (digit_char d) = 48 + d" by (simp add: digit_char_def)
  then show ?thesis by (auto dest: arg_cong [of _ _ "of_char :: char \<Rightarrow> nat"])
qed

lemma nat_str_hd: "nat_str n = c # cs \<Longrightarrow> c \<noteq> CHR ''-'' \<and> c \<noteq> CHR ''+''"
  using nat_str_digits [of c n] digit_char_not_sign by auto

lemma parse_int_nat_str:
  "n < 2 ^ 63 \<Longrightarrow> parse_int fn (nat_str n) = Inr (word_of_int (int n))"
proof -
  assume n: "n < 2 ^ 63"
  obtain c cs where s: "nat_str n = c # cs" by (cases "nat_str n") auto
  have "scan_uint 0 (c # cs) = Inr n" using scan_uint_nat_str [of n] n s by simp
  with n s nat_str_hd [OF s] show ?thesis by (auto simp: parse_int_def Let_def)
qed

lemma parse_int_neg_nat_str:
  "n \<le> 2 ^ 63 \<Longrightarrow> parse_int fn (CHR ''-'' # nat_str n) = Inr (word_of_int (- int n))"
  using scan_uint_nat_str [of n] by (simp add: parse_int_def)

lemma sint_range_i64: "- (2 ^ 63) \<le> sint (v :: i64) \<and> sint v < 2 ^ 63"
  using sint_greater_eq [of v] sint_less [of v] by simp

text \<open>Every 64 bit value that is printed is read back.\<close>

lemma parse_format_int: "parse_int fn (format_int v) = Inr v"
proof (cases "sint v < 0")
  case True
  then have "nat (- sint v) \<le> 2 ^ 63" using sint_range_i64 [of v] by simp
  from parse_int_neg_nat_str [OF this, of fn] True show ?thesis by (simp add: format_int_def)
next
  case False
  then have "nat (sint v) < 2 ^ 63" using sint_range_i64 [of v] by simp
  from parse_int_nat_str [OF this, of fn] False show ?thesis by (simp add: format_int_def)
qed

end
