(* ===== verification/Colfer.thy ===== *)
theory Colfer
  imports GoLib
begin

text \<open>
  The codec of the persisted device record, \<^verbatim>\<open>components/device/devstore/Colfer.go\<close>: the
  struct \<^verbatim>\<open>StorageItem\<close>, \<^verbatim>\<open>MarshalTo\<close>, \<^verbatim>\<open>MarshalLen\<close>, \<^verbatim>\<open>MarshalBinary\<close>,
  \<^verbatim>\<open>Unmarshal\<close> and \<^verbatim>\<open>UnmarshalBinary\<close>, index by index as the code reads and writes its
  buffers, so that an index out of range is the outcome \<^const>\<open>Panic\<close>. A pure encoder
  \<open>encode_item\<close> is the specification: \<^verbatim>\<open>MarshalTo\<close> refines it, \<^verbatim>\<open>MarshalLen\<close> computes its
  length and \<^verbatim>\<open>Unmarshal\<close> inverts it.
\<close>

section \<open>The record\<close>

record storage_item =
  item_Desc :: string
  item_Timestamp :: i64
  item_Type :: string

definition empty_item :: storage_item where
  "empty_item = \<lparr>item_Desc = [], item_Timestamp = 0, item_Type = []\<rparr>"

definition ColferSizeMax :: nat where
  "ColferSizeMax = 1024"

section \<open>Writing\<close>

type_synonym cursor = "byte list \<times> nat"

text \<open>\<^verbatim>\<open>buf[i] = b\<close>; \<^const>\<open>None\<close> is Go's index out of range panic.\<close>

definition put_byte :: "byte \<Rightarrow> cursor \<Rightarrow> cursor option" where
  "put_byte b = (\<lambda>(buf, i). if i < length buf then Some (buf[i := b], Suc i) else None)"

text \<open>\<^verbatim>\<open>i += copy(buf[i:], s)\<close>: slicing past the end panics, copying stops at the end.\<close>

definition copy_string :: "string \<Rightarrow> cursor \<Rightarrow> cursor option" where
  "copy_string s = (\<lambda>(buf, i).
     if length buf < i then None
     else (let n = min (length buf - i) (length s)
           in Some (take i buf @ take n (bytes_of s) @ drop (i + n) buf, i + n)))"

text \<open>The loop that writes a length, seven bits at a time.\<close>

function put_uvarint :: "u64 \<Rightarrow> cursor \<Rightarrow> cursor option" where
  "put_uvarint x c =
     (if 0x80 \<le> x
      then Option.bind (put_byte (ucast (x OR 0x80)) c) (put_uvarint (drop_bit 7 x))
      else put_byte (ucast x) c)"
  by pat_completeness auto
termination
  by (relation "measure (\<lambda>(x, c). unat x)") (auto simp: unat_drop7 word_le_nat_alt)

declare put_uvarint.simps [simp del]

text \<open>The loop that writes a timestamp: at most eight continuation bytes, then a whole byte.\<close>

function put_timestamp :: "nat \<Rightarrow> u64 \<Rightarrow> cursor \<Rightarrow> cursor option" where
  "put_timestamp n x c =
     (if 0x80 \<le> x \<and> n < 8
      then Option.bind (put_byte (ucast (x OR 0x80)) c) (put_timestamp (Suc n) (drop_bit 7 x))
      else put_byte (ucast x) c)"
  by pat_completeness auto
termination
  by (relation "measure (\<lambda>(n, x, c). 8 - n)") auto

declare put_timestamp.simps [simp del]

definition marshal_text :: "byte \<Rightarrow> string \<Rightarrow> cursor \<Rightarrow> cursor option" where
  "marshal_text header s c =
     (if length s \<noteq> 0
      then do { c \<leftarrow> put_byte header c;
                c \<leftarrow> put_uvarint (of_nat (length s)) c;
                copy_string s c }
      else Some c)"

definition marshal_timestamp :: "i64 \<Rightarrow> cursor \<Rightarrow> cursor option" where
  "marshal_timestamp v c =
     (if v \<noteq> 0
      then (let (x, header) = (if 0 \<le> sint v then (v, 1) else (NOT v + 1, 1 OR 0x80))
            in do { c \<leftarrow> put_byte header c; put_timestamp 0 x c })
      else Some c)"

definition MarshalTo :: "storage_item \<Rightarrow> byte list \<Rightarrow> cursor option" where
  "MarshalTo s buf =
     do { c \<leftarrow> marshal_text 0 (item_Desc s) (buf, 0);
          c \<leftarrow> marshal_timestamp (item_Timestamp s) c;
          c \<leftarrow> marshal_text 2 (item_Type s) c;
          put_byte 0x7f c }"

section \<open>The size of an encoding\<close>

fun len_text_loop :: "nat \<Rightarrow> nat \<Rightarrow> nat" where
  "len_text_loop x l = (if 0x80 \<le> x then len_text_loop (x div 128) (Suc l) else l)"

declare len_text_loop.simps [simp del]

function len_timestamp_loop :: "nat \<Rightarrow> u64 \<Rightarrow> nat \<Rightarrow> nat" where
  "len_timestamp_loop n x l =
     (if 0x80 \<le> x \<and> n < 8 then len_timestamp_loop (Suc n) (drop_bit 7 x) (Suc l) else l)"
  by pat_completeness auto
termination
  by (relation "measure (\<lambda>(n, x, l). 8 - n)") auto

declare len_timestamp_loop.simps [simp del]

definition len_text :: "string \<Rightarrow> string \<Rightarrow> nat \<Rightarrow> err + nat" where
  "len_text field s l =
     (let x = length s in
      if x \<noteq> 0
      then (if ColferSizeMax < x
            then Inl (ColferMax (''colfer: field devstore.StorageItem.'' @ field @
                                 '' exceeds 1024 bytes''))
            else Inr (len_text_loop x (l + x + 2)))
      else Inr l)"

definition len_timestamp :: "i64 \<Rightarrow> nat \<Rightarrow> nat" where
  "len_timestamp v l =
     (if v \<noteq> 0 then len_timestamp_loop 0 (if sint v < 0 then NOT v + 1 else v) (l + 2) else l)"

definition MarshalLen :: "storage_item \<Rightarrow> nat \<times> err option" where
  "MarshalLen s =
     (case len_text ''Desc'' (item_Desc s) 1 of
        Inl e \<Rightarrow> (0, Some e)
      | Inr l \<Rightarrow>
         (case len_text ''Type'' (item_Type s) (len_timestamp (item_Timestamp s) l) of
            Inl e \<Rightarrow> (0, Some e)
          | Inr l \<Rightarrow>
             if ColferSizeMax < l
             then (l, Some (ColferMax ''colfer: struct devstore.StorageItem exceeds 1024 bytes''))
             else (l, None)))"

text \<open>A fresh buffer of the computed size, filled; writing past its end would be a panic.\<close>

definition MarshalBinary :: "storage_item \<Rightarrow> (err + byte list) outcome" where
  "MarshalBinary s =
     (case MarshalLen s of
        (_, Some e) \<Rightarrow> Ret (Inl e)
      | (l, None) \<Rightarrow>
         (case MarshalTo s (replicate l 0) of
            None \<Rightarrow> Panic
          | Some (data, _) \<Rightarrow> Ret (Inr data)))"

section \<open>Reading\<close>

text \<open>
  How a piece of \<^verbatim>\<open>Unmarshal\<close> ends: it goes on with a value, it jumps to the label
  \<^verbatim>\<open>eof\<close> with the index reached, it returns an error, or it reads out of range.
\<close>

datatype 'a ctl = Cont 'a | Goto_eof nat | Return err | Crash

fun ctl_bind :: "'a ctl \<Rightarrow> ('a \<Rightarrow> 'b ctl) \<Rightarrow> 'b ctl" where
  "ctl_bind (Cont a) f = f a"
| "ctl_bind (Goto_eof i) f = Goto_eof i"
| "ctl_bind (Return e) f = Return e"
| "ctl_bind Crash f = Crash"

function uvarint_loop :: "byte list \<Rightarrow> nat \<Rightarrow> nat \<Rightarrow> u64 \<Rightarrow> (u64 \<times> nat) ctl" where
  "uvarint_loop data i shift x =
     (if length data \<le> i then Goto_eof i
      else (let b = ucast (data ! i)
            in if b < 0x80 then Cont (x OR push_bit shift b, Suc i)
               else uvarint_loop data (Suc i) (shift + 7) (x OR push_bit shift (b AND 0x7f))))"
  by pat_completeness auto
termination
  by (relation "measure (\<lambda>(data, i, shift, x). length data - i)") auto

declare uvarint_loop.simps [simp del]

function timestamp_loop :: "byte list \<Rightarrow> nat \<Rightarrow> nat \<Rightarrow> u64 \<Rightarrow> (u64 \<times> nat) ctl" where
  "timestamp_loop data i shift x =
     (if length data \<le> i then Crash
      else (let b = ucast (data ! i)
            in if length data \<le> Suc i then Goto_eof (Suc i)
               else if b < 0x80 \<or> shift = 56 then Cont (x OR push_bit shift b, Suc i)
               else timestamp_loop data (Suc i) (shift + 7) (x OR push_bit shift (b AND 0x7f))))"
  by pat_completeness auto
termination
  by (relation "measure (\<lambda>(data, i, shift, x). length data - i)") auto

declare timestamp_loop.simps [simp del]

definition read_uvarint :: "byte list \<Rightarrow> nat \<Rightarrow> (u64 \<times> nat) ctl" where
  "read_uvarint data i =
     (if length data \<le> i then Goto_eof i
      else (let x = ucast (data ! i)
            in if 0x80 \<le> x then uvarint_loop data (Suc i) 7 (x AND 0x7f) else Cont (x, Suc i)))"

definition read_timestamp :: "byte list \<Rightarrow> nat \<Rightarrow> (u64 \<times> nat) ctl" where
  "read_timestamp data i =
     (if length data \<le> i + 1 then Goto_eof (i + 1)
      else (let x = ucast (data ! i)
            in if 0x80 \<le> x then timestamp_loop data (Suc i) 7 (x AND 0x7f) else Cont (x, Suc i)))"

text \<open>The body of a text field: its length, the bound on it, and the bytes themselves.\<close>

definition read_text :: "string \<Rightarrow> byte list \<Rightarrow> nat \<Rightarrow> (string \<times> nat) ctl" where
  "read_text field data i =
     ctl_bind (read_uvarint data i) (\<lambda>(x, i).
       if of_nat ColferSizeMax < x
       then Return (ColferMax (''colfer: devstore.StorageItem.'' @ field @ '' size '' @
                               nat_str (unat x) @ '' exceeds 1024 bytes''))
       else (let start = i; i = i + unat x
             in if length data \<le> i then Goto_eof i
                else Cont (string_of (take (i - start) (drop start data)), i)))"

text \<open>\<^verbatim>\<open>header = data[i]; i++\<close>.\<close>

definition next_header :: "byte list \<Rightarrow> nat \<Rightarrow> (byte \<times> nat) ctl" where
  "next_header data i = (if length data \<le> i then Crash else Cont (data ! i, Suc i))"

text \<open>
  The four sections of \<^verbatim>\<open>Unmarshal\<close>: each takes the receiver, the current header byte and the
  index after it; a section whose header does not match is skipped.
\<close>

type_synonym section_state = "byte \<times> nat"

definition unmarshal_desc ::
    "byte list \<Rightarrow> storage_item \<times> section_state \<Rightarrow> storage_item \<times> section_state ctl" where
  "unmarshal_desc data = (\<lambda>(s, header, i).
     if header = 0
     then (case read_text ''Desc'' data i of
             Cont (t, i) \<Rightarrow> (s\<lparr>item_Desc := t\<rparr>, next_header data i)
           | Goto_eof i \<Rightarrow> (s, Goto_eof i) | Return e \<Rightarrow> (s, Return e) | Crash \<Rightarrow> (s, Crash))
     else (s, Cont (header, i)))"

definition unmarshal_timestamp ::
    "byte list \<Rightarrow> storage_item \<times> section_state \<Rightarrow> storage_item \<times> section_state ctl" where
  "unmarshal_timestamp data = (\<lambda>(s, header, i).
     if header = 1
     then (case read_timestamp data i of
             Cont (x, i) \<Rightarrow> (s\<lparr>item_Timestamp := x\<rparr>, next_header data i)
           | Goto_eof i \<Rightarrow> (s, Goto_eof i) | Return e \<Rightarrow> (s, Return e) | Crash \<Rightarrow> (s, Crash))
     else if header = 1 OR 0x80
     then (case read_timestamp data i of
             Cont (x, i) \<Rightarrow> (s\<lparr>item_Timestamp := NOT x + 1\<rparr>, next_header data i)
           | Goto_eof i \<Rightarrow> (s, Goto_eof i) | Return e \<Rightarrow> (s, Return e) | Crash \<Rightarrow> (s, Crash))
     else (s, Cont (header, i)))"

definition unmarshal_type ::
    "byte list \<Rightarrow> storage_item \<times> section_state \<Rightarrow> storage_item \<times> section_state ctl" where
  "unmarshal_type data = (\<lambda>(s, header, i).
     if header = 2
     then (case read_text ''Type'' data i of
             Cont (t, i) \<Rightarrow> (s\<lparr>item_Type := t\<rparr>, next_header data i)
           | Goto_eof i \<Rightarrow> (s, Goto_eof i) | Return e \<Rightarrow> (s, Return e) | Crash \<Rightarrow> (s, Crash))
     else (s, Cont (header, i)))"

definition then_section ::
    "storage_item \<times> section_state ctl
     \<Rightarrow> (storage_item \<times> section_state \<Rightarrow> storage_item \<times> section_state ctl)
     \<Rightarrow> storage_item \<times> section_state ctl" where
  "then_section r f =
     (case r of
        (s, Cont st) \<Rightarrow> f (s, st)
      | (s, Goto_eof i) \<Rightarrow> (s, Goto_eof i)
      | (s, Return e) \<Rightarrow> (s, Return e)
      | (s, Crash) \<Rightarrow> (s, Crash))"

definition eof_result :: "nat \<Rightarrow> nat \<times> err option" where
  "eof_result i =
     (if ColferSizeMax \<le> i
      then (0, Some (ColferMax ''colfer: struct devstore.StorageItem size exceeds 1024 bytes''))
      else (0, Some IoEOF))"

text \<open>
  The receiver is mutated in place, also when an error is returned: it is the state of the
  action, and the fields a record does not hold keep their old values.
\<close>

definition Unmarshal :: "byte list \<Rightarrow> (storage_item, nat \<times> err option) action" where
  "Unmarshal data s =
     (if length data = 0 then (Ret (0, Some IoEOF), s)
      else (case then_section (then_section (unmarshal_desc data (s, data ! 0, 1))
                   (unmarshal_timestamp data)) (unmarshal_type data) of
              (s, Cont (header, i)) \<Rightarrow>
                 if header \<noteq> 0x7f then (Ret (0, Some (ColferError (i - 1))), s)
                 else if i < ColferSizeMax then (Ret (i, None), s)
                 else (Ret (eof_result i), s)
            | (s, Goto_eof i) \<Rightarrow> (Ret (eof_result i), s)
            | (s, Return e) \<Rightarrow> (Ret (0, Some e), s)
            | (s, Crash) \<Rightarrow> (Panic, s)))"

definition UnmarshalBinary :: "byte list \<Rightarrow> (storage_item, err option) action" where
  "UnmarshalBinary data =
     and_then (Unmarshal data) (\<lambda>(i, e) s.
       if i < length data \<and> e = None then (Ret (Some (ColferTail i)), s) else (Ret e, s))"

end
