(* ===== verification/Colfer_Codec.thy ===== *)
theory Colfer_Codec
  imports Colfer
begin

text \<open>
  What the codec of \<^theory_text>\<open>Colfer\<close> promises. \<open>encode_item\<close> is the byte format as a pure
  function; the code's writer fills a buffer with exactly these bytes or panics when they do
  not fit, its size function computes their number, and its reader inverts them.
\<close>

section \<open>The format\<close>

function uvarint :: "u64 \<Rightarrow> byte list" where
  "uvarint x = (if 0x80 \<le> x then ucast (x OR 0x80) # uvarint (drop_bit 7 x) else [ucast x])"
  by pat_completeness auto
termination
  by (relation "measure unat") (auto simp: unat_drop7 word_le_nat_alt)

declare uvarint.simps [simp del]

function timestamp_bytes :: "nat \<Rightarrow> u64 \<Rightarrow> byte list" where
  "timestamp_bytes n x =
     (if 0x80 \<le> x \<and> n < 8 then ucast (x OR 0x80) # timestamp_bytes (Suc n) (drop_bit 7 x)
      else [ucast x])"
  by pat_completeness auto
termination
  by (relation "measure (\<lambda>(n, x). 8 - n)") auto

declare timestamp_bytes.simps [simp del]

definition encode_text :: "byte \<Rightarrow> string \<Rightarrow> byte list" where
  "encode_text header s =
     (if s = [] then [] else header # uvarint (of_nat (length s)) @ bytes_of s)"

definition encode_timestamp :: "i64 \<Rightarrow> byte list" where
  "encode_timestamp v =
     (if v = 0 then []
      else if 0 \<le> sint v then 1 # timestamp_bytes 0 v
      else 0x81 # timestamp_bytes 0 (- v))"

definition encode_item :: "storage_item \<Rightarrow> byte list" where
  "encode_item s =
     encode_text 0 (item_Desc s) @ encode_timestamp (item_Timestamp s) @
     encode_text 2 (item_Type s) @ [0x7f]"

lemma uvarint_nonempty [simp]: "uvarint x \<noteq> []"
  by (subst uvarint.simps) simp

lemma timestamp_bytes_nonempty [simp]: "timestamp_bytes n x \<noteq> []"
  by (subst timestamp_bytes.simps) simp

lemma not_plus_one [simp]: "NOT v + 1 = - (v :: i64)"
  by (simp add: minus_eq_not_plus_1)

section \<open>The writer refines the format\<close>

text \<open>
  \<open>write_list bs\<close> writes the bytes at the cursor or fails when they do not fit. A piece of
  \<^verbatim>\<open>MarshalTo\<close> emits \<open>bs\<close> when it does this, except that a piece whose bytes do not fit may
  also stop with the cursor at the end of the buffer, as \<^verbatim>\<open>copy\<close> does.
\<close>

definition write_list :: "byte list \<Rightarrow> cursor \<Rightarrow> cursor option" where
  "write_list bs = (\<lambda>(buf, i).
     if i + length bs \<le> length buf
     then Some (take i buf @ bs @ drop (i + length bs) buf, i + length bs) else None)"

definition emits :: "(cursor \<Rightarrow> cursor option) \<Rightarrow> byte list \<Rightarrow> bool" where
  "emits f bs \<longleftrightarrow>
     (\<forall>buf i. i \<le> length buf \<longrightarrow>
        (if i + length bs \<le> length buf then f (buf, i) = write_list bs (buf, i)
         else f (buf, i) = None \<or>
              (\<exists>buf'. length buf' = length buf \<and> f (buf, i) = Some (buf', length buf'))))"

lemma emitsD_fits:
  "emits f bs \<Longrightarrow> i + length bs \<le> length buf \<Longrightarrow> f (buf, i) = write_list bs (buf, i)"
  by (simp add: emits_def)

lemma emitsD_short:
  assumes "emits f bs" "i \<le> length buf" "length buf < i + length bs"
  obtains "f (buf, i) = None"
  | buf' where "length buf' = length buf" "f (buf, i) = Some (buf', length buf')"
  using assms unfolding emits_def by (metis not_le)

lemma write_list_length:
  "write_list bs (buf, i) = Some (buf', j) \<Longrightarrow> length buf' = length buf \<and> j = i + length bs"
  by (auto simp: write_list_def split: if_splits)

lemma write_list_append:
  "Option.bind (write_list xs (buf, i)) (write_list ys) = write_list (xs @ ys) (buf, i)"
proof (cases "i + length xs + length ys \<le> length buf")
  case True
  then have "min (length buf) i = i" "min (length buf) (length xs + i) = length xs + i" by auto
  with True show ?thesis by (simp add: write_list_def take_drop ac_simps)
next
  case False
  then show ?thesis by (auto simp: write_list_def)
qed

lemma emits_Nil [simp]: "emits Some []"
  by (simp add: emits_def write_list_def)

lemma emits_put_byte [simp]: "emits (put_byte b) [b]"
  by (auto simp: emits_def put_byte_def write_list_def upd_conv_take_nth_drop)

lemma emits_bind:
  assumes f: "emits f xs" and g: "emits g ys"
  shows "emits (\<lambda>c. Option.bind (f c) g) (xs @ ys)"
  unfolding emits_def
proof (intro allI impI)
  fix buf :: "byte list" and i
  assume i: "i \<le> length buf"
  show "if i + length (xs @ ys) \<le> length buf
        then Option.bind (f (buf, i)) g = write_list (xs @ ys) (buf, i)
        else Option.bind (f (buf, i)) g = None \<or>
          (\<exists>buf'. length buf' = length buf \<and>
                  Option.bind (f (buf, i)) g = Some (buf', length buf'))"
  proof (cases "i + length xs \<le> length buf")
    case True
    then obtain buf1 where w: "write_list xs (buf, i) = Some (buf1, i + length xs)"
      and len: "length buf1 = length buf" by (auto simp: write_list_def)
    have "f (buf, i) = Some (buf1, i + length xs)" using emitsD_fits [OF f True] w by simp
    moreover have "write_list (xs @ ys) (buf, i) = write_list ys (buf1, i + length xs)"
      using write_list_append [of xs buf i ys] w by simp
    moreover have "if i + length xs + length ys \<le> length buf
        then g (buf1, i + length xs) = write_list ys (buf1, i + length xs)
        else g (buf1, i + length xs) = None \<or>
          (\<exists>b. length b = length buf \<and> g (buf1, i + length xs) = Some (b, length b))"
      using spec [OF spec [OF g [unfolded emits_def], of buf1], of "i + length xs"] True
      by (simp only: len simp_thms)
    ultimately show ?thesis by (auto simp: add.assoc split: if_splits)
  next
    case False
    then have short: "length buf < i + length xs" by simp
    from f i short show ?thesis
    proof (cases rule: emitsD_short)
      case 1
      with short show ?thesis by simp
    next
      case (2 buf')
      have "if ys = [] then g (buf', length buf') = write_list [] (buf', length buf')
            else g (buf', length buf') = None \<or> (\<exists>b. length b = length buf' \<and>
                   g (buf', length buf') = Some (b, length b))"
        using g by (auto simp: emits_def)
      with 2 short show ?thesis by (auto simp: write_list_def split: if_splits)
    qed
  qed
qed

lemma emits_put_uvarint: "emits (put_uvarint x) (uvarint x)"
proof (induction x rule: uvarint.induct)
  case (1 x)
  show ?case
  proof (cases "0x80 \<le> x")
    case True
    with 1 have "emits (\<lambda>c. Option.bind (put_byte (ucast (x OR 0x80)) c)
        (put_uvarint (drop_bit 7 x))) ([ucast (x OR 0x80)] @ uvarint (drop_bit 7 x))"
      by (intro emits_bind) auto
    with True show ?thesis
      by (simp add: uvarint.simps [of x] put_uvarint.simps [of x, abs_def])
  next
    case False
    then show ?thesis by (simp add: uvarint.simps [of x] put_uvarint.simps [of x, abs_def])
  qed
qed

lemma emits_put_timestamp: "emits (put_timestamp n x) (timestamp_bytes n x)"
proof (induction n x rule: timestamp_bytes.induct)
  case (1 n x)
  show ?case
  proof (cases "0x80 \<le> x \<and> n < 8")
    case True
    with 1 have "emits (\<lambda>c. Option.bind (put_byte (ucast (x OR 0x80)) c)
        (put_timestamp (Suc n) (drop_bit 7 x)))
        ([ucast (x OR 0x80)] @ timestamp_bytes (Suc n) (drop_bit 7 x))"
      by (intro emits_bind) auto
    with True show ?thesis
      by (simp add: timestamp_bytes.simps [of n x] put_timestamp.simps [of n x, abs_def])
  next
    case False
    then show ?thesis
      by (simp add: timestamp_bytes.simps [of n x] put_timestamp.simps [of n x, abs_def]
          if_not_P [OF False])
  qed
qed

lemma emits_copy_string: "emits (copy_string s) (bytes_of s)"
  by (auto simp: emits_def copy_string_def write_list_def Let_def min_def)

lemma emits_marshal_text: "emits (marshal_text h s) (encode_text h s)"
proof (cases "s = []")
  case True
  then show ?thesis by (simp add: marshal_text_def [abs_def] encode_text_def)
next
  case False
  have "emits (\<lambda>c. Option.bind (put_byte h c) (\<lambda>c.
      Option.bind (put_uvarint (of_nat (length s)) c) (copy_string s)))
      ([h] @ uvarint (of_nat (length s)) @ bytes_of s)"
    by (intro emits_bind emits_put_byte emits_put_uvarint emits_copy_string)
  with False show ?thesis by (simp add: marshal_text_def [abs_def] encode_text_def)
qed

lemma emits_marshal_timestamp: "emits (marshal_timestamp v) (encode_timestamp v)"
proof -
  have "emits (\<lambda>c. Option.bind (put_byte h c) (put_timestamp 0 x)) ([h] @ timestamp_bytes 0 x)"
    for h x by (intro emits_bind emits_put_byte emits_put_timestamp)
  then show ?thesis by (auto simp: marshal_timestamp_def [abs_def] encode_timestamp_def)
qed

lemma emits_MarshalTo_body:
  "emits (\<lambda>c. Option.bind (marshal_text 0 (item_Desc s) c) (\<lambda>c.
       Option.bind (marshal_timestamp (item_Timestamp s) c) (marshal_text 2 (item_Type s))))
     (encode_text 0 (item_Desc s) @ encode_timestamp (item_Timestamp s) @
      encode_text 2 (item_Type s))"
  by (intro emits_bind emits_marshal_text emits_marshal_timestamp)

lemma MarshalTo_alt:
  "MarshalTo s buf = Option.bind (Option.bind (marshal_text 0 (item_Desc s) (buf, 0)) (\<lambda>c.
     Option.bind (marshal_timestamp (item_Timestamp s) c) (marshal_text 2 (item_Type s))))
     (put_byte 0x7f)"
  by (simp add: MarshalTo_def Option.bind_assoc)

text \<open>
  \<^verbatim>\<open>MarshalTo\<close> fills the front of the buffer with the encoding and returns its length, or
  panics exactly when the buffer is shorter than the encoding, as its comment says.
\<close>

lemma MarshalTo_refines:
  "MarshalTo s buf =
     (if length (encode_item s) \<le> length buf
      then Some (encode_item s @ drop (length (encode_item s)) buf, length (encode_item s))
      else None)"
proof (cases "length (encode_item s) \<le> length buf")
  case True
  have "emits (\<lambda>c. Option.bind (Option.bind (marshal_text 0 (item_Desc s) c) (\<lambda>c.
     Option.bind (marshal_timestamp (item_Timestamp s) c) (marshal_text 2 (item_Type s))))
     (put_byte 0x7f)) ((encode_text 0 (item_Desc s) @ encode_timestamp (item_Timestamp s) @
      encode_text 2 (item_Type s)) @ [0x7f])"
    by (intro emits_bind emits_MarshalTo_body emits_put_byte)
  from emitsD_fits [OF this, of 0 buf] True show ?thesis
    by (simp add: MarshalTo_alt write_list_def encode_item_def)
next
  case False
  let ?bs = "encode_text 0 (item_Desc s) @ encode_timestamp (item_Timestamp s) @
      encode_text 2 (item_Type s)"
  let ?f = "\<lambda>c. Option.bind (marshal_text 0 (item_Desc s) c) (\<lambda>c.
       Option.bind (marshal_timestamp (item_Timestamp s) c) (marshal_text 2 (item_Type s)))"
  have len: "length (encode_item s) = length ?bs + 1" by (simp add: encode_item_def)
  have "Option.bind (?f (buf, 0)) (put_byte 0x7f) = None"
  proof (cases "length ?bs \<le> length buf")
    case True
    then have "?f (buf, 0) = write_list ?bs (buf, 0)"
      using emitsD_fits [OF emits_MarshalTo_body [of s], of 0 buf] by simp
    with True False len show ?thesis by (simp add: write_list_def put_byte_def)
  next
    case False
    then have short': "length buf < 0 + length ?bs" by simp
    show ?thesis
      by (rule emitsD_short [OF emits_MarshalTo_body [of s] le0 short']) (auto simp: put_byte_def)
  qed
  with False show ?thesis by (simp add: MarshalTo_alt)
qed

section \<open>The size function computes the length of the encoding\<close>

lemma len_text_loop_uvarint:
  "x < 2 ^ 64 \<Longrightarrow> Suc (len_text_loop x l) = l + length (uvarint (of_nat x))"
proof (induction x l rule: len_text_loop.induct)
  case (1 x l)
  have u: "unat (of_nat x :: u64) = x" using "1.prems" by simp
  have ge: "(0x80 :: u64) \<le> of_nat x \<longleftrightarrow> 0x80 \<le> x" using u by (simp add: word_le_nat_alt)
  have d: "drop_bit 7 (of_nat x :: u64) = of_nat (x div 128)"
    by (rule word_unat_eq_iff [THEN iffD2]) (use "1.prems" u in \<open>simp add: unat_drop7\<close>)
  show ?case
  proof (cases "0x80 \<le> x")
    case True
    with 1 have "Suc (len_text_loop (x div 128) (Suc l)) =
        Suc l + length (uvarint (of_nat (x div 128)))" by simp
    with True ge d show ?thesis
      by (simp add: len_text_loop.simps [of x] uvarint.simps [of "of_nat x"])
  next
    case False
    with ge show ?thesis by (simp add: len_text_loop.simps [of x] uvarint.simps [of "of_nat x"])
  qed
qed

lemma len_timestamp_loop_bytes:
  "Suc (len_timestamp_loop n x l) = l + length (timestamp_bytes n x)"
proof (induction n x l rule: len_timestamp_loop.induct)
  case (1 n x l)
  show ?case
  proof (cases "0x80 \<le> x \<and> n < 8")
    case True
    with 1 show ?thesis
      by (simp add: len_timestamp_loop.simps [of n x] timestamp_bytes.simps [of n x])
  next
    case False
    then show ?thesis
      by (simp add: len_timestamp_loop.simps [of n x] timestamp_bytes.simps [of n x]
          if_not_P [OF False])
  qed
qed

lemma length_encode_text [simp]: "length (encode_text 2 s) = length (encode_text 0 s)"
  by (simp add: encode_text_def)

lemma len_text_encode:
  assumes "length s \<le> ColferSizeMax"
  shows "len_text field s l = Inr (l + length (encode_text 0 s))"
proof (cases "s = []")
  case True
  then show ?thesis by (simp add: len_text_def encode_text_def)
next
  case False
  have "length s < 2 ^ 64" using assms by (simp add: ColferSizeMax_def)
  from len_text_loop_uvarint [OF this, of "l + length s + 2"] False assms show ?thesis
    by (simp add: len_text_def encode_text_def Let_def)
qed

lemma len_timestamp_encode: "len_timestamp v l = l + length (encode_timestamp v)"
  using len_timestamp_loop_bytes [of 0 v "l + 2"] len_timestamp_loop_bytes [of 0 "- v" "l + 2"]
  by (auto simp: len_timestamp_def encode_timestamp_def)

lemma MarshalLen_encode:
  assumes "length (item_Desc s) \<le> ColferSizeMax" "length (item_Type s) \<le> ColferSizeMax"
  shows "fst (MarshalLen s) = length (encode_item s)"
    and "snd (MarshalLen s) = None \<longleftrightarrow> length (encode_item s) \<le> ColferSizeMax"
  using assms
  by (auto simp: MarshalLen_def len_text_encode len_timestamp_encode encode_item_def)

end
