(* ===== verification/Colfer_Roundtrip.thy ===== *)
theory Colfer_Roundtrip
  imports Colfer_Codec
begin

text \<open>
  The reader of the codec: it inverts the format of \<^theory_text>\<open>Colfer_Codec\<close> field by field, it
  never indexes out of range whatever bytes it is given, and it consumes no more bytes than it
  was given. The properties of the codec stand at the end.
\<close>

section \<open>Reading back what was written\<close>

lemma nth_length_append [simp]: "(pre @ x # suf) ! length pre = x"
  by (simp add: nth_append)

lemma uvarint_loop_uvarint:
  "uvarint_loop (pre @ uvarint x @ suf) (length pre) s acc =
     Cont (acc OR push_bit s x, length pre + length (uvarint x))"
proof (induction x arbitrary: pre s acc rule: uvarint.induct)
  case (1 x)
  show ?case
  proof (cases "0x80 \<le> x")
    case True
    let ?b = "ucast (x OR 0x80) :: byte"
    have "uvarint_loop ((pre @ [?b]) @ uvarint (drop_bit 7 x) @ suf) (length (pre @ [?b])) (s + 7)
        (acc OR push_bit s (x AND 127)) =
      Cont (acc OR push_bit s (x AND 127) OR push_bit (s + 7) (drop_bit 7 x),
        Suc (length pre) + length (uvarint (drop_bit 7 x)))"
      using "1.IH" [OF True, of "pre @ [?b]"] by (simp add: or.assoc)
    moreover have "push_bit s (x AND 127) OR push_bit (s + 7) (drop_bit 7 x) = push_bit s x"
      by (metis low7_or_high push_bit_or push_bit_push_bit)
    ultimately show ?thesis using True cont_byte_high [of x]
      by (simp add: uvarint.simps [of x] uvarint_loop.simps [of "pre @ _" "length pre"] cont_byte_low
          or.assoc not_less Let_def)
  next
    case False
    then have "x < 256" "x < 128" by (simp_all add: word_le_nat_alt word_less_nat_alt)
    with False show ?thesis
      by (simp add: uvarint.simps [of x] uvarint_loop.simps [of "pre @ _" "length pre"] last_byte)
  qed
qed

lemma read_uvarint_uvarint:
  "read_uvarint (pre @ uvarint x @ suf) (length pre) =
     Cont (x, length pre + length (uvarint x))"
proof (cases "0x80 \<le> x")
  case True
  let ?b = "ucast (x OR 0x80) :: byte"
  from uvarint_loop_uvarint [of "pre @ [?b]" "drop_bit 7 x" suf 7 "x AND 127"] True
    cont_byte_high [of x]
  show ?thesis
    by (simp add: read_uvarint_def uvarint.simps [of x] cont_byte_low low7_or_high Let_def)
next
  case False
  then have "x < 256" "x < 128" by (simp_all add: word_le_nat_alt word_less_nat_alt)
  with False show ?thesis
    by (simp add: read_uvarint_def uvarint.simps [of x] last_byte)
qed

lemma read_text_text:
  assumes "length s \<le> ColferSizeMax" "suf \<noteq> []"
  shows "read_text field (pre @ uvarint (of_nat (length s)) @ bytes_of s @ suf) (length pre) =
     Cont (s, length pre + length (uvarint (of_nat (length s))) + length s)"
proof -
  have "unat (of_nat (length s) :: u64) = length s"
    using assms by (simp add: ColferSizeMax_def)
  moreover have "\<not> (of_nat ColferSizeMax :: u64) < of_nat (length s)"
    using assms calculation by (simp add: word_less_nat_alt ColferSizeMax_def)
  ultimately show ?thesis
    using read_uvarint_uvarint [of pre "of_nat (length s)" "bytes_of s @ suf"] assms(2)
    by (simp add: read_text_def Let_def)
qed

text \<open>
  The timestamp loop: after \<open>n\<close> bytes at most \<open>64 - 7 n\<close> bits are left, so the ninth byte, which
  is taken whole at shift 56, holds the last eight.
\<close>

lemma timestamp_loop_bytes:
  assumes "n \<le> 8" "unat x < 2 ^ (64 - 7 * n)" "suf \<noteq> []"
  shows "timestamp_loop (pre @ timestamp_bytes n x @ suf) (length pre) (7 * n) acc =
     Cont (acc OR push_bit (7 * n) x, length pre + length (timestamp_bytes n x))"
  using assms
proof (induction n x arbitrary: pre acc rule: timestamp_bytes.induct)
  case (1 n x)
  show ?case
  proof (cases "0x80 \<le> x \<and> n < 8")
    case True
    let ?b = "ucast (x OR 0x80) :: byte"
    have "64 - 7 * n = (64 - 7 * Suc n) + 7" using True by simp
    then have "(2 :: nat) ^ (64 - 7 * n) = 2 ^ (64 - 7 * Suc n) * 128"
      by (simp only: power_add) simp
    then have "unat (drop_bit 7 x) < 2 ^ (64 - 7 * Suc n)"
      using "1.prems"(2) by (simp add: unat_drop7 less_mult_imp_div_less)
    then have "timestamp_loop ((pre @ [?b]) @ timestamp_bytes (Suc n) (drop_bit 7 x) @ suf)
        (length (pre @ [?b])) (7 * Suc n) (acc OR push_bit (7 * n) (x AND 127)) =
      Cont (acc OR push_bit (7 * n) (x AND 127) OR push_bit (7 * Suc n) (drop_bit 7 x),
        Suc (length pre) + length (timestamp_bytes (Suc n) (drop_bit 7 x)))"
      using "1.IH" [OF True, of "pre @ [?b]"] True "1.prems"(3) by (simp add: or.assoc)
    moreover have "push_bit (7 * n) (x AND 127) OR push_bit (7 * Suc n) (drop_bit 7 x) =
        push_bit (7 * n) x"
      by (metis low7_or_high push_bit_or push_bit_push_bit mult_Suc_right add.commute)
    ultimately show ?thesis using True cont_byte_high [of x]
      by (simp add: timestamp_bytes.simps [of n x] timestamp_loop.simps [of "pre @ _" "length pre"]
          cont_byte_low or.assoc not_less add.commute Let_def)
  next
    case False
    with "1.prems" have "x < 256" "x < 128 \<or> 7 * n = 56"
      by (auto simp: word_le_nat_alt word_less_nat_alt not_less le_Suc_eq)
    with "1.prems" show ?thesis
      by (auto simp: timestamp_bytes.simps [of n x] if_not_P [OF False]
          timestamp_loop.simps [of "pre @ _" "length pre"] last_byte)
  qed
qed

lemma read_timestamp_bytes:
  assumes "suf \<noteq> []"
  shows "read_timestamp (pre @ timestamp_bytes 0 x @ suf) (length pre) =
     Cont (x, length pre + length (timestamp_bytes 0 x))"
proof (cases "0x80 \<le> x")
  case True
  let ?b = "ucast (x OR 0x80) :: byte"
  have "unat (drop_bit 7 x) < 2 ^ (64 - 7 * 1)"
    using unsigned_less [of x, where ?'a = nat] by (simp add: unat_drop7 less_mult_imp_div_less)
  from timestamp_loop_bytes [of 1 "drop_bit 7 x" suf "pre @ [?b]" "x AND 127"] this assms True
    cont_byte_high [of x]
  show ?thesis
    by (simp add: read_timestamp_def timestamp_bytes.simps [of 0 x] cont_byte_low low7_or_high
        Let_def)
next
  case False
  then have "x < 256" "x < 128" by (simp_all add: word_le_nat_alt word_less_nat_alt)
  with False assms show ?thesis
    by (simp add: read_timestamp_def timestamp_bytes.simps [of 0 x] last_byte)
qed

lemma next_header_at:
  "data = pre @ b # suf \<Longrightarrow> i = length pre \<Longrightarrow> next_header data i = Cont (b, Suc i)"
  by (simp add: next_header_def)

text \<open>
  Each section, started at its first byte, leaves the receiver updated and the next header
  byte \<open>b\<close> read.
\<close>

lemma unmarshal_desc_encode:
  assumes "length d \<le> ColferSizeMax" "d = [] \<Longrightarrow> b \<noteq> 0"
    and data: "data = pre @ encode_text 0 d @ b # suf"
  shows "unmarshal_desc data (s, data ! length pre, Suc (length pre)) =
     (if d = [] then s else s\<lparr>item_Desc := d\<rparr>,
      Cont (b, Suc (length pre + length (encode_text 0 d))))"
proof (cases "d = []")
  case True
  with assms(2) show ?thesis by (simp add: unmarshal_desc_def encode_text_def data)
next
  case False
  have "read_text ''Desc'' data (Suc (length pre)) = Cont (d, length pre + length (encode_text 0 d))"
    using read_text_text [OF assms(1), of "b # suf" "''Desc''" "pre @ [0]"] False
    by (simp add: encode_text_def data)
  moreover have "next_header data (length pre + length (encode_text 0 d)) =
      Cont (b, Suc (length pre + length (encode_text 0 d)))"
    by (rule next_header_at [of _ "pre @ encode_text 0 d"]) (simp_all add: data)
  moreover have "data ! length pre = 0" using False by (simp add: encode_text_def data)
  ultimately show ?thesis using False by (simp add: unmarshal_desc_def)
qed

lemma unmarshal_type_encode:
  assumes "length d \<le> ColferSizeMax" "d = [] \<Longrightarrow> b \<noteq> 2"
    and data: "data = pre @ encode_text 2 d @ b # suf"
  shows "unmarshal_type data (s, data ! length pre, Suc (length pre)) =
     (if d = [] then s else s\<lparr>item_Type := d\<rparr>,
      Cont (b, Suc (length pre + length (encode_text 2 d))))"
proof (cases "d = []")
  case True
  with assms(2) show ?thesis by (simp add: unmarshal_type_def encode_text_def data)
next
  case False
  have "read_text ''Type'' data (Suc (length pre)) = Cont (d, length pre + length (encode_text 2 d))"
    using read_text_text [OF assms(1), of "b # suf" "''Type''" "pre @ [2]"] False
    by (simp add: encode_text_def data)
  moreover have "next_header data (length pre + length (encode_text 2 d)) =
      Cont (b, Suc (length pre + length (encode_text 2 d)))"
    by (rule next_header_at [of _ "pre @ encode_text 2 d"]) (simp_all add: data)
  moreover have "data ! length pre = 2" using False by (simp add: encode_text_def data)
  ultimately show ?thesis using False by (simp add: unmarshal_type_def)
qed

lemma unmarshal_timestamp_encode:
  assumes "v = 0 \<Longrightarrow> b \<noteq> 1 \<and> b \<noteq> 0x81"
    and data: "data = pre @ encode_timestamp v @ b # suf"
  shows "unmarshal_timestamp data (s, data ! length pre, Suc (length pre)) =
     (if v = 0 then s else s\<lparr>item_Timestamp := v\<rparr>,
      Cont (b, Suc (length pre + length (encode_timestamp v))))"
proof (cases "v = 0")
  case True
  with assms(1) show ?thesis by (simp add: unmarshal_timestamp_def encode_timestamp_def data)
next
  case False
  let ?h = "if 0 \<le> sint v then 1 else 0x81 :: byte" and ?x = "if 0 \<le> sint v then v else - v"
  have enc: "encode_timestamp v = ?h # timestamp_bytes 0 ?x"
    using False by (simp add: encode_timestamp_def)
  have "read_timestamp data (Suc (length pre)) = Cont (?x, length pre + length (encode_timestamp v))"
    using read_timestamp_bytes [of "b # suf" "pre @ [?h]" ?x] by (simp add: enc data)
  moreover have "next_header data (length pre + length (encode_timestamp v)) =
      Cont (b, Suc (length pre + length (encode_timestamp v)))"
    by (rule next_header_at [of _ "pre @ encode_timestamp v"]) (simp_all add: data)
  moreover have "data ! length pre = ?h" by (simp add: enc data)
  ultimately show ?thesis using False by (simp add: unmarshal_timestamp_def)
qed

text \<open>The fields a record holds replace those of the receiver, the others are kept.\<close>

definition overlay :: "storage_item \<Rightarrow> storage_item \<Rightarrow> storage_item" where
  "overlay s t =
     \<lparr>item_Desc = if item_Desc t = [] then item_Desc s else item_Desc t,
      item_Timestamp = if item_Timestamp t = 0 then item_Timestamp s else item_Timestamp t,
      item_Type = if item_Type t = [] then item_Type s else item_Type t\<rparr>"

lemma overlay_empty [simp]: "overlay empty_item t = t"
  by (simp add: overlay_def empty_item_def)

lemma hd_encode_timestamp:
  "\<exists>b r. encode_timestamp v @ encode_text 2 d @ 0x7f # rest = b # r \<and> b \<noteq> 0"
  by (auto simp: encode_timestamp_def encode_text_def)

lemma hd_encode_type:
  "\<exists>b r. encode_text 2 d @ 0x7f # rest = b # r \<and> b \<noteq> 1 \<and> b \<noteq> 0x81"
  by (auto simp: encode_text_def)

lemma Unmarshal_encode:
  assumes d: "length (item_Desc t) \<le> ColferSizeMax" and ty: "length (item_Type t) \<le> ColferSizeMax"
  shows "Unmarshal (encode_item t @ rest) s =
     (Ret (if length (encode_item t) < ColferSizeMax then (length (encode_item t), None)
           else eof_result (length (encode_item t))),
      overlay s t)"
proof -
  let ?data = "encode_item t @ rest"
  let ?e1 = "encode_text 0 (item_Desc t)" and ?e2 = "encode_timestamp (item_Timestamp t)"
    and ?e3 = "encode_text 2 (item_Type t)"
  let ?s1 = "if item_Desc t = [] then s else s\<lparr>item_Desc := item_Desc t\<rparr>"
  let ?s2 = "if item_Timestamp t = 0 then ?s1 else ?s1\<lparr>item_Timestamp := item_Timestamp t\<rparr>"
  let ?s3 = "if item_Type t = [] then ?s2 else ?s2\<lparr>item_Type := item_Type t\<rparr>"
  obtain b1 r1 where r1: "?e2 @ ?e3 @ 0x7f # rest = b1 # r1" "b1 \<noteq> 0"
    using hd_encode_timestamp by blast
  obtain b2 r2 where r2: "?e3 @ 0x7f # rest = b2 # r2" "b2 \<noteq> 1" "b2 \<noteq> 0x81"
    using hd_encode_type by blast
  have data: "?data = ?e1 @ ?e2 @ ?e3 @ 0x7f # rest" by (simp add: encode_item_def)
  have 1: "unmarshal_desc ?data (s, ?data ! 0, 1) = (?s1, Cont (b1, Suc (length ?e1)))"
    using unmarshal_desc_encode [OF d, where b = b1 and data = ?data and pre = "[]" and suf = r1 and s = s] r1 by (simp add: data)
  have b1: "b1 = ?data ! length ?e1" by (metis data nth_length_append r1(1))
  have 2: "unmarshal_timestamp ?data (?s1, b1, Suc (length ?e1)) =
      (?s2, Cont (b2, Suc (length (?e1 @ ?e2))))"
    using unmarshal_timestamp_encode [where v = "item_Timestamp t" and b = b2 and data = ?data and pre = ?e1
      and suf = r2 and s = ?s1] r2
    by (simp add: data b1)
  have b2: "b2 = ?data ! length (?e1 @ ?e2)"
    by (metis data append.assoc nth_length_append r2(1))
  have 3: "unmarshal_type ?data (?s2, b2, Suc (length (?e1 @ ?e2))) =
      (?s3, Cont (0x7f, Suc (length (?e1 @ ?e2 @ ?e3))))"
    using unmarshal_type_encode [OF ty, where b = "0x7f" and data = ?data and pre = "?e1 @ ?e2"
      and suf = rest and s = ?s2]
    by (simp add: data b2)
  have len: "Suc (length (?e1 @ ?e2 @ ?e3)) = length (encode_item t)"
    by (simp add: encode_item_def)
  have s3: "?s3 = overlay s t" by (simp add: overlay_def)
  have "length ?data \<noteq> 0" by (simp add: encode_item_def)
  with 1 2 3 show ?thesis
    by (simp only: Unmarshal_def then_section_def len s3 if_False prod.case ctl.case) simp
qed

section \<open>The reader is safe on any bytes\<close>

lemma uvarint_loop_safe:
  "uvarint_loop data i s x \<noteq> Crash \<and>
   (\<forall>y j. uvarint_loop data i s x = Cont (y, j) \<longrightarrow> i < j \<and> j \<le> length data)"
proof (induction data i s x rule: uvarint_loop.induct)
  case (1 data i s x)
  show ?case
  proof (cases "length data \<le> i \<or> (ucast (data ! i) :: u64) < 0x80")
    case True
    then show ?thesis by (auto simp: uvarint_loop.simps [of data i] Let_def)
  next
    case False
    with "1.IH" [OF _ refl] show ?thesis
      by (auto simp: uvarint_loop.simps [of data i] Let_def)
  qed
qed

lemma timestamp_loop_safe:
  "i < length data \<Longrightarrow> timestamp_loop data i s x \<noteq> Crash \<and>
   (\<forall>y j. timestamp_loop data i s x = Cont (y, j) \<longrightarrow> i < j \<and> j < length data)"
proof (induction data i s x rule: timestamp_loop.induct)
  case (1 data i s x)
  show ?case
  proof (cases "length data \<le> Suc i \<or> (ucast (data ! i) :: u64) < 0x80 \<or> s = 56")
    case True
    with "1.prems" show ?thesis by (auto simp: timestamp_loop.simps [of data i] Let_def)
  next
    case False
    with "1.IH" [OF _ refl] "1.prems" show ?thesis
      by (auto simp: timestamp_loop.simps [of data i] Let_def)
  qed
qed

lemma read_uvarint_safe:
  "read_uvarint data i \<noteq> Crash \<and>
   (\<forall>y j. read_uvarint data i = Cont (y, j) \<longrightarrow> i < j \<and> j \<le> length data)"
  using uvarint_loop_safe [of data "Suc i" 7 "ucast (data ! i) AND 127"]
  by (auto simp: read_uvarint_def Let_def)

lemma read_timestamp_safe:
  "read_timestamp data i \<noteq> Crash \<and>
   (\<forall>y j. read_timestamp data i = Cont (y, j) \<longrightarrow> i < j \<and> j < length data)"
proof (cases "length data \<le> i + 1")
  case True
  then show ?thesis by (simp add: read_timestamp_def)
next
  case False
  let ?x = "ucast (data ! i) :: u64"
  show ?thesis
  proof (cases "0x80 \<le> ?x")
    case True
    with False have "read_timestamp data i = timestamp_loop data (Suc i) 7 (?x AND 0x7f)"
      by (simp add: read_timestamp_def Let_def)
    with timestamp_loop_safe [of "Suc i" data 7 "?x AND 0x7f"] False show ?thesis by auto
  next
    case small: False
    with False show ?thesis by (simp add: read_timestamp_def Let_def)
  qed
qed

lemma read_text_safe:
  "read_text f data i \<noteq> Crash \<and>
   (\<forall>t j. read_text f data i = Cont (t, j) \<longrightarrow> i < j \<and> j < length data)"
proof (cases "read_uvarint data i")
  case (Cont a)
  then obtain x j where "read_uvarint data i = Cont (x, j)" by (cases a) auto
  with read_uvarint_safe [of data i] show ?thesis
    by (auto simp: read_text_def Let_def split: if_splits)
qed (use read_uvarint_safe [of data i] in \<open>auto simp: read_text_def\<close>)

definition section_safe :: "byte list \<Rightarrow> storage_item \<times> section_state ctl \<Rightarrow> bool" where
  "section_safe data r \<longleftrightarrow>
     snd r \<noteq> Crash \<and> (\<forall>h j. snd r = Cont (h, j) \<longrightarrow> 0 < j \<and> j \<le> length data)"

lemma unmarshal_sections_safe:
  assumes "0 < i" "i \<le> length data"
  shows "section_safe data (unmarshal_desc data (s, h, i))"
    and "section_safe data (unmarshal_timestamp data (s, h, i))"
    and "section_safe data (unmarshal_type data (s, h, i))"
  using assms read_text_safe [of "''Desc''" data i] read_text_safe [of "''Type''" data i]
    read_timestamp_safe [of data i]
  by (auto simp: section_safe_def unmarshal_desc_def unmarshal_timestamp_def unmarshal_type_def
      next_header_def split: ctl.splits)

lemma then_section_safe:
  assumes "section_safe data r"
    and "\<And>s h i. 0 < i \<Longrightarrow> i \<le> length data \<Longrightarrow> section_safe data (f (s, h, i))"
  shows "section_safe data (then_section r f)"
proof -
  obtain s c where r: "r = (s, c)" by (cases r)
  show ?thesis
  proof (cases c)
    case (Cont st)
    moreover obtain h i where "st = (h, i)" by (cases st)
    moreover have "section_safe data (f (s, h, i))"
      using assms(1) calculation by (intro assms(2)) (simp_all add: section_safe_def r)
    ultimately show ?thesis by (simp add: then_section_def r)
  qed (use assms(1) in \<open>simp_all add: then_section_def section_safe_def r\<close>)
qed

lemma Unmarshal_safe:
  "\<exists>n e. fst (Unmarshal data s) = Ret (n, e) \<and>
     (e = None \<longrightarrow> 0 < n \<and> n \<le> length data \<and> n < ColferSizeMax)"
proof (cases "data = []")
  case True
  then show ?thesis by (simp add: Unmarshal_def)
next
  case False
  let ?r = "then_section (then_section (unmarshal_desc data (s, data ! 0, 1))
              (unmarshal_timestamp data)) (unmarshal_type data)"
  from False have "1 \<le> length data" by (cases data) auto
  then have safe: "section_safe data ?r"
    by (intro then_section_safe unmarshal_sections_safe) auto
  obtain s' c where r: "?r = (s', c)" by (cases ?r)
  with False have U: "Unmarshal data s =
      (case (s', c) of
         (s, Cont (header, i)) \<Rightarrow>
            if header \<noteq> 0x7f then (Ret (0, Some (ColferError (i - 1))), s)
            else if i < ColferSizeMax then (Ret (i, None), s) else (Ret (eof_result i), s)
       | (s, Goto_eof i) \<Rightarrow> (Ret (eof_result i), s)
       | (s, Return e) \<Rightarrow> (Ret (0, Some e), s)
       | (s, Crash) \<Rightarrow> (Panic, s))"
    unfolding Unmarshal_def by simp
  show ?thesis
  proof (cases c)
    case (Cont st)
    moreover obtain h i where "st = (h, i)" by (cases st)
    ultimately show ?thesis using safe r by (simp add: U section_safe_def eof_result_def)
  qed (use safe r in \<open>simp_all add: U section_safe_def eof_result_def\<close>)
qed

section \<open>Properties of the codec\<close>

lemma MarshalBinary_encode:
  "MarshalBinary t = Ret (Inr data) \<longleftrightarrow>
     length (item_Desc t) \<le> ColferSizeMax \<and> length (item_Type t) \<le> ColferSizeMax \<and>
     length (encode_item t) \<le> ColferSizeMax \<and> data = encode_item t"
proof (cases "length (item_Desc t) \<le> ColferSizeMax \<and> length (item_Type t) \<le> ColferSizeMax")
  case True
  with MarshalLen_encode [of t] obtain e where
    l: "MarshalLen t = (length (encode_item t), e)"
    and e: "e = None \<longleftrightarrow> length (encode_item t) \<le> ColferSizeMax" by (cases "MarshalLen t") auto
  with True show ?thesis
    by (cases e) (auto simp: MarshalBinary_def MarshalTo_refines)
next
  case False
  then have "snd (MarshalLen t) \<noteq> None"
    by (auto simp: MarshalLen_def len_text_def Let_def ColferSizeMax_def split: sum.splits)
  with False show ?thesis by (auto simp: MarshalBinary_def split: prod.splits option.splits)
qed

lemma MarshalBinary_no_panic: "MarshalBinary t \<noteq> Panic"
proof (cases "snd (MarshalLen t)")
  case None
  then have "length (item_Desc t) \<le> ColferSizeMax \<and> length (item_Type t) \<le> ColferSizeMax"
    by (auto simp: MarshalLen_def len_text_def Let_def split: sum.splits if_splits)
  with MarshalLen_encode [of t] None show ?thesis
    by (cases "MarshalLen t") (auto simp: MarshalBinary_def MarshalTo_refines)
next
  case (Some e)
  then show ?thesis by (cases "MarshalLen t") (simp add: MarshalBinary_def)
qed

lemma MarshalBinary_returns: "\<exists>r. MarshalBinary t = Ret r"
proof -
  have "MarshalBinary t \<noteq> Hang"
    by (auto simp: MarshalBinary_def split: prod.splits option.splits)
  then show ?thesis using MarshalBinary_no_panic [of t] by (cases "MarshalBinary t") auto
qed

lemma encode_item_text_le:
  "length (encode_item t) \<le> ColferSizeMax \<Longrightarrow>
   length (item_Desc t) \<le> ColferSizeMax \<and> length (item_Type t) \<le> ColferSizeMax"
  by (auto simp: encode_item_def encode_text_def split: if_splits)

text \<open>
  C12. A device record that \<^verbatim>\<open>MarshalBinary\<close> accepts and that takes fewer than 1024 bytes is
  read back unchanged by \<^verbatim>\<open>Unmarshal\<close>, whatever bytes follow it in the buffer, and
  \<^verbatim>\<open>Unmarshal\<close> reports exactly the bytes of the record as consumed.
\<close>

theorem stored_item_read_back:
  assumes "MarshalBinary t = Ret (Inr data)" and "length data < ColferSizeMax"
  shows "Unmarshal (data @ rest) empty_item = (Ret (length data, None), t)"
  using assms by (auto simp: MarshalBinary_encode Unmarshal_encode)

theorem stored_item_read_back_witness:
  "let t = \<lparr>item_Desc = ''plant'', item_Timestamp = - 300, item_Type = ''bonsai''\<rparr>;
       data = [0, 5, 112, 108, 97, 110, 116, 129, 172, 2, 2, 6, 98, 111, 110, 115, 97, 105, 127]
   in MarshalBinary t = Ret (Inr data) \<and>
      Unmarshal (data @ [7]) empty_item = (Ret (19, None), t)"
proof -
  let ?t = "\<lparr>item_Desc = ''plant'', item_Timestamp = - 300, item_Type = ''bonsai''\<rparr>"
  let ?data = "[0, 5, 112, 108, 97, 110, 116, 129, 172, 2, 2, 6, 98, 111, 110, 115, 97, 105, 127]"
  have "MarshalBinary ?t = Ret (Inr ?data)" by code_simp
  with stored_item_read_back [OF this, of "[7]"] show ?thesis
    by (simp add: ColferSizeMax_def Let_def)
qed

text \<open>
  C39. The two size limits disagree: a record whose encoding takes exactly 1024 bytes is written
  without an error, and every attempt to read it fails with \<^verbatim>\<open>ColferMax\<close>.
\<close>

theorem full_size_item_not_read_back:
  assumes "MarshalBinary t = Ret (Inr data)" and "length data = ColferSizeMax"
  shows "\<exists>m. fst (Unmarshal data s) = Ret (0, Some (ColferMax m))"
  using assms Unmarshal_encode [of t "[]" s]
  by (auto simp: MarshalBinary_encode eof_result_def)

theorem full_size_item_not_read_back_witness:
  "\<exists>t data m. MarshalBinary t = Ret (Inr data) \<and> length data = 1024 \<and>
     fst (Unmarshal data empty_item) = Ret (0, Some (ColferMax m))"
proof -
  let ?t = "empty_item\<lparr>item_Desc := replicate 1020 CHR ''a''\<rparr>"
  have u: "length (uvarint 1020) = 2" by code_simp
  then have l: "length (encode_item ?t) = 1024"
    by (simp add: encode_item_def encode_text_def encode_timestamp_def empty_item_def)
  then have m: "MarshalBinary ?t = Ret (Inr (encode_item ?t))"
    by (simp add: MarshalBinary_encode ColferSizeMax_def empty_item_def)
  show ?thesis
    using full_size_item_not_read_back [OF m, of empty_item] m l
    by (auto simp: ColferSizeMax_def)
qed

text \<open>
  C22. \<^verbatim>\<open>MarshalBinary\<close> never panics: the buffer that \<^verbatim>\<open>MarshalLen\<close> sizes always holds what
  \<^verbatim>\<open>MarshalTo\<close> writes, the result is the format of the record, and it is refused exactly when
  that takes more than 1024 bytes.
\<close>

theorem MarshalBinary_refines_format:
  "MarshalBinary t \<noteq> Panic \<and>
   (\<forall>data. MarshalBinary t = Ret (Inr data) \<longleftrightarrow>
      length (encode_item t) \<le> ColferSizeMax \<and> data = encode_item t)"
  using MarshalBinary_no_panic [of t] encode_item_text_le [of t] by (auto simp: MarshalBinary_encode)

text \<open>
  \<^verbatim>\<open>MarshalTo\<close> fills the front of any buffer with the format of the record, leaves the rest
  of it unchanged and returns the number of bytes written; it panics exactly when the buffer is
  too small.
\<close>

theorem MarshalTo_writes_format:
  "MarshalTo t buf =
     (if length (encode_item t) \<le> length buf
      then Some (encode_item t @ drop (length (encode_item t)) buf, length (encode_item t))
      else None)"
  by (rule MarshalTo_refines)

text \<open>
  C23. \<^verbatim>\<open>Unmarshal\<close> returns on any bytes: it never reads out of range, and when it reports
  success it has consumed at least one byte, no more than it was given and fewer than 1024.
\<close>

theorem Unmarshal_never_panics:
  "\<exists>n e. fst (Unmarshal data s) = Ret (n, e) \<and>
     (e = None \<longrightarrow> 0 < n \<and> n \<le> length data \<and> n < ColferSizeMax)"
  by (rule Unmarshal_safe)

theorem Unmarshal_never_panics_witness:
  "fst (Unmarshal [1, 200] empty_item) = Ret (0, Some IoEOF) \<and>
   (\<exists>n e. fst (Unmarshal [1, 200] empty_item) = Ret (n, e))"
  using Unmarshal_never_panics [of "[1, 200]" empty_item]
  by (auto simp: Unmarshal_def then_section_def unmarshal_desc_def unmarshal_timestamp_def
      unmarshal_type_def read_timestamp_def eof_result_def ColferSizeMax_def)

text \<open>
  \<^verbatim>\<open>UnmarshalBinary\<close> accepts a record only when it is the whole input: bytes after it are
  reported as \<^verbatim>\<open>ColferTail\<close> with their index, although the record has been decoded.
\<close>

theorem UnmarshalBinary_tail:
  assumes "MarshalBinary t = Ret (Inr data)" and "length data < ColferSizeMax"
  shows "UnmarshalBinary (data @ rest) empty_item =
     (Ret (if rest = [] then None else Some (ColferTail (length data))), t)"
  using assms
  by (auto simp: UnmarshalBinary_def and_then_def MarshalBinary_encode Unmarshal_encode)

theorem UnmarshalBinary_tail_witness:
  "UnmarshalBinary [127, 5] empty_item = (Ret (Some (ColferTail 1)), empty_item)"
proof -
  have "MarshalBinary empty_item = Ret (Inr [127])" by code_simp
  from UnmarshalBinary_tail [OF this, of "[5]"] show ?thesis by (simp add: ColferSizeMax_def)
qed

end
