(* ===== verification/KvDb.thy ===== *)
theory KvDb
  imports Prelude "HOL-Library.AList"
begin

text \<open>
  The key-value database of \<^verbatim>\<open>components/storage/stcore\<close>: the interface \<^verbatim>\<open>DB\<close> as a record of
  actions, \<^verbatim>\<open>NoopDB\<close>, and \<^verbatim>\<open>BboltDBBucket\<close> over the bbolt library, which is a parameter. The
  locale \<open>total_db\<close> is what every implementation keeps, \<open>persistent_db\<close> what the interface
  promises of one that stores; the bucket is shown to keep it when bbolt behaves as documented
  (locale \<open>bbolt_docs\<close>).
\<close>

section \<open>The interface\<close>

text \<open>
  \<^verbatim>\<open>ForEach\<close> calls a function on the entries in an order of its own: \<open>db_entries\<close> gives the
  entries and the error that ends the iteration by itself, \<open>for_each\<close> runs the function, whose
  captured variables are the state \<open>'c\<close>, until it returns an error.
\<close>

record 'd db =
  db_Read :: "string \<Rightarrow> ('d, err + byte list) action"
  db_Write :: "string \<Rightarrow> byte list \<Rightarrow> ('d, err option) action"
  db_Remove :: "string \<Rightarrow> ('d, err option) action"
  db_entries :: "('d, (string \<times> byte list) list \<times> err option) action"
  db_Close :: "('d, err option) action"

fun each :: "(string \<Rightarrow> byte list \<Rightarrow> 'c \<Rightarrow> err option \<times> 'c) \<Rightarrow> (string \<times> byte list) list \<Rightarrow> 'c
    \<Rightarrow> err option \<times> 'c" where
  "each fn [] c = (None, c)"
| "each fn ((k, v) # es) c =
     (case fn k v c of (Some e, c') \<Rightarrow> (Some e, c') | (None, c') \<Rightarrow> each fn es c')"

definition for_each :: "'d db \<Rightarrow> (string \<Rightarrow> byte list \<Rightarrow> 'c \<Rightarrow> err option \<times> 'c)
    \<Rightarrow> ('c \<times> 'd, err option) action" where
  "for_each db fn =
     and_then (lift_snd (db_entries db)) (\<lambda>(es, e) (c, d).
       case each fn es c of
         (Some e', c') \<Rightarrow> (Ret (Some e'), (c', d))
       | (None, c') \<Rightarrow> (Ret e, (c', d)))"

section \<open>NoopDB\<close>

definition noop_read :: "string \<Rightarrow> ('d, err + byte list) action" where
  "noop_read key d = (Ret (Inl (Status StatusNoData)), d)"

definition noop_write :: "string \<Rightarrow> byte list \<Rightarrow> ('d, err option) action" where
  "noop_write key value d = (Ret None, d)"

definition noop_remove :: "string \<Rightarrow> ('d, err option) action" where
  "noop_remove key d = (Ret None, d)"

definition noop_for_each :: "('d, (string \<times> byte list) list \<times> err option) action" where
  "noop_for_each d = (Ret ([], None), d)"

definition noop_close :: "('d, err option) action" where
  "noop_close d = (Ret None, d)"

definition noop_db :: "'d db" where
  "noop_db =
     \<lparr>db_Read = noop_read, db_Write = noop_write, db_Remove = noop_remove,
      db_entries = noop_for_each, db_Close = noop_close\<rparr>"

section \<open>BboltDBBucket\<close>

text \<open>
  What the code uses of bbolt: \<^verbatim>\<open>DB.View\<close> (at the two result types of its closures) and
  \<^verbatim>\<open>DB.Update\<close>, which run a closure on a transaction \<open>'t\<close>, and the operations of the bucket
  of a given name inside of one.
\<close>

record ('t, 'b) bbolt =
  bb_View :: "('t \<Rightarrow> err option \<times> byte list) \<Rightarrow> ('b, err option \<times> byte list) action"
  bb_ViewAll :: "('t \<Rightarrow> err option \<times> (string \<times> byte list) list)
    \<Rightarrow> ('b, err option \<times> (string \<times> byte list) list) action"
  bb_Update :: "('t \<Rightarrow> err option \<times> 't) \<Rightarrow> ('b, err option) action"
  tx_Bucket :: "string \<Rightarrow> 't \<Rightarrow> bool"
  tx_CreateBucketIfNotExists :: "string \<Rightarrow> 't \<Rightarrow> err option \<times> 't"
  tx_Get :: "string \<Rightarrow> string \<Rightarrow> 't \<Rightarrow> byte list option"
  tx_Put :: "string \<Rightarrow> string \<Rightarrow> byte list \<Rightarrow> 't \<Rightarrow> err option \<times> 't"
  tx_Delete :: "string \<Rightarrow> string \<Rightarrow> 't \<Rightarrow> err option \<times> 't"
  tx_pairs :: "string \<Rightarrow> 't \<Rightarrow> (string \<times> byte list) list"

definition bucket_read :: "('t, 'b) bbolt \<Rightarrow> string \<Rightarrow> string \<Rightarrow> ('b, err + byte list) action" where
  "bucket_read B bucket key =
     and_then (bb_View B (\<lambda>tx.
         if \<not> tx_Bucket B bucket tx then (Some (Status StatusNoData), [])
         else (case tx_Get B bucket key tx of
                 None \<Rightarrow> (Some (Status StatusNoData), [])
               | Some ret \<Rightarrow> (None, ret))))
       (\<lambda>(e, ret) s. case e of Some e \<Rightarrow> (Ret (Inl e), s) | None \<Rightarrow> (Ret (Inr ret), s))"

definition bucket_write :: "('t, 'b) bbolt \<Rightarrow> string \<Rightarrow> string \<Rightarrow> byte list
    \<Rightarrow> ('b, err option) action" where
  "bucket_write B bucket key value =
     bb_Update B (\<lambda>tx.
       case tx_CreateBucketIfNotExists B bucket tx of
         (Some e, tx) \<Rightarrow> (Some e, tx)
       | (None, tx) \<Rightarrow> tx_Put B bucket key value tx)"

definition bucket_remove :: "('t, 'b) bbolt \<Rightarrow> string \<Rightarrow> string \<Rightarrow> ('b, err option) action" where
  "bucket_remove B bucket key =
     bb_Update B (\<lambda>tx.
       if \<not> tx_Bucket B bucket tx then (None, tx) else tx_Delete B bucket key tx)"

definition bucket_for_each :: "('t, 'b) bbolt \<Rightarrow> string
    \<Rightarrow> ('b, (string \<times> byte list) list \<times> err option) action" where
  "bucket_for_each B bucket =
     and_then (bb_ViewAll B (\<lambda>tx.
         if \<not> tx_Bucket B bucket tx then (None, []) else (None, tx_pairs B bucket tx)))
       (\<lambda>(e, pairs) s. (Ret (pairs, e), s))"

definition bucket_close :: "('b, err option) action" where
  "bucket_close s = (Ret None, s)"

definition bucket_db :: "('t, 'b) bbolt \<Rightarrow> string \<Rightarrow> 'b db" where
  "bucket_db B bucket =
     \<lparr>db_Read = bucket_read B bucket, db_Write = bucket_write B bucket,
      db_Remove = bucket_remove B bucket, db_entries = bucket_for_each B bucket,
      db_Close = bucket_close\<rparr>"

section \<open>Contracts\<close>

text \<open>The calls return and keep the database usable.\<close>

locale total_db =
  fixes db :: "'d db" and ok :: "'d \<Rightarrow> bool"
  assumes write_returns: "ok d \<Longrightarrow> \<exists>e d'. db_Write db k v d = (Ret e, d') \<and> ok d'"
    and remove_returns: "ok d \<Longrightarrow> \<exists>e d'. db_Remove db k d = (Ret e, d') \<and> ok d'"
    and entries_return: "ok d \<Longrightarrow> \<exists>es e. db_entries db d = (Ret (es, e), d)"

text \<open>
  It stores: an operation that succeeds changes the entry of its key, one that fails changes
  nothing, and the iteration visits every entry once.
\<close>

locale persistent_db = total_db +
  fixes content :: "'a \<Rightarrow> string \<rightharpoonup> byte list"
  assumes write_content: "ok d \<Longrightarrow> db_Write db k v d = (Ret e, d') \<Longrightarrow>
      content d' = (if e = None then (content d)(k \<mapsto> v) else content d)"
    and remove_content: "ok d \<Longrightarrow> db_Remove db k d = (Ret e, d') \<Longrightarrow>
      content d' = (if e = None then (content d)(k := None) else content d)"
    and entries_content: "ok d \<Longrightarrow> \<exists>es. db_entries db d = (Ret (es, None), d) \<and>
      distinct (map fst es) \<and> map_of es = content d"
    and read_content: "ok d \<Longrightarrow> db_Read db k d =
      (Ret (case content d k of None \<Rightarrow> Inl (Status StatusNoData) | Some v \<Rightarrow> Inr v), d)"
begin

lemma write_read:
  assumes "ok d" and "db_Write db k v d = (Ret None, d')"
  shows "db_Read db k' d' = (if k' = k then (Ret (Inr v), d') else (fst (db_Read db k' d), d'))"
proof -
  have "ok d'" using write_returns [OF assms(1), of k v] assms(2) by simp
  then show ?thesis using write_content [OF assms] read_content [OF assms(1)]
    by (simp add: read_content)
qed

end

interpretation noop: total_db "noop_db :: 'd db" "\<lambda>_. True"
  by unfold_locales (simp_all add: noop_db_def noop_write_def noop_remove_def noop_for_each_def)

text \<open>The entries of a bucket; a bucket that does not exist has none.\<close>

definition bucket_content :: "('b \<Rightarrow> string \<rightharpoonup> (string \<rightharpoonup> byte list)) \<Rightarrow> string \<Rightarrow> 'b
    \<Rightarrow> string \<rightharpoonup> byte list" where
  "bucket_content buckets n s = (case buckets s n of None \<Rightarrow> Map.empty | Some m \<Rightarrow> m)"

text \<open>
  The documented behaviour of bbolt on an open database: a transaction starts from the committed
  buckets; \<^verbatim>\<open>Update\<close> commits what a successful closure did, or nothing; the bucket operations
  act on the named bucket.
\<close>

locale bbolt_docs =
  fixes B :: "('t, 'b) bbolt" and opened :: "'b \<Rightarrow> bool"
    and buckets :: "'b \<Rightarrow> string \<rightharpoonup> (string \<rightharpoonup> byte list)"
    and tx_buckets :: "'t \<Rightarrow> string \<rightharpoonup> (string \<rightharpoonup> byte list)"
  assumes view: "opened s \<Longrightarrow> \<exists>tx. tx_buckets tx = buckets s \<and> bb_View B f s = (Ret (f tx), s)"
    and view_all: "opened s \<Longrightarrow> \<exists>tx. tx_buckets tx = buckets s \<and> bb_ViewAll B g s = (Ret (g tx), s)"
    and update: "opened s \<Longrightarrow> \<exists>tx e s'. tx_buckets tx = buckets s \<and> bb_Update B h s = (Ret e, s') \<and>
      opened s' \<and> (if e = None then fst (h tx) = None \<and> buckets s' = tx_buckets (snd (h tx))
                   else buckets s' = buckets s)"
    and bucket: "tx_Bucket B n tx \<longleftrightarrow> tx_buckets tx n \<noteq> None"
    and create: "tx_CreateBucketIfNotExists B n tx = (None, tx') \<Longrightarrow>
      tx_buckets tx' = (tx_buckets tx)(n \<mapsto> (case tx_buckets tx n of None \<Rightarrow> Map.empty | Some m \<Rightarrow> m))"
    and get: "tx_buckets tx n = Some m \<Longrightarrow> tx_Get B n k tx = m k"
    and put: "tx_buckets tx n = Some m \<Longrightarrow> tx_Put B n k v tx = (None, tx') \<Longrightarrow>
      tx_buckets tx' = (tx_buckets tx)(n \<mapsto> m(k \<mapsto> v))"
    and delete: "tx_buckets tx n = Some m \<Longrightarrow> tx_Delete B n k tx = (None, tx') \<Longrightarrow>
      tx_buckets tx' = (tx_buckets tx)(n \<mapsto> m(k := None))"
    and pairs: "tx_buckets tx n = Some m \<Longrightarrow>
      distinct (map fst (tx_pairs B n tx)) \<and> map_of (tx_pairs B n tx) = m"
begin

lemma bucket_write_spec:
  assumes "opened s"
  shows "\<exists>e s'. bucket_write B n k v s = (Ret e, s') \<and> opened s' \<and>
     bucket_content buckets n s' = (if e = None then (bucket_content buckets n s)(k \<mapsto> v) else bucket_content buckets n s)"
proof -
  let ?h = "\<lambda>tx. case tx_CreateBucketIfNotExists B n tx of
         (Some e, tx) \<Rightarrow> (Some e, tx)
       | (None, tx) \<Rightarrow> tx_Put B n k v tx"
  obtain tx e s' where u: "tx_buckets tx = buckets s" "bb_Update B ?h s = (Ret e, s')" "opened s'"
    "if e = None then fst (?h tx) = None \<and> buckets s' = tx_buckets (snd (?h tx))
     else buckets s' = buckets s"
    using update [OF assms, of ?h] by blast
  have "bucket_content buckets n s' = (if e = None then (bucket_content buckets n s)(k \<mapsto> v) else bucket_content buckets n s)"
  proof (cases "e = None")
    case True
    with u(4) have h: "fst (?h tx) = None" "buckets s' = tx_buckets (snd (?h tx))" by simp_all
    obtain e1 tx1 where c: "tx_CreateBucketIfNotExists B n tx = (e1, tx1)" by fastforce
    with h have "e1 = None" by (cases e1) auto
    with c create have t1: "tx_buckets tx1 n = Some (bucket_content buckets n s)"
      by (simp add: bucket_content_def u(1))
    obtain e2 tx2 where p: "tx_Put B n k v tx1 = (e2, tx2)" by fastforce
    with h c \<open>e1 = None\<close> have "e2 = None" "buckets s' = tx_buckets tx2" by simp_all
    with put [OF t1] p True show ?thesis by (simp add: bucket_content_def)
  next
    case False
    then show ?thesis using u(4) unfolding if_not_P [OF False] by (simp add: bucket_content_def)
  qed
  with u show ?thesis by (simp add: bucket_write_def)
qed

lemma bucket_remove_spec:
  assumes "opened s"
  shows "\<exists>e s'. bucket_remove B n k s = (Ret e, s') \<and> opened s' \<and>
     bucket_content buckets n s' = (if e = None then (bucket_content buckets n s)(k := None) else bucket_content buckets n s)"
proof -
  let ?h = "\<lambda>tx. if \<not> tx_Bucket B n tx then (None, tx) else tx_Delete B n k tx"
  obtain tx e s' where u: "tx_buckets tx = buckets s" "bb_Update B ?h s = (Ret e, s')" "opened s'"
    "if e = None then fst (?h tx) = None \<and> buckets s' = tx_buckets (snd (?h tx))
     else buckets s' = buckets s"
    using update [OF assms, of ?h] by blast
  have "bucket_content buckets n s' = (if e = None then (bucket_content buckets n s)(k := None) else bucket_content buckets n s)"
  proof (cases "e = None")
    case True
    with u(4) have h: "fst (?h tx) = None" "buckets s' = tx_buckets (snd (?h tx))" by simp_all
    show ?thesis
    proof (cases "buckets s n")
      case None
      with h u(1) True show ?thesis by (simp add: bucket bucket_content_def fun_eq_iff)
    next
      case (Some m)
      obtain e2 tx2 where "tx_Delete B n k tx = (e2, tx2)" by fastforce
      with h u(1) Some delete [of tx n m k tx2] True show ?thesis
        by (simp add: bucket bucket_content_def)
    qed
  next
    case False
    then show ?thesis using u(4) unfolding if_not_P [OF False] by (simp add: bucket_content_def)
  qed
  with u show ?thesis by (simp add: bucket_remove_def)
qed

lemma bucket_for_each_spec:
  assumes "opened s"
  shows "\<exists>es. bucket_for_each B n s = (Ret (es, None), s) \<and> distinct (map fst es) \<and>
     map_of es = bucket_content buckets n s"
proof -
  let ?g = "\<lambda>tx. if \<not> tx_Bucket B n tx then (None, []) else (None, tx_pairs B n tx)"
  obtain tx where "tx_buckets tx = buckets s" "bb_ViewAll B ?g s = (Ret (?g tx), s)"
    using view_all [OF assms, of ?g] by blast
  then show ?thesis using bucket [of n tx] pairs [of tx n]
    by (cases "buckets s n") (auto simp: bucket_for_each_def outcome_simps bucket_content_def)
qed

lemma bucket_read_spec:
  assumes "opened s"
  shows "bucket_read B n k s =
     (Ret (case bucket_content buckets n s k of None \<Rightarrow> Inl (Status StatusNoData) | Some v \<Rightarrow> Inr v), s)"
proof -
  let ?f = "\<lambda>tx. if \<not> tx_Bucket B n tx then (Some (Status StatusNoData), [])
       else (case tx_Get B n k tx of
               None \<Rightarrow> (Some (Status StatusNoData), [])
             | Some ret \<Rightarrow> (None, ret))"
  obtain tx where "tx_buckets tx = buckets s" "bb_View B ?f s = (Ret (?f tx), s)"
    using view [OF assms, of ?f] by blast
  then show ?thesis using bucket [of n tx] get [of tx n _ k]
    by (cases "buckets s n")
      (auto simp: bucket_read_def outcome_simps bucket_content_def split: option.splits)
qed

end

sublocale bbolt_docs \<subseteq> bucket: persistent_db "bucket_db B name" opened "bucket_content buckets name" for name
proof
  fix d k v
  assume o: "opened d"
  show "\<exists>e d'. db_Write (bucket_db B name) k v d = (Ret e, d') \<and> opened d'"
    using bucket_write_spec [OF o] by (fastforce simp: bucket_db_def)
  show "\<exists>e d'. db_Remove (bucket_db B name) k d = (Ret e, d') \<and> opened d'"
    using bucket_remove_spec [OF o] by (fastforce simp: bucket_db_def)
  show "\<exists>es e. db_entries (bucket_db B name) d = (Ret (es, e), d)"
    using bucket_for_each_spec [OF o] by (fastforce simp: bucket_db_def)
  show "\<exists>es. db_entries (bucket_db B name) d = (Ret (es, None), d) \<and> distinct (map fst es) \<and>
      map_of es = bucket_content buckets name d"
    using bucket_for_each_spec [OF o] by (simp add: bucket_db_def)
  show "db_Read (bucket_db B name) k d = (Ret (case bucket_content buckets name d k of
      None \<Rightarrow> Inl (Status StatusNoData) | Some v \<Rightarrow> Inr v), d)"
    using bucket_read_spec [OF o] by (simp add: bucket_db_def)
next
  fix d k v e d'
  assume o: "opened d" and "db_Write (bucket_db B name) k v d = (Ret e, d')"
  then show "bucket_content buckets name d' =
      (if e = None then (bucket_content buckets name d)(k \<mapsto> v) else bucket_content buckets name d)"
    using bucket_write_spec [OF o, of name k v] by (auto simp: bucket_db_def)
next
  fix d k e d'
  assume o: "opened d" and "db_Remove (bucket_db B name) k d = (Ret e, d')"
  then show "bucket_content buckets name d' =
      (if e = None then (bucket_content buckets name d)(k := None) else bucket_content buckets name d)"
    using bucket_remove_spec [OF o, of name k] by (auto simp: bucket_db_def)
qed

section \<open>An instance of the parameter\<close>

text \<open>A bbolt that keeps its buckets as association lists in memory.\<close>

type_synonym mem_buckets = "(string \<times> (string \<times> byte list) list) list"

definition mem_pairs :: "string \<Rightarrow> mem_buckets \<Rightarrow> (string \<times> byte list) list" where
  "mem_pairs n tx = (case map_of tx n of None \<Rightarrow> [] | Some es \<Rightarrow> es)"

definition mem_bbolt :: "(mem_buckets, mem_buckets) bbolt" where
  "mem_bbolt =
     \<lparr>bb_View = (\<lambda>f s. (Ret (f s), s)), bb_ViewAll = (\<lambda>f s. (Ret (f s), s)),
      bb_Update = (\<lambda>f s. case f s of (Some e, _) \<Rightarrow> (Ret (Some e), s) | (None, tx) \<Rightarrow> (Ret None, tx)),
      tx_Bucket = (\<lambda>n tx. map_of tx n \<noteq> None),
      tx_CreateBucketIfNotExists = (\<lambda>n tx. (None, AList.update n (mem_pairs n tx) tx)),
      tx_Get = (\<lambda>n k tx. map_of (mem_pairs n tx) k),
      tx_Put = (\<lambda>n k v tx. if k = '''' then (Some (ExtErr ''key required''), tx)
         else (None, AList.update n (AList.update k v (mem_pairs n tx)) tx)),
      tx_Delete = (\<lambda>n k tx. (None, AList.update n (AList.delete k (mem_pairs n tx)) tx)),
      tx_pairs = (\<lambda>n tx. AList.clearjunk (mem_pairs n tx))\<rparr>"

definition mem_view :: "mem_buckets \<Rightarrow> string \<rightharpoonup> (string \<rightharpoonup> byte list)" where
  "mem_view tx n = map_option map_of (map_of tx n)"

lemma mem_update:
  "\<exists>tx e s'. mem_view tx = mem_view s \<and> bb_Update mem_bbolt h s = (Ret e, s') \<and> True \<and>
     (if e = None then fst (h tx) = None \<and> mem_view s' = mem_view (snd (h tx))
      else mem_view s' = mem_view s)"
proof -
  obtain e tx where h: "h s = (e, tx)" by fastforce
  show ?thesis
    by (rule exI [of _ s], rule exI [of _ e], rule exI [of _ "if e = None then tx else s"])
      (use h in \<open>auto simp: mem_bbolt_def split: option.splits\<close>)
qed

interpretation mem: bbolt_docs mem_bbolt "\<lambda>_. True" mem_view mem_view
  by unfold_locales
    (use mem_update in \<open>auto simp: mem_bbolt_def mem_view_def mem_pairs_def update_conv' delete_conv'
      distinct_clearjunk map_of_clearjunk fun_eq_iff split: option.splits prod.splits if_splits\<close>)

end
