(* ===== verification/NetAddr.thy ===== *)
theory NetAddr
  imports GoLib
begin

text \<open>
  What the program uses of Go's \<^verbatim>\<open>net\<close> package: the text of an address
  (\<^verbatim>\<open>IPAddr.String\<close>: dotted decimal for an IPv4 address, also one mapped into 16 bytes,
  compressed hexadecimal groups for IPv6) and \<^verbatim>\<open>JoinHostPort\<close>. The program compares and
  forwards addresses by this text only. An \<^verbatim>\<open>IPAddr\<close> of the program never has a zone.
\<close>

type_synonym ip = "byte list"

datatype addr = IPAddr ip

definition hex_digit :: "nat \<Rightarrow> char" where
  "hex_digit d = (if d < 10 then char_of (48 + d) else char_of (87 + d))"

fun hex_str :: "nat \<Rightarrow> string" where
  "hex_str n = (if n < 16 then [hex_digit n] else hex_str (n div 16) @ [hex_digit (n mod 16)])"

declare hex_str.simps [simp del]

fun hex_bytes :: "byte list \<Rightarrow> string" where
  "hex_bytes [] = []"
| "hex_bytes (b # bs) = hex_digit (unat b div 16) # hex_digit (unat b mod 16) # hex_bytes bs"

definition dotted :: "byte list \<Rightarrow> string" where
  "dotted bs = join_char CHR ''.'' (map (\<lambda>b. nat_str (unat b)) bs)"

text \<open>\<^verbatim>\<open>IP.To4\<close>: the four bytes of an IPv4 address in either form.\<close>

definition to4 :: "ip \<Rightarrow> byte list option" where
  "to4 ip =
     (if length ip = 4 then Some ip
      else if length ip = 16 \<and> take 12 ip = replicate 10 0 @ [255, 255] then Some (drop 12 ip)
      else None)"

fun groups :: "byte list \<Rightarrow> nat list" where
  "groups (a # b # bs) = (unat a * 256 + unat b) # groups bs"
| "groups bs = []"

text \<open>The first longest run of at least two zero groups, as a half-open range.\<close>

definition zero_run :: "nat list \<Rightarrow> nat \<times> nat" where
  "zero_run gs =
     foldl (\<lambda>(zs, ze) i.
        let j = i + length (takeWhile (\<lambda>g. g = 0) (drop i gs))
        in if 2 \<le> j - i \<and> ze - zs < j - i then (i, j) else (zs, ze))
       (255, 255) [0..<length gs]"

text \<open>The groups from index \<open>i\<close> on, at most \<open>k\<close> of them.\<close>

fun groups_text :: "nat list \<Rightarrow> nat \<times> nat \<Rightarrow> nat \<Rightarrow> nat \<Rightarrow> string" where
  "groups_text gs (zs, ze) 0 i = []"
| "groups_text gs (zs, ze) (Suc k) i =
     (if length gs \<le> i then []
      else if i = zs
      then ''::'' @ (if length gs \<le> ze then []
                     else hex_str (gs ! ze) @ groups_text gs (zs, ze) k (Suc ze))
      else (if 0 < i then '':'' else []) @ hex_str (gs ! i) @ groups_text gs (zs, ze) k (Suc i))"

definition ip_string :: "ip \<Rightarrow> string" where
  "ip_string ip =
     (if length ip = 0 then ''<nil>''
      else if length ip \<noteq> 4 \<and> length ip \<noteq> 16 then CHR ''?'' # hex_bytes ip
      else (case to4 ip of
              Some p4 \<Rightarrow> dotted p4
            | None \<Rightarrow> (let gs = groups ip in groups_text gs (zero_run gs) 8 0)))"

text \<open>\<^verbatim>\<open>IPAddr.String\<close>: as \<^verbatim>\<open>IP.String\<close>, but empty for no address.\<close>

fun addr_string :: "addr \<Rightarrow> string" where
  "addr_string (IPAddr ip) = (if length ip = 0 then [] else ip_string ip)"

definition join_host_port :: "string \<Rightarrow> string \<Rightarrow> string" where
  "join_host_port host port =
     (if CHR '':'' \<in> set host then CHR ''['' # host @ '']:'' @ port else host @ CHR '':'' # port)"

lemma ip_string_v4: "ip_string [192, 168, 4, 2] = ''192.168.4.2''"
  by code_simp

end
