(* ===== verification/Mdns.thy ===== *)
theory Mdns
  imports NetAddr
begin

text \<open>
  The data of \<^verbatim>\<open>components/system/sysmdns\<close>: the discovered service, the names of service types
  and protocols, and \<^verbatim>\<open>FanoutServiceHandler\<close>, which hands a service to every handler. The
  wrappers of the zeroconf library are in \<^theory_text>\<open>Zeroconf\<close>.
\<close>

record service =
  svc_Instance :: string
  svc_Name :: string
  svc_Hostname :: string
  svc_Port :: i64
  svc_TxtRecords :: "string list"
  svc_AddrsIPv4 :: "ip list"
  svc_AddrsIPv6 :: "ip list"

definition add_txt_record :: "string \<Rightarrow> string \<Rightarrow> service \<Rightarrow> service" where
  "add_txt_record key value s =
     s\<lparr>svc_TxtRecords := svc_TxtRecords s @ [key @ ''='' @ value]\<rparr>"

text \<open>\<^verbatim>\<open>ServiceType\<close> and \<^verbatim>\<open>Proto\<close> are integers with one named value each.\<close>

definition service_type_string :: "int \<Rightarrow> string" where
  "service_type_string t = (if t = 0 then ''_http'' else ''<none>'')"

definition proto_string :: "int \<Rightarrow> string" where
  "proto_string p = (if p = 0 then ''_tcp'' else ''<none>'')"

definition service_name :: "int \<Rightarrow> int \<Rightarrow> string" where
  "service_name t p = join_char CHR ''.'' [service_type_string t, proto_string p]"

type_synonym 's service_handler = "service \<Rightarrow> ('s, err option) action"

text \<open>\<^verbatim>\<open>FanoutServiceHandler.HandleService\<close>: every handler, errors are logged only.\<close>

fun fanout_handle_service :: "'s service_handler list \<Rightarrow> 's service_handler" where
  "fanout_handle_service [] svc s = (Ret None, s)"
| "fanout_handle_service (h # hs) svc s = and_then (h svc) (\<lambda>_. fanout_handle_service hs svc) s"

definition fanout_add_handler :: "'s service_handler list \<Rightarrow> 's service_handler
    \<Rightarrow> 's service_handler list" where
  "fanout_add_handler hs h = hs @ [h]"

lemma service_name_http_tcp: "service_name 0 0 = ''_http._tcp''"
  by (simp add: service_name_def service_type_string_def proto_string_def)

lemma fanout_handle_service_runs_all:
  assumes "\<And>h s. h \<in> set hs \<Longrightarrow> \<exists>e s'. h svc s = (Ret e, s')"
  shows "fanout_handle_service hs svc s = (Ret None, fold (\<lambda>h s. snd (h svc s)) hs s)"
  using assms
proof (induction hs arbitrary: s)
  case (Cons h hs)
  obtain e s' where "h svc s = (Ret e, s')" using Cons.prems [of h s] by auto
  with Cons show ?case by (simp add: outcome_simps)
qed simp

end
