(* ===== verification/Store.thy ===== *)
theory Store
  imports Mdns
begin

text \<open>
  The interface \<^verbatim>\<open>devstore.Store\<close> as a record of actions in a world \<open>'s\<close>, its contract as
  the locale \<open>device_store\<close>, the decorator \<^verbatim>\<open>AwakeStore\<close> with the proof that it keeps the
  contract, and the client \<^verbatim>\<open>StoreMdnsHandler\<close>, which adds the devices that announce themselves
  over mDNS.
\<close>

section \<open>The interface\<close>

record store_item =
  si_URI :: string
  si_Type :: string
  si_Desc :: string
  si_ID :: string
  si_CreatedAt :: string

record 's store =
  store_Add :: "string \<Rightarrow> string \<Rightarrow> string \<Rightarrow> ('s, err option) action"
  store_Remove :: "string \<Rightarrow> ('s, err option) action"
  store_GetDesc :: "('s, store_item list) action"

text \<open>
  The contract: the store is a set of URIs. Adding a known URI is refused with
  \<^const>\<open>ErrDeviceExist\<close> and only then; removing an unknown one with no data; an operation that
  fails for another reason leaves the set as it is; the descriptions have one entry per URI.
\<close>

locale device_store =
  fixes st :: "'s store" and uris :: "'s \<Rightarrow> string set" and inv :: "'s \<Rightarrow> bool"
  assumes add_known: "inv s \<Longrightarrow> u \<in> uris s \<Longrightarrow>
      store_Add st u t d s = (Ret (Some ErrDeviceExist), s)"
    and add_new: "inv s \<Longrightarrow> u \<notin> uris s \<Longrightarrow>
      \<exists>e s'. store_Add st u t d s = (Ret e, s') \<and> inv s' \<and> e \<noteq> Some ErrDeviceExist \<and>
        uris s' = (if e = None then insert u (uris s) else uris s)"
    and remove_unknown: "inv s \<Longrightarrow> u \<notin> uris s \<Longrightarrow>
      store_Remove st u s = (Ret (Some (Status StatusNoData)), s)"
    and remove_known: "inv s \<Longrightarrow> u \<in> uris s \<Longrightarrow>
      \<exists>e s'. store_Remove st u s = (Ret e, s') \<and> inv s' \<and>
        uris s' = (if e = None then uris s - {u} else uris s)"
    and get_desc: "inv s \<Longrightarrow>
      \<exists>items. store_GetDesc st s = (Ret items, s) \<and> distinct (map si_URI items) \<and>
        si_URI ` set items = uris s"
begin

lemma add_returns:
  "inv s \<Longrightarrow> \<exists>e s'. store_Add st u t d s = (Ret e, s') \<and> inv s' \<and>
     (e = Some ErrDeviceExist \<longleftrightarrow> u \<in> uris s) \<and>
     uris s' = (if e = None then insert u (uris s) else uris s)"
  using add_known [of s u t d] add_new [of s u t d] by (cases "u \<in> uris s") auto

lemma remove_returns:
  "inv s \<Longrightarrow> \<exists>e s'. store_Remove st u s = (Ret e, s') \<and> inv s' \<and>
     (e = None \<longrightarrow> u \<in> uris s) \<and> uris s' = (if e = None then uris s - {u} else uris s)"
  using remove_known [of s u] remove_unknown [of s u] by (cases "u \<in> uris s") auto

lemma add_twice:
  assumes "inv s" and "store_Add st u t d s = (Ret None, s')"
  shows "store_Add st u t' d' s' = (Ret (Some ErrDeviceExist), s')"
  using add_returns [OF assms(1), of u t d] assms(2) add_known by auto

lemma remove_added:
  assumes "inv s" and "store_Add st u t d s = (Ret None, s')"
    and "store_Remove st u s' = (Ret None, s'')"
  shows "uris s'' = uris s"
proof -
  have s': "inv s'" "uris s' = insert u (uris s)" "u \<notin> uris s"
    using add_returns [OF assms(1), of u t d] assms(2) by auto
  then show ?thesis using remove_returns [OF s'(1), of u] assms(3) by auto
qed

end

section \<open>Sequences of operations\<close>

datatype store_op = AddOp string string string | RemoveOp string

fun run_op :: "'s store \<Rightarrow> store_op \<Rightarrow> ('s, err option) action" where
  "run_op st (AddOp u t d) = store_Add st u t d"
| "run_op st (RemoveOp u) = store_Remove st u"

fun run_ops :: "'s store \<Rightarrow> store_op list \<Rightarrow> ('s, err option list) action" where
  "run_ops st [] s = (Ret [], s)"
| "run_ops st (op # ops) s =
     and_then (run_op st op) (\<lambda>e. and_then (run_ops st ops) (\<lambda>es s. (Ret (e # es), s))) s"

text \<open>
  The set of URIs an operation with this result leaves, and the results that are possible in a
  set: a failure that is no refusal is the database's or the URI's.
\<close>

fun op_set :: "store_op \<Rightarrow> err option \<Rightarrow> string set \<Rightarrow> string set" where
  "op_set (AddOp u t d) e A = (if e = None then insert u A else A)"
| "op_set (RemoveOp u) e A = (if e = None then A - {u} else A)"

fun op_allowed :: "store_op \<Rightarrow> err option \<Rightarrow> string set \<Rightarrow> bool" where
  "op_allowed (AddOp u t d) e A = (e = Some ErrDeviceExist \<longleftrightarrow> u \<in> A)"
| "op_allowed (RemoveOp u) e A = (u \<notin> A \<longrightarrow> e = Some (Status StatusNoData))"

fun ops_set :: "store_op list \<Rightarrow> err option list \<Rightarrow> string set \<Rightarrow> string set" where
  "ops_set (op # ops) (e # es) A = ops_set ops es (op_set op e A)"
| "ops_set _ _ A = A"

fun ops_allowed :: "store_op list \<Rightarrow> err option list \<Rightarrow> string set \<Rightarrow> bool" where
  "ops_allowed (op # ops) (e # es) A =
     (op_allowed op e A \<and> ops_allowed ops es (op_set op e A))"
| "ops_allowed [] [] A = True"
| "ops_allowed _ _ A = False"

context device_store
begin

lemma run_op_spec:
  "inv s \<Longrightarrow> \<exists>e s'. run_op st op s = (Ret e, s') \<and> inv s' \<and> op_allowed op e (uris s) \<and>
     uris s' = op_set op e (uris s)"
proof (cases op)
  case (AddOp u t d)
  assume "inv s"
  from add_returns [OF this, of u t d] AddOp show ?thesis by auto
next
  case (RemoveOp u)
  assume inv: "inv s"
  from remove_returns [OF inv, of u] remove_unknown [OF inv, of u] RemoveOp show ?thesis by auto
qed

lemma run_ops_spec:
  "inv s \<Longrightarrow> \<exists>es s'. run_ops st ops s = (Ret es, s') \<and> inv s' \<and> ops_allowed ops es (uris s) \<and>
     uris s' = ops_set ops es (uris s)"
proof (induction ops arbitrary: s)
  case (Cons op ops)
  obtain e s1 where 1: "run_op st op s = (Ret e, s1)" "inv s1" "op_allowed op e (uris s)"
    "uris s1 = op_set op e (uris s)"
    using run_op_spec [OF Cons.prems] by blast
  obtain es s2 where "run_ops st ops s1 = (Ret es, s2)" "inv s2" "ops_allowed ops es (uris s1)"
    "uris s2 = ops_set ops es (uris s1)"
    using Cons.IH [OF 1(2)] by blast
  with 1 show ?case by (auto simp: outcome_simps)
qed simp

end

section \<open>AwakeStore\<close>

text \<open>
  The awakener (the runner of the mDNS browser) is told about every device that was added:
  \<open>awake\<close> is its call in the world.
\<close>

definition awake_store_add :: "('s, unit) action \<Rightarrow> 's store \<Rightarrow> string \<Rightarrow> string \<Rightarrow> string
    \<Rightarrow> ('s, err option) action" where
  "awake_store_add awake st uri typ desc =
     and_then (store_Add st uri typ desc) (\<lambda>e.
       if e = None then and_then awake (\<lambda>_ s. (Ret e, s)) else (\<lambda>s. (Ret e, s)))"

definition awake_store :: "('s, unit) action \<Rightarrow> 's store \<Rightarrow> 's store" where
  "awake_store awake st =
     \<lparr>store_Add = awake_store_add awake st, store_Remove = store_Remove st,
      store_GetDesc = store_GetDesc st\<rparr>"

text \<open>An awakener that returns and leaves the store alone: the decorated store is a store.\<close>

locale awakened_store = device_store +
  fixes awake :: "('a, unit) action"
  assumes awake_returns: "inv s \<Longrightarrow> \<exists>s'. awake s = (Ret (), s') \<and> inv s' \<and> uris s' = uris s"
begin

lemma awake_add:
  assumes "inv s"
  shows "\<exists>e s'. store_Add (awake_store awake st) u t d s = (Ret e, s') \<and> inv s' \<and>
     (e = Some ErrDeviceExist \<longleftrightarrow> u \<in> uris s) \<and>
     uris s' = (if e = None then insert u (uris s) else uris s)"
proof -
  obtain e s1 where a: "store_Add st u t d s = (Ret e, s1)" "inv s1"
    "e = Some ErrDeviceExist \<longleftrightarrow> u \<in> uris s"
    "uris s1 = (if e = None then insert u (uris s) else uris s)"
    using add_returns [OF assms, of u t d] by blast
  obtain s2 where "awake s1 = (Ret (), s2)" "inv s2" "uris s2 = uris s1"
    using awake_returns [OF a(2)] by blast
  with a show ?thesis by (cases e) (auto simp: awake_store_def awake_store_add_def outcome_simps)
qed

end

sublocale awakened_store \<subseteq> awake: device_store "awake_store awake st" uris inv
proof
  fix s u t d
  show "inv s \<Longrightarrow> u \<in> uris s \<Longrightarrow>
      store_Add (awake_store awake st) u t d s = (Ret (Some ErrDeviceExist), s)"
    by (simp add: awake_store_def awake_store_add_def outcome_simps add_known)
  show "inv s \<Longrightarrow> u \<notin> uris s \<Longrightarrow>
      \<exists>e s'. store_Add (awake_store awake st) u t d s = (Ret e, s') \<and> inv s' \<and>
        e \<noteq> Some ErrDeviceExist \<and> uris s' = (if e = None then insert u (uris s) else uris s)"
    using awake_add by blast
qed (simp_all add: awake_store_def remove_unknown remove_known get_desc)

context awakened_store
begin

lemma awake_is_store: "device_store (awake_store awake st) uris inv"
  by unfold_locales

end

section \<open>StoreMdnsHandler\<close>

text \<open>\<^verbatim>\<open>autodiscoveryMode\<close>: invalid (0) or add (1).\<close>

datatype autodiscovery_mode = ModeInvalid | ModeAdd

definition ignore_service :: "service \<Rightarrow> bool" where
  "ignore_service svc \<longleftrightarrow>
     \<not> list_ex (\<lambda>record. contains record ''autodiscovery_mode'') (svc_TxtRecords svc)"

fun parse_txt_loop :: "(string \<rightharpoonup> string) \<Rightarrow> string list \<Rightarrow> err + (string \<rightharpoonup> string)" where
  "parse_txt_loop ret [] = Inr ret"
| "parse_txt_loop ret (record # records) =
     (if \<not> contains record ''='' then parse_txt_loop ret records
      else (let tokens = split_char CHR ''='' record
            in if length tokens \<noteq> 2 then Inl (Status StatusInvalidArg)
               else if tokens ! 0 = '''' \<or> tokens ! 1 = '''' then Inl (Status StatusInvalidArg)
               else parse_txt_loop (ret(tokens ! 0 \<mapsto> tokens ! 1)) records))"

definition parse_txt_records :: "string list \<Rightarrow> err + (string \<rightharpoonup> string)" where
  "parse_txt_records records = parse_txt_loop Map.empty records"

definition parse_autodiscovery_mode :: "string \<Rightarrow> err + autodiscovery_mode" where
  "parse_autodiscovery_mode str =
     (case parse_int ''Atoi'' str of
        Inl e \<Rightarrow> Inl (Errorf (''failed to parse mdns_autodiscovery: mode='' @ str @ '' err='') (Some e))
      | Inr mode \<Rightarrow> if sint mode = 1 then Inr ModeAdd else Inl (Status StatusInvalidArg))"

definition handle_autodiscovery_add :: "'s store \<Rightarrow> string \<Rightarrow> string \<Rightarrow> string
    \<Rightarrow> ('s, err option) action" where
  "handle_autodiscovery_add st uri typ desc =
     and_then (store_Add st uri typ desc)
       (\<lambda>e s. if e \<noteq> None \<and> e \<noteq> Some ErrDeviceExist then (Ret e, s) else (Ret None, s))"

definition handle_autodiscovery :: "'s store \<Rightarrow> autodiscovery_mode \<Rightarrow> string \<Rightarrow> string \<Rightarrow> string
    \<Rightarrow> ('s, err option) action" where
  "handle_autodiscovery st mode uri typ desc =
     (case mode of
        ModeAdd \<Rightarrow> handle_autodiscovery_add st uri typ desc
      | _ \<Rightarrow> (\<lambda>s. (Panic, s)))"

definition mdns_handle_service :: "'s store \<Rightarrow> 's service_handler" where
  "mdns_handle_service st svc s =
     (if ignore_service svc then (Ret None, s)
      else (case parse_txt_records (svc_TxtRecords svc) of
         Inl e \<Rightarrow> (Ret (Some e), s)
       | Inr records \<Rightarrow>
           (case records ''autodiscovery_mode'' of
              None \<Rightarrow> (Ret None, s)
            | Some mode_str \<Rightarrow>
                (case parse_autodiscovery_mode mode_str of
                   Inl e \<Rightarrow> (Ret (Some e), s)
                 | Inr mode \<Rightarrow>
                     (case records ''autodiscovery_uri'' of
                        None \<Rightarrow> (Ret None, s)
                      | Some uri \<Rightarrow>
                          (case records ''autodiscovery_desc'' of
                             None \<Rightarrow> (Ret None, s)
                           | Some desc \<Rightarrow>
                               (case records ''autodiscovery_type'' of
                                  None \<Rightarrow> (Ret None, s)
                                | Some typ \<Rightarrow> handle_autodiscovery st mode uri typ desc s)))))))"

section \<open>What the TXT records say\<close>

text \<open>
  A record without a separator is skipped, one with a single separator and text on both sides is
  an entry, every other one is malformed. The last entry of a key counts.
\<close>

definition txt_ok :: "string \<Rightarrow> bool" where
  "txt_ok r =
     (case split_char CHR ''='' r of [k] \<Rightarrow> True | [k, v] \<Rightarrow> k \<noteq> '''' \<and> v \<noteq> '''' | _ \<Rightarrow> False)"

definition txt_entries :: "string list \<Rightarrow> (string \<times> string) list" where
  "txt_entries records =
     concat (map (\<lambda>r. case split_char CHR ''='' r of [k, v] \<Rightarrow> [(k, v)] | _ \<Rightarrow> []) records)"

lemma parse_txt_loop_spec:
  "parse_txt_loop ret records =
     (if list_all txt_ok records then Inr (ret ++ map_of (rev (txt_entries records)))
      else Inl (Status StatusInvalidArg))"
proof (induction ret records rule: parse_txt_loop.induct)
  case (2 ret r rs)
  consider (skip) "split_char CHR ''='' r = [r]" "CHR ''='' \<notin> set r"
    | (pair) k v where "split_char CHR ''='' r = [k, v]" "CHR ''='' \<in> set r"
    | (bad) a b c ts where "split_char CHR ''='' r = a # b # c # ts" "CHR ''='' \<in> set r"
  proof (cases "CHR ''='' \<in> set r")
    case False
    then show thesis using skip by (simp add: split_char_absent)
  next
    case True
    then obtain a b ts where "split_char CHR ''='' r = a # b # ts"
      using join_split [of "CHR ''=''" r] split_char_no_sep [of _ "CHR ''=''" r]
      by (cases "split_char CHR ''='' r"; cases "tl (split_char CHR ''='' r)") auto
    with True show thesis using pair bad by (cases ts) auto
  qed
  then show ?case
  proof cases
    case skip
    then show ?thesis using 2 by (simp add: contains_char_iff txt_ok_def txt_entries_def)
  next
    case pair
    then have "txt_ok r \<longleftrightarrow> k \<noteq> '''' \<and> v \<noteq> ''''" "txt_entries (r # rs) = (k, v) # txt_entries rs"
      by (simp_all add: txt_ok_def txt_entries_def)
    then show ?thesis using 2 pair
      by (cases "k = '''' \<or> v = ''''") (auto simp: contains_char_iff Let_def simp del: fun_upd_apply)
  next
    case bad
    then show ?thesis by (simp add: contains_char_iff txt_ok_def)
  qed
qed (simp add: txt_entries_def)

text \<open>What a service announces, when all its records are well formed and name a device to add.\<close>

definition announces :: "service \<Rightarrow> (string \<times> string \<times> string) option" where
  "announces svc =
     (let m = map_of (rev (txt_entries (svc_TxtRecords svc)))
      in if \<not> list_all txt_ok (svc_TxtRecords svc) then None
         else (case (m ''autodiscovery_mode'', m ''autodiscovery_uri'', m ''autodiscovery_desc'',
                     m ''autodiscovery_type'') of
                 (Some mode, Some uri, Some desc, Some typ) \<Rightarrow>
                   (case parse_int ''Atoi'' mode of
                      Inr n \<Rightarrow> if sint n = 1 then Some (uri, typ, desc) else None
                    | Inl _ \<Rightarrow> None)
               | _ \<Rightarrow> None))"

lemma entry_in_record:
  assumes "map_of (rev (txt_entries records)) k = Some v"
  shows "\<exists>r \<in> set records. r = k @ ''='' @ v"
proof -
  have "(k, v) \<in> set (txt_entries records)" using map_of_SomeD [OF assms] by simp
  then obtain r where "r \<in> set records" "split_char CHR ''='' r = [k, v]"
    by (auto simp: txt_entries_def split: list.splits)
  then show ?thesis by (auto simp: split_char_two_iff)
qed

lemma mode_not_ignored:
  assumes "map_of (rev (txt_entries (svc_TxtRecords svc))) ''autodiscovery_mode'' = Some v"
  shows "\<not> ignore_service svc"
proof -
  obtain r where "r \<in> set (svc_TxtRecords svc)" "r = [] @ ''autodiscovery_mode'' @ (''='' @ v)"
    using entry_in_record [OF assms] by auto
  then have "contains r ''autodiscovery_mode''" unfolding contains_infix by blast
  with \<open>r \<in> set _\<close> show ?thesis by (auto simp: ignore_service_def list_ex_iff)
qed

lemma mdns_handle_announced:
  assumes "announces svc = Some (uri, typ, desc)"
  shows "mdns_handle_service st svc s = handle_autodiscovery_add st uri typ desc s"
  using assms mode_not_ignored [of svc]
  by (auto simp: announces_def mdns_handle_service_def parse_txt_records_def parse_txt_loop_spec
      parse_autodiscovery_mode_def handle_autodiscovery_def Let_def
      split: if_splits option.splits sum.splits)

lemma mdns_handle_other:
  assumes "announces svc = None"
  shows "\<exists>e. mdns_handle_service st svc s = (Ret e, s)"
  using assms
  by (auto simp: announces_def mdns_handle_service_def parse_txt_records_def parse_txt_loop_spec
      parse_autodiscovery_mode_def handle_autodiscovery_def Let_def
      split: if_splits option.splits sum.splits)

section \<open>Discovery into a store\<close>

context device_store
begin

lemma mdns_returns:
  assumes "inv s"
  shows "\<exists>e s'. mdns_handle_service st svc s = (Ret e, s') \<and> inv s' \<and> uris s \<subseteq> uris s' \<and>
     (\<forall>u t d. announces svc = Some (u, t, d) \<longrightarrow>
        uris s' \<subseteq> insert u (uris s) \<and> (e = None \<longleftrightarrow> u \<in> uris s')) \<and>
     (announces svc = None \<longrightarrow> s' = s)"
proof (cases "announces svc")
  case None
  then show ?thesis using mdns_handle_other [OF None, of st s] assms by auto
next
  case (Some a)
  obtain u t d where a: "a = (u, t, d)" by (cases a)
  obtain e s' where "store_Add st u t d s = (Ret e, s')" "inv s'"
    "e = Some ErrDeviceExist \<longleftrightarrow> u \<in> uris s"
    "uris s' = (if e = None then insert u (uris s) else uris s)"
    using add_returns [OF assms, of u t d] by blast
  then show ?thesis using Some a
    by (auto simp: mdns_handle_announced handle_autodiscovery_add_def outcome_simps)
qed

lemma mdns_again:
  assumes "inv s" and "announces svc = Some (u, t, d)"
    and "mdns_handle_service st svc s = (Ret None, s')"
    and "announces svc' = Some (u, t', d')"
  shows "mdns_handle_service st svc' s' = (Ret None, s')"
proof -
  have "inv s'" "u \<in> uris s'"
    using mdns_returns [OF assms(1), of svc] assms(2,3) by auto
  then show ?thesis using assms(4)
    by (simp add: mdns_handle_announced handle_autodiscovery_add_def outcome_simps add_known)
qed

end

end
