(* ===== verification/Sched.thy ===== *)
theory Sched
  imports Prelude
begin

text \<open>
  The package \<^verbatim>\<open>components/system/syssched\<close>: fan-out starting and stopping, the task wrappers
  (\<^verbatim>\<open>CrashTask\<close>, \<^verbatim>\<open>TaskAliveNotifier\<close>) and the step of \<^verbatim>\<open>AsyncTaskRunner\<close>, as actions
  over a world \<open>'s\<close>; and the goroutines of a runner with its channels, as a step relation.
  A task, a starter and a stopper are actions that return an error or \<^verbatim>\<open>nil\<close>.
\<close>

type_synonym 's task = "('s, err option) action"

section \<open>Fan-out\<close>

text \<open>\<^verbatim>\<open>FanoutStarter.Start\<close>: in order of registration, up to the first error.\<close>

fun fanout_start :: "'s task list \<Rightarrow> 's task" where
  "fanout_start [] s = (Ret None, s)"
| "fanout_start (starter # starters) s =
     and_then starter (\<lambda>e s. case e of Some e \<Rightarrow> (Ret (Some e), s)
                                     | None \<Rightarrow> fanout_start starters s) s"

text \<open>\<^verbatim>\<open>FanoutStopper.Stop\<close>: every node, errors are logged only.\<close>

fun fanout_stop :: "(string \<times> 's task) list \<Rightarrow> 's task" where
  "fanout_stop [] s = (Ret None, s)"
| "fanout_stop ((_, stopper) # nodes) s = and_then stopper (\<lambda>_. fanout_stop nodes) s"

text \<open>\<^verbatim>\<open>Add\<close> of both: append at the end.\<close>

definition fanout_add_starter :: "'s task list \<Rightarrow> 's task \<Rightarrow> 's task list" where
  "fanout_add_starter starters starter = starters @ [starter]"

definition fanout_add_stopper ::
    "(string \<times> 's task) list \<Rightarrow> string \<Rightarrow> 's task \<Rightarrow> (string \<times> 's task) list" where
  "fanout_add_stopper nodes i stopper = nodes @ [(i, stopper)]"

section \<open>Task wrappers\<close>

text \<open>
  \<^verbatim>\<open>CrashTask.Run\<close>: the deferred function recovers a panic, and \<^verbatim>\<open>Run\<close> then returns the zero
  value of its unnamed result, which is \<^verbatim>\<open>nil\<close>.
\<close>

definition crash_task_run :: "'s task \<Rightarrow> 's task" where
  "crash_task_run task s =
     (case task s of (Panic, s') \<Rightarrow> (Ret None, s') | r \<Rightarrow> r)"

definition task_alive_notifier_run :: "'s task \<Rightarrow> ('s, unit) action \<Rightarrow> 's task" where
  "task_alive_notifier_run task notify_alive =
     and_then task (\<lambda>e. case e of
        Some e \<Rightarrow> (\<lambda>s. (Ret (Some e), s))
      | None \<Rightarrow> and_then notify_alive (\<lambda>_ s. (Ret None, s)))"

section \<open>The runner\<close>

record runner_params =
  UpdateInterval :: i64
  ExitOnSuccess :: bool
  DisableRecoverOnPanic :: bool

text \<open>The task the constructor keeps.\<close>

definition runner_task :: "runner_params \<Rightarrow> 's task \<Rightarrow> 's task" where
  "runner_task params task = (if DisableRecoverOnPanic params then task else crash_task_run task)"

text \<open>
  \<^verbatim>\<open>runTask\<close>: the task once, its error to the handler, if there is one; the result tells the
  loop to end.
\<close>

definition run_task ::
    "runner_params \<Rightarrow> 's task \<Rightarrow> (err \<Rightarrow> ('s, unit) action) option \<Rightarrow> ('s, bool) action" where
  "run_task params task handler =
     and_then task (\<lambda>e. case e of
        Some e \<Rightarrow>
          (case handler of
             Some h \<Rightarrow> and_then (h e) (\<lambda>_ s. (Ret False, s))
           | None \<Rightarrow> (\<lambda>s. (Ret False, s)))
      | None \<Rightarrow> (\<lambda>s. (Ret (ExitOnSuccess params), s)))"

text \<open>
  A goroutine of \<^verbatim>\<open>run()\<close>: before its first task run, in the \<^verbatim>\<open>select\<close>, on its way out with
  \<^verbatim>\<open>close(doneCh)\<close> still to come, or gone. \<^verbatim>\<open>Start\<close> makes a new one each time it is called.
  The awake channel holds one token; the closed \<^verbatim>\<open>doneCh\<close> is what \<^verbatim>\<open>Stop\<close> waits for; a second
  \<^verbatim>\<open>close\<close> panics outside of any \<^verbatim>\<open>recover\<close> and ends the process (\<open>rn_crashed\<close>), and so does a
  panic that the task was told not to recover from.
\<close>

datatype goroutine = Starting | Selecting | Closing | Gone

record 's runner =
  rn_gs :: "goroutine list"
  rn_awake :: bool
  rn_done :: bool
  rn_ctx_done :: bool
  rn_crashed :: bool
  rn_world :: 's

definition new_runner :: "'s \<Rightarrow> 's runner" where
  "new_runner w =
     \<lparr>rn_gs = [], rn_awake = False, rn_done = False, rn_ctx_done = False, rn_crashed = False,
      rn_world = w\<rparr>"

definition runner_start :: "'s runner \<Rightarrow> 's runner" where
  "runner_start r = r\<lparr>rn_gs := rn_gs r @ [Starting]\<rparr>"

text \<open>\<^verbatim>\<open>Awake\<close>: a send that is dropped when the token is already there.\<close>

definition runner_awake :: "'s runner \<Rightarrow> 's runner" where
  "runner_awake r = r\<lparr>rn_awake := True\<rparr>"

text \<open>Whether \<^verbatim>\<open>Stop\<close> returns in this state or still waits.\<close>

definition runner_stop_returns :: "'s runner \<Rightarrow> bool" where
  "runner_stop_returns r = rn_done r"

text \<open>What goroutine \<open>i\<close> does with the outcome of \<^verbatim>\<open>runTask\<close>.\<close>

definition after_task :: "nat \<Rightarrow> bool outcome \<times> 's \<Rightarrow> 's runner \<Rightarrow> 's runner option" where
  "after_task i out r =
     (case out of
        (Ret b, w) \<Rightarrow> Some (r\<lparr>rn_gs := (rn_gs r)[i := if b then Closing else Selecting],
                            rn_world := w\<rparr>)
      | (Panic, w) \<Rightarrow> Some (r\<lparr>rn_crashed := True, rn_world := w\<rparr>)
      | (Hang, w) \<Rightarrow> None)"

datatype label = Start | Awake | Cancel | Tick nat | First nat | Woken nat | Ctx nat | Close nat

text \<open>
  The steps, for the \<^verbatim>\<open>runTask\<close> of this runner. \<^verbatim>\<open>time.NewTicker\<close> panics on an interval
  that is not positive, before the first task run.
\<close>

fun runner_step :: "runner_params \<Rightarrow> ('s, bool) action \<Rightarrow> label \<Rightarrow> 's runner \<Rightarrow> 's runner option" where
  "runner_step params run Start r = Some (runner_start r)"
| "runner_step params run Awake r = Some (runner_awake r)"
| "runner_step params run Cancel r = Some (r\<lparr>rn_ctx_done := True\<rparr>)"
| "runner_step params run (First i) r =
     (if i < length (rn_gs r) \<and> rn_gs r ! i = Starting
      then if sint (UpdateInterval params) \<le> 0 then Some (r\<lparr>rn_crashed := True\<rparr>)
           else after_task i (run (rn_world r)) r
      else None)"
| "runner_step params run (Tick i) r =
     (if i < length (rn_gs r) \<and> rn_gs r ! i = Selecting
      then after_task i (run (rn_world r)) r else None)"
| "runner_step params run (Woken i) r =
     (if i < length (rn_gs r) \<and> rn_gs r ! i = Selecting \<and> rn_awake r
      then after_task i (run (rn_world r)) (r\<lparr>rn_awake := False\<rparr>) else None)"
| "runner_step params run (Ctx i) r =
     (if i < length (rn_gs r) \<and> rn_gs r ! i = Selecting \<and> rn_ctx_done r
      then Some (r\<lparr>rn_gs := (rn_gs r)[i := Closing]\<rparr>) else None)"
| "runner_step params run (Close i) r =
     (if i < length (rn_gs r) \<and> rn_gs r ! i = Closing
      then Some (if rn_done r then r\<lparr>rn_crashed := True\<rparr>
                 else r\<lparr>rn_gs := (rn_gs r)[i := Gone], rn_done := True\<rparr>)
      else None)"

text \<open>Executions: a crashed process makes no step.\<close>

inductive runner_steps ::
    "runner_params \<Rightarrow> ('s, bool) action \<Rightarrow> 's runner \<Rightarrow> label list \<Rightarrow> 's runner \<Rightarrow> bool"
  for params run where
  steps_none: "runner_steps params run r [] r"
| steps_snoc: "runner_steps params run r ls r1 \<Longrightarrow> \<not> rn_crashed r1 \<Longrightarrow> runner_step params run l r1 = Some r2 \<Longrightarrow>
    runner_steps params run r (ls @ [l]) r2"

inductive_cases runner_steps_snocE: "runner_steps params run r (ls @ [l]) r'"

text \<open>The same executions as a function of the labels, to compute with.\<close>

fun exec_labels ::
    "runner_params \<Rightarrow> ('s, bool) action \<Rightarrow> label list \<Rightarrow> 's runner \<Rightarrow> 's runner option" where
  "exec_labels params run [] r = Some r"
| "exec_labels params run (l # ls) r =
     (if rn_crashed r then None
      else Option.bind (runner_step params run l r) (exec_labels params run ls))"

section \<open>Facts\<close>

lemma crash_task_run_no_panic: "fst (crash_task_run task s) \<noteq> Panic"
  by (auto simp: crash_task_run_def split: prod.splits outcome.splits)

lemma fanout_stop_runs_all:
  assumes "\<And>n f s. (n, f) \<in> set nodes \<Longrightarrow> \<exists>e s'. f s = (Ret e, s')"
  shows "fanout_stop nodes s = (Ret None, fold (\<lambda>(_, f) s. snd (f s)) nodes s)"
  using assms
proof (induction nodes arbitrary: s)
  case (Cons node nodes)
  obtain n f where node: "node = (n, f)" by (cases node)
  obtain e s' where "f s = (Ret e, s')" using Cons.prems [of n f s] node by auto
  moreover have "fanout_stop nodes s' = (Ret None, fold (\<lambda>(_, f) s. snd (f s)) nodes s')"
    by (intro Cons.IH Cons.prems list.set_intros(2))
  ultimately show ?case by (simp add: node outcome_simps)
qed simp

lemma fanout_start_append:
  assumes "\<And>f s. f \<in> set fs \<Longrightarrow> \<exists>s'. f s = (Ret None, s')"
  shows "fanout_start (fs @ gs) s = fanout_start gs (fold (\<lambda>f s. snd (f s)) fs s)"
  using assms
proof (induction fs arbitrary: s)
  case (Cons f fs)
  obtain s' where "f s = (Ret None, s')" using Cons.prems [of f s] by auto
  with Cons show ?case by (simp add: outcome_simps)
qed simp

lemma after_task_gs:
  "after_task i out r = Some r' \<Longrightarrow> length (rn_gs r') = length (rn_gs r)"
  by (auto simp: after_task_def split: prod.splits outcome.splits)

lemma runner_step_length:
  "runner_step params run l r = Some r' \<Longrightarrow>
   length (rn_gs r') = length (rn_gs r) + (if l = Start then 1 else 0)"
  by (cases l) (auto simp: runner_start_def runner_awake_def dest!: after_task_gs split: if_splits)

lemma runner_steps_length:
  "runner_steps params run r ls r' \<Longrightarrow>
   length (rn_gs r') = length (rn_gs r) + count_list ls Start"
  by (induction rule: runner_steps.induct) (auto dest: runner_step_length)

text \<open>The invariant of a runner that is started once.\<close>

definition runner_inv :: "'s runner \<Rightarrow> bool" where
  "runner_inv r \<longleftrightarrow>
     length (rn_gs r) \<le> 1 \<and> \<not> rn_crashed r \<and> (rn_done r \<longleftrightarrow> rn_gs r = [Gone])"

lemma runner_inv_new: "runner_inv (new_runner w)"
  by (simp add: runner_inv_def new_runner_def)

lemma single_goroutine:
  assumes "runner_inv r" "i < length (rn_gs r)"
  obtains g where "rn_gs r = [g]" "i = 0"
  using assms by (cases "rn_gs r") (auto simp: runner_inv_def)

lemma runner_inv_after_task:
  assumes "runner_inv r" "i < length (rn_gs r)" "rn_gs r ! i \<noteq> Gone" "fst out \<noteq> Panic"
    "after_task i out r = Some r'"
  shows "runner_inv r'"
proof -
  obtain g where g: "rn_gs r = [g]" "i = 0"
    using assms(1,2) by (rule single_goroutine)
  with assms show ?thesis
    by (auto simp: runner_inv_def after_task_def split: prod.splits outcome.splits if_splits)
qed

lemma runner_step_inv:
  assumes step: "runner_step params run l r = Some r'" and inv: "runner_inv r"
    and once: "l = Start \<Longrightarrow> rn_gs r = []"
    and pos: "0 < sint (UpdateInterval params)" and safe: "\<And>w. fst (run w) \<noteq> Panic"
  shows "runner_inv r'"
proof (cases l)
  case (First i)
  with step pos have "i < length (rn_gs r)" "rn_gs r ! i \<noteq> Gone"
    "after_task i (run (rn_world r)) r = Some r'" by (auto split: if_splits)
  then show ?thesis using runner_inv_after_task inv safe by blast
next
  case (Tick i)
  with step have "i < length (rn_gs r)" "rn_gs r ! i \<noteq> Gone"
    "after_task i (run (rn_world r)) r = Some r'" by (auto split: if_splits)
  then show ?thesis using runner_inv_after_task inv safe by blast
next
  case (Woken i)
  let ?r = "r\<lparr>rn_awake := False\<rparr>"
  have "runner_inv ?r" using inv by (simp add: runner_inv_def)
  moreover from Woken step have "i < length (rn_gs ?r)" "rn_gs ?r ! i \<noteq> Gone"
    "after_task i (run (rn_world ?r)) ?r = Some r'" by (auto split: if_splits)
  ultimately show ?thesis using runner_inv_after_task safe by blast
next
  case (Ctx i)
  with step have "i < length (rn_gs r)" by (simp split: if_splits)
  with inv obtain g where "rn_gs r = [g]" "i = 0"
    by (rule single_goroutine)
  with Ctx step inv show ?thesis by (auto simp: runner_inv_def split: if_splits)
next
  case (Close i)
  with step have "i < length (rn_gs r)" by (simp split: if_splits)
  with inv obtain g where "rn_gs r = [g]" "i = 0"
    by (rule single_goroutine)
  with Close step inv show ?thesis by (auto simp: runner_inv_def split: if_splits)
qed (use step inv once in \<open>auto simp: runner_inv_def runner_start_def runner_awake_def\<close>)

lemma runner_steps_inv:
  assumes "runner_steps params run r ls r'" and "r = new_runner w" and "count_list ls Start \<le> 1"
    and "0 < sint (UpdateInterval params)" and "\<And>w. fst (run w) \<noteq> Panic"
  shows "runner_inv r'"
  using assms
proof (induction rule: runner_steps.induct)
  case (steps_none r)
  then show ?case by (simp add: runner_inv_new)
next
  case (steps_snoc r ls r1 l r2)
  have "length (rn_gs r1) = count_list ls Start"
    using runner_steps_length [OF steps_snoc.hyps(1)] steps_snoc.prems(1) by (simp add: new_runner_def)
  then have "l = Start \<Longrightarrow> rn_gs r1 = []" using steps_snoc.prems(2) by simp
  moreover have "runner_inv r1" using steps_snoc by (simp split: if_splits)
  ultimately show ?case using runner_step_inv [OF steps_snoc.hyps(3)] steps_snoc.prems(3,4) by blast
qed

lemma runner_steps_one:
  "\<not> rn_crashed r \<Longrightarrow> runner_step params run l r = Some r' \<Longrightarrow> runner_steps params run r [l] r'"
  using runner_steps.steps_snoc [OF runner_steps.steps_none] by fastforce

lemma runner_steps_trans:
  "runner_steps params run r1 ls' r2 \<Longrightarrow> runner_steps params run r ls r1 \<Longrightarrow>
   runner_steps params run r (ls @ ls') r2"
proof (induction rule: runner_steps.induct)
  case (steps_snoc r ls' r1 l r2)
  then show ?case using runner_steps.steps_snoc [of params run _ "ls @ ls'"] by simp
qed simp

lemma exec_labels_steps:
  "exec_labels params run ls r = Some r' \<Longrightarrow> runner_steps params run r ls r'"
proof (induction ls arbitrary: r)
  case Nil
  then show ?case by (auto intro: runner_steps.steps_none)
next
  case (Cons l ls)
  then obtain r1 where "\<not> rn_crashed r" "runner_step params run l r = Some r1"
    "exec_labels params run ls r1 = Some r'"
    by (auto simp: bind_eq_Some_conv split: if_splits)
  with Cons.IH runner_steps_trans [OF _ runner_steps_one, of params run r1 ls r' r l]
  show ?case by simp
qed

text \<open>How few steps a cancelled goroutine is away from closing the channel.\<close>

lemma closing_closes:
  assumes "rn_gs r = [Closing]" "runner_inv r"
  shows "\<exists>r'. runner_steps params run r [Close 0] r' \<and> rn_done r'"
  using assms by (intro exI [of _ "r\<lparr>rn_gs := [Gone], rn_done := True\<rparr>"] conjI runner_steps_one)
    (auto simp: runner_inv_def)

lemma selecting_closes:
  assumes "rn_gs r = [Selecting]" "runner_inv r" "rn_ctx_done r"
  shows "\<exists>r'. runner_steps params run r [Ctx 0, Close 0] r' \<and> rn_done r'"
proof -
  let ?r1 = "r\<lparr>rn_gs := [Closing]\<rparr>"
  have "runner_steps params run r [Ctx 0] ?r1"
    using assms by (intro runner_steps_one) (auto simp: runner_inv_def)
  moreover have "runner_inv ?r1" using assms by (simp add: runner_inv_def)
  ultimately show ?thesis
    using closing_closes [of ?r1 params run] runner_steps_trans [of params run ?r1 "[Close 0]"]
    by fastforce
qed

lemma starting_closes:
  assumes "rn_gs r = [Starting]" "runner_inv r" "rn_ctx_done r"
    and pos: "0 < sint (UpdateInterval params)" and run: "\<And>w. \<exists>b w'. run w = (Ret b, w')"
  shows "\<exists>ls r'. length ls \<le> 3 \<and> runner_steps params run r ls r' \<and> rn_done r'"
proof -
  obtain b w' where w: "run (rn_world r) = (Ret b, w')" using run by blast
  let ?r1 = "r\<lparr>rn_gs := [if b then Closing else Selecting], rn_world := w'\<rparr>"
  have step: "runner_steps params run r [First 0] ?r1"
    using assms w by (intro runner_steps_one) (auto simp: runner_inv_def after_task_def)
  have inv: "runner_inv ?r1" using assms by (simp add: runner_inv_def)
  show ?thesis
  proof (cases b)
    case True
    with inv obtain r' where "runner_steps params run ?r1 [Close 0] r'" "rn_done r'"
      using closing_closes [of ?r1 params run] by auto
    then show ?thesis using runner_steps_trans [OF _ step] by (intro exI [of _ "[First 0, Close 0]"]) auto
  next
    case False
    with inv assms obtain r' where "runner_steps params run ?r1 [Ctx 0, Close 0] r'" "rn_done r'"
      using selecting_closes [of ?r1 params run] by auto
    then show ?thesis using runner_steps_trans [OF _ step]
      by (intro exI [of _ "[First 0, Ctx 0, Close 0]"]) auto
  qed
qed

section \<open>Runners that are started more than once\<close>

text \<open>At most one goroutine has closed the channel, unless the process has crashed.\<close>

definition gone_once :: "'s runner \<Rightarrow> bool" where
  "gone_once r \<longleftrightarrow>
     (\<forall>i j. i < length (rn_gs r) \<longrightarrow> j < length (rn_gs r) \<longrightarrow> rn_gs r ! i = Gone \<longrightarrow> rn_gs r ! j = Gone \<longrightarrow> i = j) \<and>
     (rn_done r \<longleftrightarrow> (\<exists>i < length (rn_gs r). rn_gs r ! i = Gone))"

lemma gone_once_new: "gone_once (new_runner w)"
  by (simp add: gone_once_def new_runner_def)

lemma gone_once_update:
  assumes "gone_once r" and "i < length (rn_gs r)" and "rn_gs r ! i \<noteq> Gone" and "g \<noteq> Gone"
    and "rn_gs r' = (rn_gs r)[i := g]" and "rn_done r' = rn_done r"
  shows "gone_once r'"
  using assms by (fastforce simp: gone_once_def nth_list_update)

lemma gone_once_close:
  assumes "gone_once r" and "i < length (rn_gs r)" and "rn_gs r ! i \<noteq> Gone" and "\<not> rn_done r"
  shows "gone_once (r\<lparr>rn_gs := (rn_gs r)[i := Gone], rn_done := True\<rparr>)"
  using assms by (auto simp: gone_once_def nth_list_update)

lemma gone_once_start: "gone_once r \<Longrightarrow> gone_once (runner_start r)"
  by (fastforce simp: gone_once_def runner_start_def nth_append less_Suc_eq)

lemma gone_once_task:
  assumes "gone_once r" and "i < length (rn_gs r)" and "rn_gs r ! i \<noteq> Gone"
    and "after_task i out r = Some r'"
  shows "rn_crashed r' \<or> gone_once r'"
proof (cases "fst out")
  case (Ret b)
  with assms(4) have "rn_gs r' = (rn_gs r)[i := if b then Closing else Selecting]" "rn_done r' = rn_done r"
    by (auto simp: after_task_def split: prod.splits)
  with gone_once_update [OF assms(1-3), of "if b then Closing else Selecting" r'] show ?thesis by simp
qed (use assms(4) in \<open>auto simp: after_task_def split: prod.splits\<close>)

lemma gone_once_step:
  assumes "gone_once r" and "runner_step params run l r = Some r'"
  shows "rn_crashed r' \<or> gone_once r'"
proof (cases l)
  case (First i)
  with assms show ?thesis using gone_once_task [of r i] by (auto split: if_splits)
next
  case (Tick i)
  with assms show ?thesis using gone_once_task [of r i] by (auto split: if_splits)
next
  case (Woken i)
  have "gone_once (r\<lparr>rn_awake := False\<rparr>)" using assms(1) by (simp add: gone_once_def)
  with Woken assms(2) show ?thesis using gone_once_task [of "r\<lparr>rn_awake := False\<rparr>" i] by (auto split: if_splits)
next
  case (Ctx i)
  with assms show ?thesis using gone_once_update [of r i Closing r'] by (auto split: if_splits)
next
  case (Close i)
  with assms show ?thesis using gone_once_close [of r i] by (auto split: if_splits)
qed (use assms gone_once_start in \<open>auto simp: gone_once_def runner_awake_def\<close>)

lemma gone_once_steps:
  "runner_steps params run r ls r' \<Longrightarrow> gone_once r \<Longrightarrow> rn_crashed r' \<or> gone_once r'"
  by (induction rule: runner_steps.induct) (auto dest: gone_once_step)

text \<open>A goroutine that is not gone is at most two steps from its \<^verbatim>\<open>close\<close> once it is cancelled.\<close>

lemma goroutine_closing:
  assumes i: "i < length (rn_gs r)" "rn_gs r ! i \<noteq> Gone" and r: "\<not> rn_crashed r" "rn_ctx_done r"
    and pos: "0 < sint (UpdateInterval params)" and run: "\<forall>w. \<exists>b w'. run w = (Ret b, w')"
  shows "\<exists>ls w. length ls \<le> 2 \<and>
     runner_steps params run r ls (r\<lparr>rn_gs := (rn_gs r)[i := Closing], rn_world := w\<rparr>)"
proof -
  have ctx: "runner_steps params run q [Ctx i] (q\<lparr>rn_gs := (rn_gs q)[i := Closing]\<rparr>)"
    if "i < length (rn_gs q)" "rn_gs q ! i = Selecting" "\<not> rn_crashed q" "rn_ctx_done q" for q
    using that by (intro runner_steps_one) simp_all
  show ?thesis
  proof (cases "rn_gs r ! i")
    case Starting
    obtain b w' where w: "run (rn_world r) = (Ret b, w')" using run by blast
    let ?q = "r\<lparr>rn_gs := (rn_gs r)[i := if b then Closing else Selecting], rn_world := w'\<rparr>"
    have first: "runner_steps params run r [First i] ?q"
      using Starting i r pos w by (intro runner_steps_one) (simp_all add: after_task_def)
    show ?thesis
    proof (cases b)
      case True
      with first show ?thesis by (intro exI [of _ "[First i]"] exI [of _ w']) simp
    next
      case False
      have "runner_steps params run ?q [Ctx i] (?q\<lparr>rn_gs := (rn_gs ?q)[i := Closing]\<rparr>)"
        using i r False by (intro ctx) simp_all
      moreover have "?q\<lparr>rn_gs := (rn_gs ?q)[i := Closing]\<rparr> = r\<lparr>rn_gs := (rn_gs r)[i := Closing], rn_world := w'\<rparr>"
        by simp
      ultimately have "runner_steps params run ?q [Ctx i] (r\<lparr>rn_gs := (rn_gs r)[i := Closing], rn_world := w'\<rparr>)"
        by (simp only:)
      from runner_steps_trans [OF this first] show ?thesis
        by (intro exI [of _ "[First i, Ctx i]"] exI [of _ w']) simp
    qed
  next
    case Selecting
    from ctx [OF i(1) this r] show ?thesis
      by (intro exI [of _ "[Ctx i]"] exI [of _ "rn_world r"]) simp
  next
    case Closing
    then have "r\<lparr>rn_gs := (rn_gs r)[i := Closing], rn_world := rn_world r\<rparr> = r"
      by (simp add: list_update_same_conv [THEN iffD2, OF i(1)])
    then show ?thesis using steps_none [of params run r] by (intro exI [of _ "[]"] exI [of _ "rn_world r"]) simp
  qed (use i(2) in simp)
qed

text \<open>Then it closes the channel, or, when the channel is closed already, crashes the process.\<close>

lemma goroutine_closes:
  assumes "i < length (rn_gs r)" "rn_gs r ! i \<noteq> Gone" "\<not> rn_crashed r" "rn_ctx_done r"
    and "0 < sint (UpdateInterval params)" and "\<forall>w. \<exists>b w'. run w = (Ret b, w')"
  shows "\<exists>ls r'. length ls \<le> 3 \<and> runner_steps params run r ls r' \<and>
     (if rn_done r then rn_crashed r'
      else \<not> rn_crashed r' \<and> rn_done r' \<and> rn_ctx_done r' \<and> rn_gs r' = (rn_gs r)[i := Gone])"
proof -
  from goroutine_closing [OF assms] obtain ls w where ls: "length ls \<le> 2"
    "runner_steps params run r ls (r\<lparr>rn_gs := (rn_gs r)[i := Closing], rn_world := w\<rparr>)" by blast
  let ?q = "r\<lparr>rn_gs := (rn_gs r)[i := Closing], rn_world := w\<rparr>"
  let ?r' = "if rn_done r then ?q\<lparr>rn_crashed := True\<rparr> else ?q\<lparr>rn_gs := (rn_gs r)[i := Gone], rn_done := True\<rparr>"
  have "runner_steps params run ?q [Close i] ?r'"
    using assms(1,3) by (intro runner_steps_one) simp_all
  from runner_steps_trans [OF this ls(2)] ls(1) assms(3,4) show ?thesis
    by (intro exI [of _ "ls @ [Close i]"] exI [of _ ?r']) simp
qed

text \<open>
  A runner that was started more than once always has a goroutine left, and once it is cancelled
  it can always crash the process within six steps.
\<close>

lemma restarted_runner_crashes:
  assumes steps: "runner_steps params run (new_runner w) ls r" and starts: "2 \<le> count_list ls Start"
    and ctx: "rn_ctx_done r" and pos: "0 < sint (UpdateInterval params)"
    and run: "\<forall>w. \<exists>b w'. run w = (Ret b, w')"
  shows "\<exists>ls' r'. length ls' \<le> 6 \<and> runner_steps params run r ls' r' \<and> rn_crashed r'"
    and "rn_crashed r \<or> (\<exists>g \<in> set (rn_gs r). g \<noteq> Gone)"
proof -
  have len: "2 \<le> length (rn_gs r)"
    using runner_steps_length [OF steps] starts by (simp add: new_runner_def)
  have crash: "\<exists>ls' r'. length ls' \<le> 3 \<and> runner_steps params run q ls' r' \<and> rn_crashed r'"
    if "i < length (rn_gs q)" "rn_gs q ! i \<noteq> Gone" "\<not> rn_crashed q" "rn_ctx_done q" "rn_done q" for i q
    using goroutine_closes [OF that(1-4) pos run] that(5) by (simp only: if_True)
  have left: "\<exists>i < length (rn_gs r). rn_gs r ! i \<noteq> Gone" if "gone_once r"
  proof (cases "rn_gs r ! 0 = Gone")
    case True
    have "rn_gs r ! 1 \<noteq> Gone"
    proof
      assume "rn_gs r ! 1 = Gone"
      moreover have "0 < length (rn_gs r)" "1 < length (rn_gs r)" using len by linarith+
      ultimately have "(0 :: nat) = 1" using True that unfolding gone_once_def by blast
      then show False by simp
    qed
    then show ?thesis using len by (intro exI [of _ 1]) simp
  next
    case False
    have "0 < length (rn_gs r)" using len by linarith
    with False show ?thesis by blast
  qed
  have once: "rn_crashed r \<or> gone_once r" using gone_once_steps [OF steps gone_once_new] .
  show "rn_crashed r \<or> (\<exists>g \<in> set (rn_gs r). g \<noteq> Gone)"
  proof (rule disjCI)
    assume "\<not> (\<exists>g \<in> set (rn_gs r). g \<noteq> Gone)"
    then have "\<not> gone_once r" using left nth_mem by blast
    with once show "rn_crashed r" by simp
  qed
  show "\<exists>ls' r'. length ls' \<le> 6 \<and> runner_steps params run r ls' r' \<and> rn_crashed r'"
  proof (cases "rn_crashed r")
    case True
    then show ?thesis by (intro exI [of _ "[]"] exI [of _ r]) (simp add: steps_none)
  next
    case False
    with once have g: "gone_once r" by simp
    show ?thesis
    proof (cases "rn_done r")
      case True
      obtain i where "i < length (rn_gs r)" "rn_gs r ! i \<noteq> Gone" using left [OF g] by blast
      from crash [OF this False ctx True] obtain ls' r' where
        "length ls' \<le> 3" "runner_steps params run r ls' r'" "rn_crashed r'" by blast
      then show ?thesis by (intro exI [of _ ls'] exI [of _ r']) simp
    next
      case not_done: False
      then have "\<forall>i < length (rn_gs r). rn_gs r ! i \<noteq> Gone" using g unfolding gone_once_def by blast
      moreover have "0 < length (rn_gs r)" "1 < length (rn_gs r)" using len by linarith+
      ultimately have alive: "rn_gs r ! 0 \<noteq> Gone" "rn_gs r ! 1 \<noteq> Gone" by blast+
      have "0 < length (rn_gs r)" using len by linarith
      from goroutine_closes [OF this alive(1) False ctx pos run] obtain ls1 r1 where
        1: "length ls1 \<le> 3" "runner_steps params run r ls1 r1" "\<not> rn_crashed r1" "rn_done r1" "rn_ctx_done r1"
          "rn_gs r1 = (rn_gs r)[0 := Gone]" unfolding if_not_P [OF not_done] by blast
      have "1 < length (rn_gs r1)" "rn_gs r1 ! 1 \<noteq> Gone" using len alive(2) 1(6) by simp_all
      from crash [OF this 1(3,5,4)] obtain ls2 r2 where
        2: "length ls2 \<le> 3" "runner_steps params run r1 ls2 r2" "rn_crashed r2" by blast
      from runner_steps_trans [OF 2(2) 1(2)] 1(1) 2(1,3) show ?thesis
        by (intro exI [of _ "ls1 @ ls2"] exI [of _ r2]) simp
    qed
  qed
qed

text \<open>
  \<^verbatim>\<open>Stop\<close> after the context was cancelled, for a runner that was started \<open>starts\<close> times: it
  receives from the channel that a goroutine closes, and waits for ever when there is none. What a
  second goroutine does to the process is not part of this call.
\<close>

definition runner_stop :: "nat \<Rightarrow> 's task" where
  "runner_stop starts s = (if starts = 0 then (Hang, s) else (Ret None, s))"

lemma runner_steps_done_started:
  "runner_steps params run r ls r' \<Longrightarrow> rn_gs r = [] \<Longrightarrow> \<not> rn_done r \<Longrightarrow> count_list ls Start = 0 \<Longrightarrow>
   rn_gs r' = [] \<and> \<not> rn_done r'"
proof (induction rule: runner_steps.induct)
  case (steps_snoc r ls r1 l r2)
  then show ?case by (cases l) (auto simp: runner_awake_def split: if_splits)
qed simp

text \<open>The goroutines decide the same: in every reachable state that has not crashed.\<close>

lemma runner_stop_goroutines:
  assumes steps: "runner_steps params run (new_runner w) ls r" and r: "\<not> rn_crashed r" "rn_ctx_done r"
    and pos: "0 < sint (UpdateInterval params)" and run: "\<forall>w. \<exists>b w'. run w = (Ret b, w')"
  shows "(\<exists>ls' r'. count_list ls' Start = 0 \<and> runner_steps params run r ls' r' \<and> runner_stop_returns r') \<longleftrightarrow>
     fst (runner_stop (count_list ls Start) s) = Ret None"
proof (cases "count_list ls Start = 0")
  case True
  then have "rn_gs r = [] \<and> \<not> rn_done r"
    using runner_steps_done_started [OF steps] by (simp add: new_runner_def)
  with True show ?thesis
    using runner_steps_done_started [of params run r] by (auto simp: runner_stop_def runner_stop_returns_def)
next
  case False
  have len: "0 < length (rn_gs r)" using runner_steps_length [OF steps] False by (simp add: new_runner_def)
  have once: "gone_once r" using gone_once_steps [OF steps gone_once_new] r(1) by simp
  have "\<exists>ls' r'. count_list ls' Start = 0 \<and> runner_steps params run r ls' r' \<and> rn_done r'"
  proof (cases "rn_done r")
    case True
    then show ?thesis by (intro exI [of _ "[]"] exI [of _ r]) (simp add: steps_none)
  next
    case not_done: False
    then have alive: "rn_gs r ! 0 \<noteq> Gone" using once len by (auto simp: gone_once_def)
    from goroutine_closes [OF len alive r pos run] not_done obtain ls' r' where
      c: "runner_steps params run r ls' r'" "rn_done r'" "rn_gs r' = (rn_gs r)[0 := Gone]" by auto
    then have "count_list ls' Start = 0" using runner_steps_length [OF c(1)] by simp
    with c show ?thesis by blast
  qed
  with False show ?thesis by (auto simp: runner_stop_def runner_stop_returns_def)
qed

section \<open>Properties\<close>

text \<open>
  C19. A runner that is started at most once, with a positive interval and a task that does not
  panic (which \<^verbatim>\<open>CrashTask\<close> ensures), never crashes the process, and \<^verbatim>\<open>Stop\<close> returns exactly
  when its goroutine is gone: no task run is in flight and none can follow.
\<close>

theorem runner_stop_is_final:
  assumes "runner_steps params (run_task params (crash_task_run task) handler) (new_runner w) ls r"
    and "count_list ls Start \<le> 1" and "0 < sint (UpdateInterval params)"
    and "\<And>h e w. handler = Some h \<Longrightarrow> fst (h e w) \<noteq> Panic"
  shows "\<not> rn_crashed r \<and> (runner_stop_returns r \<longleftrightarrow> rn_gs r = [Gone])"
proof -
  have "fst (run_task params (crash_task_run task) handler w) \<noteq> Panic" for w
  proof (cases "crash_task_run task w")
    case (Pair out w')
    then have "out \<noteq> Panic" using crash_task_run_no_panic [of task w] by simp
    with Pair assms(4) show ?thesis
      by (cases out) (auto simp: run_task_def and_then_def split: option.splits prod.splits outcome.splits,
          metis fst_conv)
  qed
  from runner_steps_inv [OF assms(1) refl assms(2,3) this] show ?thesis
    by (auto simp: runner_inv_def runner_stop_returns_def)
qed

theorem runner_stop_is_final_witness:
  "let params = \<lparr>UpdateInterval = 1000000, ExitOnSuccess = False, DisableRecoverOnPanic = False\<rparr>;
       run = run_task params (crash_task_run (\<lambda>n. (Ret None, Suc n))) None
   in \<exists>r. runner_steps params run (new_runner (0::nat))
            [Start, First 0, Awake, Woken 0, Cancel, Ctx 0, Close 0] r \<and>
          rn_world r = 2 \<and> \<not> rn_crashed r \<and> runner_stop_returns r"
proof -
  let ?params = "\<lparr>UpdateInterval = 1000000, ExitOnSuccess = False, DisableRecoverOnPanic = False\<rparr>"
  let ?run = "run_task ?params (crash_task_run (\<lambda>n :: nat. (Ret None, Suc n))) None"
  let ?ls = "[Start, First 0, Awake, Woken 0, Cancel, Ctx 0, Close 0]"
  let ?r = "\<lparr>rn_gs = [Gone], rn_awake = False, rn_done = True, rn_ctx_done = True,
             rn_crashed = False, rn_world = 2 :: nat\<rparr>"
  have "exec_labels ?params ?run ?ls (new_runner 0) = Some ?r"
    by (simp add: new_runner_def runner_start_def runner_awake_def after_task_def run_task_def
        crash_task_run_def and_then_def)
  then have steps: "runner_steps ?params ?run (new_runner 0) ?ls ?r" by (rule exec_labels_steps)
  from runner_stop_is_final [OF this] have "\<not> rn_crashed ?r \<and> (runner_stop_returns ?r \<longleftrightarrow> rn_gs ?r = [Gone])"
    by simp
  with steps show ?thesis by (auto simp: Let_def)
qed

text \<open>
  C30. Once its context is cancelled, a runner that was started once is at most three steps from
  letting \<^verbatim>\<open>Stop\<close> return, provided that every task run returns: in any reachable state there is
  such a continuation.
\<close>

theorem cancelled_runner_stops:
  assumes "runner_steps params run (new_runner w) ls r" and "count_list ls Start = 1"
    and "rn_ctx_done r" and "0 < sint (UpdateInterval params)"
    and run: "\<And>w. \<exists>b w'. run w = (Ret b, w')"
  shows "\<exists>ls' r'. length ls' \<le> 3 \<and> runner_steps params run r ls' r' \<and> runner_stop_returns r'"
proof -
  have "fst (run w) \<noteq> Panic" for w using run [of w] by auto
  then have inv: "runner_inv r" using runner_steps_inv assms by (metis order_refl)
  have "length (rn_gs r) = 1"
    using runner_steps_length [OF assms(1)] assms(2) by (simp add: new_runner_def)
  then obtain g where g: "rn_gs r = [g]" by (cases "rn_gs r") auto
  show ?thesis
  proof (cases g)
    case Starting
    with starting_closes [OF _ inv assms(3,4) run] g show ?thesis
      by (auto simp: runner_stop_returns_def)
  next
    case Selecting
    with selecting_closes [OF _ inv assms(3), of params run] g show ?thesis
      by (auto simp: runner_stop_returns_def intro: exI [of _ "[Ctx 0, Close 0]"])
  next
    case Closing
    with closing_closes [OF _ inv, of params run] g show ?thesis
      by (auto simp: runner_stop_returns_def intro: exI [of _ "[Close 0]"])
  next
    case Gone
    with inv g have "runner_stop_returns r"
      by (auto simp: runner_inv_def runner_stop_returns_def)
    then show ?thesis
      by (intro exI [of _ "[]"] exI [of _ r]) (simp add: runner_steps.steps_none)
  qed
qed

theorem cancelled_runner_stops_witness:
  "let params = \<lparr>UpdateInterval = 1, ExitOnSuccess = False, DisableRecoverOnPanic = False\<rparr>;
       run = (\<lambda>n :: nat. (Ret False, Suc n))
   in \<exists>ls' r'. length ls' \<le> 3 \<and> runner_stop_returns r' \<and>
        runner_steps params run ((runner_start (new_runner 0))\<lparr>rn_ctx_done := True\<rparr>) ls' r'"
proof -
  let ?params = "\<lparr>UpdateInterval = 1, ExitOnSuccess = False, DisableRecoverOnPanic = False\<rparr>"
  let ?run = "\<lambda>n :: nat. (Ret False, Suc n)"
  let ?r = "(runner_start (new_runner 0))\<lparr>rn_ctx_done := True\<rparr>"
  have "exec_labels ?params ?run [Start, Cancel] (new_runner 0) = Some ?r"
    by (simp add: new_runner_def runner_start_def)
  then have "runner_steps ?params ?run (new_runner 0) [Start, Cancel] ?r"
    by (rule exec_labels_steps)
  from cancelled_runner_stops [OF this] show ?thesis by (auto simp: Let_def)
qed

text \<open>
  A runner that is started twice can crash the process: after the context is cancelled both
  goroutines close the same channel, and the second close panics outside of any recovery. (A
  device added before \<^verbatim>\<open>CacheStore.Start\<close> runs is started twice.)
\<close>

theorem double_start_crashes:
  "\<exists>r. runner_steps \<lparr>UpdateInterval = 1, ExitOnSuccess = False, DisableRecoverOnPanic = False\<rparr>
         (run_task \<lparr>UpdateInterval = 1, ExitOnSuccess = False, DisableRecoverOnPanic = False\<rparr>
            (crash_task_run (\<lambda>n :: nat. (Ret None, Suc n))) None)
         (new_runner 0)
         [Start, Start, First 0, First 1, Cancel, Ctx 0, Ctx 1, Close 0, Close 1] r \<and>
       rn_crashed r"
proof -
  let ?params = "\<lparr>UpdateInterval = 1, ExitOnSuccess = False, DisableRecoverOnPanic = False\<rparr>"
  let ?run = "run_task ?params (crash_task_run (\<lambda>n :: nat. (Ret None, Suc n))) None"
  let ?r = "\<lparr>rn_gs = [Gone, Closing], rn_awake = False, rn_done = True, rn_ctx_done = True,
             rn_crashed = True, rn_world = 2 :: nat\<rparr>"
  have "exec_labels ?params ?run [Start, Start, First 0, First 1, Cancel, Ctx 0, Ctx 1, Close 0, Close 1]
      (new_runner 0) = Some ?r"
    by (simp add: new_runner_def runner_start_def runner_awake_def after_task_def run_task_def
        crash_task_run_def and_then_def)
  then show ?thesis by (intro exI [of _ ?r] conjI exec_labels_steps) simp_all
qed

text \<open>
  A task that panics counts as one that succeeded: with the default recovery the error
  handler is not called, and a runner that exits on success ends after the panic.
\<close>

theorem panic_counts_as_success:
  assumes "task w = (Panic, w')" and "\<not> DisableRecoverOnPanic params"
  shows "run_task params (runner_task params task) handler w = (Ret (ExitOnSuccess params), w')"
  using assms by (simp add: run_task_def runner_task_def crash_task_run_def and_then_def)

theorem panic_counts_as_success_witness:
  "run_task \<lparr>UpdateInterval = 5, ExitOnSuccess = True, DisableRecoverOnPanic = False\<rparr>
     (runner_task \<lparr>UpdateInterval = 5, ExitOnSuccess = True, DisableRecoverOnPanic = False\<rparr>
        (\<lambda>n :: nat. (Panic, n))) (Some (\<lambda>e n. (Ret (), 100))) 7 = (Ret True, 7)"
  by (subst panic_counts_as_success [where w' = 7]) simp_all

text \<open>
  \<^verbatim>\<open>FanoutStopper.Stop\<close> runs every registered stopper once, in the order of registration,
  whatever errors they report, and reports none itself, provided that each of them returns.
\<close>

theorem fanout_stop_stops_all:
  assumes "\<And>n f s. (n, f) \<in> set nodes \<Longrightarrow> \<exists>e s'. f s = (Ret e, s')"
  shows "fanout_stop nodes s = (Ret None, fold (\<lambda>(_, f) s. snd (f s)) nodes s)"
  using assms by (rule fanout_stop_runs_all)

theorem fanout_stop_stops_all_witness:
  "fanout_stop [(''a'', \<lambda>s. (Ret (Some (Status StatusError)), 1 # s)), (''b'', \<lambda>s. (Ret None, 2 # s))]
     [0 :: nat] = (Ret None, [2, 1, 0])"
  by (subst fanout_stop_stops_all) auto

end
