(* ===== verification/AliveMonitor.thy ===== *)
theory AliveMonitor
  imports Store Sched
begin

text \<open>
  \<^verbatim>\<open>devstore.StoreAliveMonitor\<close>: a store decorator that records when a device was last seen
  alive and removes the ones that were not for too long. Every method runs under the monitor's
  mutex and is one action on the monitor and the world of the decorated store. The locale
  \<open>monitored_store\<close> shows that the decorated store keeps the contract of a store and what a
  run removes.
\<close>

section \<open>Stores in a larger world\<close>

definition lift_store :: "'s store \<Rightarrow> ('w \<times> 's) store" where
  "lift_store st =
     \<lparr>store_Add = (\<lambda>u t d. lift_snd (store_Add st u t d)),
      store_Remove = (\<lambda>u. lift_snd (store_Remove st u)),
      store_GetDesc = lift_snd (store_GetDesc st)\<rparr>"

context device_store
begin

lemma lifted: "device_store (lift_store st) (\<lambda>(w :: 'c, s). uris s) (\<lambda>(w, s). inv s)"
proof
  fix ws :: "'c \<times> 's" and u t d
  obtain w s where ws: "ws = (w, s)" by (cases ws)
  show "(case ws of (w, s) \<Rightarrow> inv s) \<Longrightarrow> u \<in> (case ws of (w, s) \<Rightarrow> uris s) \<Longrightarrow>
      store_Add (lift_store st) u t d ws = (Ret (Some ErrDeviceExist), ws)"
    by (simp add: ws lift_store_def outcome_simps add_known)
  show "(case ws of (w, s) \<Rightarrow> inv s) \<Longrightarrow> u \<notin> (case ws of (w, s) \<Rightarrow> uris s) \<Longrightarrow>
      \<exists>e ws'. store_Add (lift_store st) u t d ws = (Ret e, ws') \<and> (case ws' of (w, s) \<Rightarrow> inv s) \<and>
        e \<noteq> Some ErrDeviceExist \<and> (case ws' of (w, s) \<Rightarrow> uris s) =
          (if e = None then insert u (case ws of (w, s) \<Rightarrow> uris s) else (case ws of (w, s) \<Rightarrow> uris s))"
    using add_new [of s u t d] by (force simp: ws lift_store_def outcome_simps)
  show "(case ws of (w, s) \<Rightarrow> inv s) \<Longrightarrow> u \<notin> (case ws of (w, s) \<Rightarrow> uris s) \<Longrightarrow>
      store_Remove (lift_store st) u ws = (Ret (Some (Status StatusNoData)), ws)"
    by (simp add: ws lift_store_def outcome_simps remove_unknown)
  show "(case ws of (w, s) \<Rightarrow> inv s) \<Longrightarrow> u \<in> (case ws of (w, s) \<Rightarrow> uris s) \<Longrightarrow>
      \<exists>e ws'. store_Remove (lift_store st) u ws = (Ret e, ws') \<and> (case ws' of (w, s) \<Rightarrow> inv s) \<and>
        (case ws' of (w, s) \<Rightarrow> uris s) =
          (if e = None then (case ws of (w, s) \<Rightarrow> uris s) - {u} else (case ws of (w, s) \<Rightarrow> uris s))"
    using remove_known [of s u] by (force simp: ws lift_store_def outcome_simps)
  show "(case ws of (w, s) \<Rightarrow> inv s) \<Longrightarrow>
      \<exists>items. store_GetDesc (lift_store st) ws = (Ret items, ws) \<and> distinct (map si_URI items) \<and>
        si_URI ` set items = (case ws of (w, s) \<Rightarrow> uris s)"
    using get_desc [of s] by (force simp: ws lift_store_def outcome_simps)
qed

end

section \<open>The monitor\<close>

text \<open>A time of the monotonic clock is its nanoseconds; \<^verbatim>\<open>Sub\<close> saturates.\<close>

definition mono_sub :: "i64 \<Rightarrow> i64 \<Rightarrow> int" where
  "mono_sub t u = max (- (2 ^ 63)) (min (2 ^ 63 - 1) (sint t - sint u))"

record alive_monitor =
  am_maxInactiveInterval :: i64
  am_devices :: "string \<rightharpoonup> i64"

definition set_device :: "string \<Rightarrow> i64 \<Rightarrow> alive_monitor \<Rightarrow> alive_monitor" where
  "set_device uri t m = m\<lparr>am_devices := (am_devices m)(uri \<mapsto> t)\<rparr>"

definition delete_device :: "string \<Rightarrow> alive_monitor \<Rightarrow> alive_monitor" where
  "delete_device uri m = m\<lparr>am_devices := (am_devices m)(uri := None)\<rparr>"

definition monitor_add :: "('s, i64) action \<Rightarrow> 's store \<Rightarrow> string \<Rightarrow> string \<Rightarrow> string
    \<Rightarrow> (alive_monitor \<times> 's, err option) action" where
  "monitor_add now st uri typ desc =
     and_then (lift_snd (store_Add st uri typ desc)) (\<lambda>e.
       if e \<noteq> None then (\<lambda>ms. (Ret e, ms))
       else and_then (lift_snd now) (\<lambda>t (m, s). (Ret None, (set_device uri t m, s))))"

definition monitor_remove :: "'s store \<Rightarrow> string \<Rightarrow> (alive_monitor \<times> 's, err option) action" where
  "monitor_remove st uri =
     and_then (lift_snd (store_Remove st uri)) (\<lambda>e (m, s).
       if e \<noteq> None then (Ret e, (m, s)) else (Ret None, (delete_device uri m, s)))"

definition monitor_get_desc :: "'s store \<Rightarrow> (alive_monitor \<times> 's, store_item list) action" where
  "monitor_get_desc st = lift_snd (store_GetDesc st)"

definition monitor_store :: "('s, i64) action \<Rightarrow> 's store \<Rightarrow> (alive_monitor \<times> 's) store" where
  "monitor_store now st =
     \<lparr>store_Add = monitor_add now st, store_Remove = monitor_remove st,
      store_GetDesc = monitor_get_desc st\<rparr>"

definition notify_alive :: "('s, i64) action \<Rightarrow> string \<Rightarrow> (alive_monitor \<times> 's, unit) action" where
  "notify_alive now uri =
     and_then (lift_snd now) (\<lambda>t (m, s). (Ret (), (set_device uri t m, s)))"

text \<open>
  The loop of \<^verbatim>\<open>Run\<close> over the keys of the map in the order the runtime picks; entries deleted
  during the loop are skipped.
\<close>

fun run_loop :: "('s, i64) action \<Rightarrow> 's store \<Rightarrow> string list \<Rightarrow> (alive_monitor \<times> 's) task" where
  "run_loop now st [] (m, s) = (Ret None, (m, s))"
| "run_loop now st (uri # ord) (m, s) =
     (case am_devices m uri of
        None \<Rightarrow> run_loop now st ord (m, s)
      | Some update_time \<Rightarrow>
          and_then (lift_snd now) (\<lambda>t (m, s).
            if mono_sub t update_time < sint (am_maxInactiveInterval m)
            then run_loop now st ord (m, s)
            else and_then (lift_snd (store_Remove st uri)) (\<lambda>e (m, s).
                   if e \<noteq> None then (Ret e, (m, s))
                   else run_loop now st ord (delete_device uri m, s)) (m, s)) (m, s))"

definition monitor_run :: "('s, i64) action \<Rightarrow> 's store \<Rightarrow> string list \<Rightarrow> (alive_monitor \<times> 's) task" where
  "monitor_run now st ord = run_loop now st ord"

fun restore_loop :: "('s, i64) action \<Rightarrow> store_item list \<Rightarrow> (alive_monitor \<times> 's, unit) action" where
  "restore_loop now [] ms = (Ret (), ms)"
| "restore_loop now (item # items) ms =
     and_then (lift_snd now) (\<lambda>t (m, s). restore_loop now items (set_device (si_URI item) t m, s)) ms"

definition restore_devices :: "('s, i64) action \<Rightarrow> 's store \<Rightarrow> (alive_monitor \<times> 's, unit) action" where
  "restore_devices now st = and_then (monitor_get_desc st) (restore_loop now)"

definition new_alive_monitor :: "('s, i64) action \<Rightarrow> 's store \<Rightarrow> i64
    \<Rightarrow> ('s, alive_monitor) action" where
  "new_alive_monitor now st max_inactive s =
     (case restore_devices now st
             (\<lparr>am_maxInactiveInterval = max_inactive, am_devices = Map.empty\<rparr>, s) of
        (Ret _, (m, s)) \<Rightarrow> (Ret m, s)
      | (Panic, (m, s)) \<Rightarrow> (Panic, s)
      | (Hang, (m, s)) \<Rightarrow> (Hang, s))"

text \<open>A device is active when it was seen less than the maximum interval ago.\<close>

definition device_active :: "i64 \<Rightarrow> alive_monitor \<Rightarrow> string \<Rightarrow> bool" where
  "device_active t m u \<longleftrightarrow>
     (\<exists>seen. am_devices m u = Some seen \<and> mono_sub t seen < sint (am_maxInactiveInterval m))"

text \<open>A new monitor has seen every device its store describes.\<close>

lemma restore_loop_spec:
  assumes "now s = (Ret t, s)"
  shows "\<exists>m'. restore_loop now items (m, s) = (Ret (), (m', s)) \<and>
     am_maxInactiveInterval m' = am_maxInactiveInterval m \<and>
     am_devices m' = (\<lambda>u. if u \<in> si_URI ` set items then Some t else am_devices m u)"
proof (induction items arbitrary: m)
  case (Cons item items)
  show ?case using Cons [of "set_device (si_URI item) t m"] assms
    by (auto simp: outcome_simps set_device_def fun_eq_iff)
qed simp

lemma new_alive_monitor_sees:
  assumes "store_GetDesc st s = (Ret items, s)" and "now s = (Ret t, s)"
  shows "new_alive_monitor now st max_inactive s =
     (Ret \<lparr>am_maxInactiveInterval = max_inactive,
           am_devices = (\<lambda>u. if u \<in> si_URI ` set items then Some t else None)\<rparr>, s)"
proof -
  obtain m' where "restore_loop now items
      (\<lparr>am_maxInactiveInterval = max_inactive, am_devices = Map.empty\<rparr>, s) = (Ret (), (m', s))"
    "am_maxInactiveInterval m' = max_inactive"
    "am_devices m' = (\<lambda>u. if u \<in> si_URI ` set items then Some t else None)"
    using restore_loop_spec [where now = now and s = s and t = t, of items] assms(2) by fastforce
  then show ?thesis using assms(1)
    by (simp add: new_alive_monitor_def restore_devices_def monitor_get_desc_def outcome_simps)
qed

section \<open>The monitored store\<close>

text \<open>
  A store in a world with a monotonic clock that reads \<open>mono\<close>, which the operations of the store
  leave alone: the sequential model of a critical section takes no time.
\<close>

locale monitored_store = device_store st uris inv
  for st :: "'s store" and uris and inv +
  fixes now :: "('s, i64) action" and mono :: "'s \<Rightarrow> i64"
  assumes now_reads: "inv s \<Longrightarrow> now s = (Ret (mono s), s)"
    and remove_mono: "inv s \<Longrightarrow> mono (snd (store_Remove st u s)) = mono s"
begin

definition minv :: "alive_monitor \<times> 's \<Rightarrow> bool" where
  "minv = (\<lambda>(m, s). inv s \<and> dom (am_devices m) = uris s)"

lemma monitor_add_returns:
  assumes "minv (m, s)"
  shows "\<exists>e m' s'. monitor_add now st u t d (m, s) = (Ret e, (m', s')) \<and> minv (m', s') \<and>
     (e = Some ErrDeviceExist \<longleftrightarrow> u \<in> uris s) \<and>
     uris s' = (if e = None then insert u (uris s) else uris s) \<and> (u \<in> uris s \<longrightarrow> m' = m \<and> s' = s)"
proof -
  have "inv s" using assms by (simp add: minv_def)
  then obtain e s1 where a: "store_Add st u t d s = (Ret e, s1)" "inv s1"
    "e = Some ErrDeviceExist \<longleftrightarrow> u \<in> uris s"
    "uris s1 = (if e = None then insert u (uris s) else uris s)"
    using add_returns by blast
  moreover have "u \<in> uris s \<Longrightarrow> s1 = s" using add_known [OF \<open>inv s\<close>] a by simp
  ultimately show ?thesis using assms now_reads [OF a(2)]
    by (cases e) (auto simp: monitor_add_def outcome_simps minv_def set_device_def)
qed

lemma monitor_remove_returns:
  assumes "minv (m, s)"
  shows "\<exists>e m' s'. monitor_remove st u (m, s) = (Ret e, (m', s')) \<and> minv (m', s') \<and>
     (e = None \<longrightarrow> u \<in> uris s) \<and> uris s' = (if e = None then uris s - {u} else uris s) \<and>
     (u \<notin> uris s \<longrightarrow> e = Some (Status StatusNoData) \<and> m' = m \<and> s' = s)"
proof -
  have "inv s" using assms by (simp add: minv_def)
  then obtain e s1 where a: "store_Remove st u s = (Ret e, s1)" "inv s1" "e = None \<longrightarrow> u \<in> uris s"
    "uris s1 = (if e = None then uris s - {u} else uris s)"
    using remove_returns by blast
  have b: "u \<notin> uris s \<Longrightarrow> s1 = s \<and> e = Some (Status StatusNoData)"
    using remove_unknown [OF \<open>inv s\<close>, of u] a(1) by simp
  show ?thesis
  proof (cases e)
    case None
    then have "monitor_remove st u (m, s) = (Ret None, (delete_device u m, s1))"
      using a by (simp add: monitor_remove_def outcome_simps)
    moreover have "minv (delete_device u m, s1)"
      using a None assms by (auto simp: minv_def delete_device_def)
    ultimately show ?thesis using a None b by fastforce
  next
    case (Some e')
    then have "monitor_remove st u (m, s) = (Ret (Some e'), (m, s1))"
      using a by (simp add: monitor_remove_def outcome_simps)
    moreover have "minv (m, s1)" using a Some assms by (simp add: minv_def)
    ultimately show ?thesis using a Some b by fastforce
  qed
qed

lemma active_delete:
  assumes "minv (m, s)" and "store_Remove st u s = (Ret e, s1)" and "u \<noteq> v"
  shows "device_active (mono s1) (delete_device u m) v = device_active (mono s) m v"
  using remove_mono [of s u] assms by (simp add: device_active_def delete_device_def minv_def)

lemma run_loop_spec:
  assumes "minv (m, s)" and "distinct ord"
  shows "\<exists>e m' s'. run_loop now st ord (m, s) = (Ret e, (m', s')) \<and> minv (m', s') \<and>
     uris s' \<subseteq> uris s \<and> {u \<in> uris s. device_active (mono s) m u} \<subseteq> uris s' \<and>
     (e = None \<longrightarrow> uris s' = {u \<in> uris s. u \<notin> set ord \<or> device_active (mono s) m u})"
  using assms
proof (induction ord arbitrary: m s)
  case (Cons u ord)
  show ?case
  proof (cases "am_devices m u")
    case None
    then have "u \<notin> uris s" using Cons.prems(1) by (auto simp: minv_def)
    then show ?thesis using Cons.IH [OF Cons.prems(1)] Cons.prems(2) None by fastforce
  next
    case (Some t)
    have inv: "inv s" using Cons.prems(1) by (simp add: minv_def)
    note now = now_reads [OF inv]
    show ?thesis
    proof (cases "device_active (mono s) m u")
      case True
      then have "run_loop now st (u # ord) (m, s) = run_loop now st ord (m, s)"
        using Some now by (simp add: device_active_def outcome_simps)
      then show ?thesis using Cons.IH [OF Cons.prems(1)] Cons.prems(2) True by fastforce
    next
      case False
      obtain e s1 where r: "store_Remove st u s = (Ret e, s1)" "inv s1"
        "uris s1 = (if e = None then uris s - {u} else uris s)"
        using remove_returns [OF inv, of u] by blast
      have step: "run_loop now st (u # ord) (m, s) =
          (if e \<noteq> None then (Ret e, (m, s1)) else run_loop now st ord (delete_device u m, s1))"
        using False Some now r by (simp add: device_active_def outcome_simps)
      show ?thesis
      proof (cases e)
        case None
        then have m1: "minv (delete_device u m, s1)"
          using r Cons.prems(1) by (auto simp: minv_def delete_device_def)
        have act: "{v \<in> uris s1. P v \<or> device_active (mono s1) (delete_device u m) v} =
            {v \<in> uris s. v \<noteq> u \<and> (P v \<or> device_active (mono s) m v)}" for P
          using r None active_delete [OF Cons.prems(1) r(1)] by auto
        from Cons.IH [OF m1] Cons.prems(2) obtain e' m' s' where
          "run_loop now st ord (delete_device u m, s1) = (Ret e', (m', s'))" "minv (m', s')"
          "uris s' \<subseteq> uris s1" "{v \<in> uris s1. device_active (mono s1) (delete_device u m) v} \<subseteq> uris s'"
          "e' = None \<longrightarrow> uris s' = {v \<in> uris s1. v \<notin> set ord \<or> device_active (mono s1) (delete_device u m) v}"
          by auto
        then show ?thesis using step None r act [of "\<lambda>_. False"] act [of "\<lambda>v. v \<notin> set ord"] False
          by fastforce
      next
        case (Some e')
        then show ?thesis using step r Cons.prems(1) by (auto simp: minv_def)
      qed
    qed
  qed
qed auto

end

sublocale monitored_store \<subseteq> monitored: device_store "monitor_store now st" "\<lambda>(m, s). uris s" minv
proof
  fix ms :: "alive_monitor \<times> 's" and u t d
  obtain m s where ms: "ms = (m, s)" by (cases ms)
  show "minv ms \<Longrightarrow> u \<in> (case ms of (m, s) \<Rightarrow> uris s) \<Longrightarrow>
      store_Add (monitor_store now st) u t d ms = (Ret (Some ErrDeviceExist), ms)"
    using monitor_add_returns [of m s u t d] by (auto simp: ms monitor_store_def)
  show "minv ms \<Longrightarrow> u \<notin> (case ms of (m, s) \<Rightarrow> uris s) \<Longrightarrow>
      \<exists>e ms'. store_Add (monitor_store now st) u t d ms = (Ret e, ms') \<and> minv ms' \<and>
        e \<noteq> Some ErrDeviceExist \<and> (case ms' of (m, s) \<Rightarrow> uris s) =
          (if e = None then insert u (case ms of (m, s) \<Rightarrow> uris s) else (case ms of (m, s) \<Rightarrow> uris s))"
    using monitor_add_returns [of m s u t d] by (fastforce simp: ms monitor_store_def)
  show "minv ms \<Longrightarrow> u \<notin> (case ms of (m, s) \<Rightarrow> uris s) \<Longrightarrow>
      store_Remove (monitor_store now st) u ms = (Ret (Some (Status StatusNoData)), ms)"
    using monitor_remove_returns [of m s u] by (auto simp: ms monitor_store_def)
  show "minv ms \<Longrightarrow> u \<in> (case ms of (m, s) \<Rightarrow> uris s) \<Longrightarrow>
      \<exists>e ms'. store_Remove (monitor_store now st) u ms = (Ret e, ms') \<and> minv ms' \<and>
        (case ms' of (m, s) \<Rightarrow> uris s) =
          (if e = None then (case ms of (m, s) \<Rightarrow> uris s) - {u} else (case ms of (m, s) \<Rightarrow> uris s))"
    using monitor_remove_returns [of m s u] by (fastforce simp: ms monitor_store_def)
  show "minv ms \<Longrightarrow>
      \<exists>items. store_GetDesc (monitor_store now st) ms = (Ret items, ms) \<and>
        distinct (map si_URI items) \<and> si_URI ` set items = (case ms of (m, s) \<Rightarrow> uris s)"
    using get_desc [of s] by (fastforce simp: ms monitor_store_def monitor_get_desc_def minv_def
        outcome_simps)
qed

end
