(* ===== verification/Resolve.thy ===== *)
theory Resolve
  imports Mdns
begin

text \<open>
  \<^verbatim>\<open>sysnet.ResolveStore\<close> and the mDNS handler that feeds it. The operations of the store, each
  one critical section of its mutex, are functions on \<open>resolve_store\<close>. \<^verbatim>\<open>Resolve\<close> is not
  atomic: it looks the address up, waits on the update channel or the context, and looks it up
  again, so concurrent calls are the steps of a labelled transition system.
\<close>

section \<open>The store\<close>

record resolve_store =
  rs_update :: bool
  rs_known :: "string set"
  rs_addrs :: "string \<rightharpoonup> addr"

definition new_resolve_store :: resolve_store where
  "new_resolve_store = \<lparr>rs_update = False, rs_known = {}, rs_addrs = Map.empty\<rparr>"

text \<open>The update channel has room for one token; a send into a full channel is dropped.\<close>

definition handle_resolve :: "string \<Rightarrow> addr \<Rightarrow> resolve_store \<Rightarrow> resolve_store" where
  "handle_resolve hostname addr s =
     (if hostname \<notin> rs_known s then s
      else (let s = (case rs_addrs s hostname of
                       None \<Rightarrow> s\<lparr>rs_addrs := (rs_addrs s)(hostname \<mapsto> addr)\<rparr>
                     | Some ra \<Rightarrow>
                         (if addr_string ra \<noteq> addr_string addr
                          then s\<lparr>rs_addrs := (rs_addrs s)(hostname \<mapsto> addr)\<rparr> else s))
            in s\<lparr>rs_update := True\<rparr>))"

definition resolve_add :: "string \<Rightarrow> resolve_store \<Rightarrow> resolve_store" where
  "resolve_add hostname s = s\<lparr>rs_known := insert hostname (rs_known s)\<rparr>"

definition resolve_remove :: "string \<Rightarrow> resolve_store \<Rightarrow> resolve_store" where
  "resolve_remove hostname s =
     s\<lparr>rs_known := rs_known s - {hostname}, rs_addrs := (rs_addrs s)(hostname := None)\<rparr>"

definition get_addr :: "string \<Rightarrow> resolve_store \<Rightarrow> err + addr" where
  "get_addr hostname s =
     (case rs_addrs s hostname of
        None \<Rightarrow> Inl (Status StatusNoData)
      | Some addr \<Rightarrow> Inr addr)"

section \<open>ResolveServiceHandler\<close>

definition resolve_handle_service :: "service \<Rightarrow> (resolve_store, err option) action" where
  "resolve_handle_service svc s =
     (let addrs = (if length (svc_AddrsIPv4 svc) = 0 then svc_AddrsIPv6 svc
                   else svc_AddrsIPv4 svc)
      in if length addrs \<noteq> 1 then (Ret (Some (Status StatusNotSupported)), s)
         else (Ret None,
               handle_resolve (trim_suffix (svc_Hostname svc) ''.'') (IPAddr (hd addrs)) s))"

section \<open>Concurrent calls of Resolve\<close>

text \<open>
  A call is in the \<^verbatim>\<open>select\<close>, has taken the token and is about to look up, or has returned.
\<close>

datatype call = Waiting string | Woken string | Returned string "err + addr"

record resolve_sys =
  sys_store :: resolve_store
  sys_calls :: "nat \<rightharpoonup> call"

definition init_resolve_sys :: resolve_sys where
  "init_resolve_sys = \<lparr>sys_store = new_resolve_store, sys_calls = Map.empty\<rparr>"

datatype resolve_label =
    Handle string addr
  | AddHost string
  | RemoveHost string
  | Call nat string
  | Wake nat
  | LookUp nat
  | Timeout nat

definition set_call :: "nat \<Rightarrow> call \<Rightarrow> resolve_sys \<Rightarrow> resolve_sys" where
  "set_call i c s = s\<lparr>sys_calls := (sys_calls s)(i \<mapsto> c)\<rparr>"

fun resolve_step :: "resolve_label \<Rightarrow> resolve_sys \<Rightarrow> resolve_sys option" where
  "resolve_step (Handle h a) s = Some (s\<lparr>sys_store := handle_resolve h a (sys_store s)\<rparr>)"
| "resolve_step (AddHost h) s = Some (s\<lparr>sys_store := resolve_add h (sys_store s)\<rparr>)"
| "resolve_step (RemoveHost h) s = Some (s\<lparr>sys_store := resolve_remove h (sys_store s)\<rparr>)"
| "resolve_step (Call i h) s =
     (if sys_calls s i \<noteq> None then None
      else Some (set_call i (case get_addr h (sys_store s) of
                               Inr a \<Rightarrow> Returned h (Inr a)
                             | Inl e \<Rightarrow> Waiting h) s))"
| "resolve_step (Wake i) s =
     (case sys_calls s i of
        Some (Waiting h) \<Rightarrow>
          (if rs_update (sys_store s)
           then Some (set_call i (Woken h) (s\<lparr>sys_store := (sys_store s)\<lparr>rs_update := False\<rparr>\<rparr>))
           else None)
      | _ \<Rightarrow> None)"
| "resolve_step (LookUp i) s =
     (case sys_calls s i of
        Some (Woken h) \<Rightarrow> Some (set_call i (Returned h (get_addr h (sys_store s))) s)
      | _ \<Rightarrow> None)"
| "resolve_step (Timeout i) s =
     (case sys_calls s i of
        Some (Waiting h) \<Rightarrow> Some (set_call i (Returned h (Inl (Status StatusTimeout))) s)
      | _ \<Rightarrow> None)"

text \<open>The executions from an empty store, with their labels.\<close>

inductive resolve_exec :: "resolve_label list \<Rightarrow> resolve_sys \<Rightarrow> bool" where
  exec_init: "resolve_exec [] init_resolve_sys"
| exec_snoc: "resolve_exec ls s \<Longrightarrow> resolve_step l s = Some s' \<Longrightarrow> resolve_exec (ls @ [l]) s'"

fun run_labels :: "resolve_label list \<Rightarrow> resolve_sys \<Rightarrow> resolve_sys option" where
  "run_labels [] s = Some s"
| "run_labels (l # ls) s = Option.bind (resolve_step l s) (run_labels ls)"

section \<open>Facts\<close>

lemma run_labels_exec:
  "resolve_exec ls s \<Longrightarrow> run_labels ls' s = Some s' \<Longrightarrow> resolve_exec (ls @ ls') s'"
proof (induction ls' arbitrary: ls s)
  case (Cons l ls')
  then obtain s1 where "resolve_step l s = Some s1" "run_labels ls' s1 = Some s'"
    by (auto simp: bind_eq_Some_conv)
  with Cons show ?case using exec_snoc [of ls s l s1] by fastforce
qed simp

lemma get_addr_handle_resolve:
  "h \<in> rs_known s \<Longrightarrow>
   \<exists>a'. get_addr h (handle_resolve h a s) = Inr a' \<and> addr_string a' = addr_string a"
  by (auto simp: get_addr_def handle_resolve_def Let_def split: option.splits)

lemma get_addr_handle_other:
  "h' \<noteq> h \<Longrightarrow> get_addr h' (handle_resolve h a s) = get_addr h' s"
  by (auto simp: get_addr_def handle_resolve_def Let_def split: option.splits)

text \<open>
  The invariant of the executions: an address is cached for known hosts only, and everything
  that is cached or returned was announced before, for a host that had been added.
\<close>

definition announced :: "resolve_label list \<Rightarrow> string \<Rightarrow> addr \<Rightarrow> bool" where
  "announced ls h a \<longleftrightarrow> (\<exists>before after. ls = before @ Handle h a # after \<and> AddHost h \<in> set before)"

lemma announced_mono: "announced ls h a \<Longrightarrow> announced (ls @ ls') h a"
  unfolding announced_def by fastforce

lemma announced_snoc: "AddHost h \<in> set ls \<Longrightarrow> announced (ls @ [Handle h a]) h a"
  unfolding announced_def by fastforce

lemma announced_added: "announced ls h a \<Longrightarrow> AddHost h \<in> set ls"
  unfolding announced_def by fastforce

definition call_ok :: "resolve_label list \<Rightarrow> call \<Rightarrow> bool" where
  "call_ok ls c \<longleftrightarrow>
     (case c of
        Returned h (Inr a) \<Rightarrow> announced ls h a
      | Returned h (Inl e) \<Rightarrow> e = Status StatusNoData \<or> e = Status StatusTimeout
      | _ \<Rightarrow> True)"

definition resolve_inv :: "resolve_label list \<Rightarrow> resolve_sys \<Rightarrow> bool" where
  "resolve_inv ls s \<longleftrightarrow>
     dom (rs_addrs (sys_store s)) \<subseteq> rs_known (sys_store s) \<and>
     (\<forall>h \<in> rs_known (sys_store s). AddHost h \<in> set ls) \<and>
     (\<forall>h a. rs_addrs (sys_store s) h = Some a \<longrightarrow> announced ls h a) \<and>
     (\<forall>i c. sys_calls s i = Some c \<longrightarrow> call_ok ls c)"

lemma call_ok_mono: "call_ok ls c \<Longrightarrow> call_ok (ls @ ls') c"
  by (auto simp: call_ok_def announced_mono split: call.splits sum.splits)

lemma resolve_inv_mono: "resolve_inv ls s \<Longrightarrow> resolve_inv (ls @ ls') s"
  unfolding resolve_inv_def using call_ok_mono announced_mono by fastforce

lemma resolve_inv_get_addr:
  "resolve_inv ls s \<Longrightarrow> call_ok ls (Returned h (get_addr h (sys_store s)))"
  by (force simp: resolve_inv_def call_ok_def get_addr_def split: option.splits)

lemma resolve_inv_set_call:
  "resolve_inv ls s \<Longrightarrow> call_ok ls c \<Longrightarrow> resolve_inv ls (set_call i c s)"
  by (simp add: resolve_inv_def set_call_def)

lemma resolve_inv_store:
  assumes "resolve_inv ls s"
  shows "resolve_inv (ls @ [Handle h a]) (s\<lparr>sys_store := handle_resolve h a (sys_store s)\<rparr>)"
    and "resolve_inv (ls @ [AddHost h]) (s\<lparr>sys_store := resolve_add h (sys_store s)\<rparr>)"
    and "resolve_inv (ls @ [RemoveHost h]) (s\<lparr>sys_store := resolve_remove h (sys_store s)\<rparr>)"
    and "resolve_inv ls (s\<lparr>sys_store := (sys_store s)\<lparr>rs_update := u\<rparr>\<rparr>)"
  using assms call_ok_mono announced_mono announced_snoc
  by (fastforce simp: resolve_inv_def handle_resolve_def resolve_add_def resolve_remove_def
      Let_def split: option.splits if_splits)+

lemma resolve_step_inv:
  assumes "resolve_step l s = Some s'" "resolve_inv ls s"
  shows "resolve_inv (ls @ [l]) s'"
proof (cases l)
  case (Call i h)
  with assms resolve_inv_get_addr [OF assms(2), of h] show ?thesis
    by (auto simp: call_ok_def intro!: resolve_inv_mono resolve_inv_set_call
        split: if_splits sum.splits)
next
  case (Wake i)
  with assms show ?thesis
    by (auto simp: call_ok_def intro!: resolve_inv_mono resolve_inv_set_call resolve_inv_store
        split: if_splits option.splits call.splits)
next
  case (LookUp i)
  with assms resolve_inv_get_addr [OF assms(2)] show ?thesis
    by (auto intro!: resolve_inv_mono resolve_inv_set_call split: option.splits call.splits)
next
  case (Timeout i)
  with assms show ?thesis
    by (auto simp: call_ok_def intro!: resolve_inv_mono resolve_inv_set_call
        split: option.splits call.splits)
qed (use assms resolve_inv_store in auto)

lemma resolve_exec_inv: "resolve_exec ls s \<Longrightarrow> resolve_inv ls s"
proof (induction rule: resolve_exec.induct)
  case exec_init
  show ?case by (simp add: resolve_inv_def init_resolve_sys_def new_resolve_store_def)
next
  case (exec_snoc ls s l s')
  then show ?case by (blast intro: resolve_step_inv)
qed

lemma resolve_exec_call: "resolve_exec ls s \<Longrightarrow> sys_calls s i = Some c \<Longrightarrow> call_ok ls c"
  using resolve_exec_inv by (auto simp: resolve_inv_def)

section \<open>Properties\<close>

text \<open>
  C17. An address that a call of Resolve returns for a host was reported for exactly that host,
  after the host had been added to the store; nothing that was reported for another host or
  before the host was added is ever returned.
\<close>

theorem resolved_address_was_announced:
  assumes "resolve_exec ls s" and "sys_calls s i = Some (Returned h (Inr a))"
  shows "\<exists>before after. ls = before @ Handle h a # after \<and> AddHost h \<in> set before"
  using resolve_exec_call [OF assms] by (simp add: call_ok_def announced_def)

definition sample_addr :: addr where
  "sample_addr = IPAddr [192, 168, 4, 1]"

definition sample_labels :: "resolve_label list" where
  "sample_labels = [AddHost ''bonsai'', Call 0 ''bonsai'', Handle ''bonsai'' sample_addr,
     Wake 0, LookUp 0]"

theorem resolved_address_was_announced_witness:
  "\<exists>s. resolve_exec sample_labels s \<and>
     sys_calls s 0 = Some (Returned ''bonsai'' (Inr sample_addr)) \<and>
     (\<exists>before after. sample_labels = before @ Handle ''bonsai'' sample_addr # after \<and>
        AddHost ''bonsai'' \<in> set before)"
proof -
  let ?s = "\<lparr>sys_store = \<lparr>rs_update = False, rs_known = {''bonsai''},
      rs_addrs = [''bonsai'' \<mapsto> sample_addr]\<rparr>,
    sys_calls = [0 \<mapsto> Returned ''bonsai'' (Inr sample_addr)]\<rparr>"
  have e: "resolve_exec sample_labels ?s"
    using run_labels_exec [OF exec_init, of sample_labels ?s]
    by (simp add: sample_labels_def init_resolve_sys_def new_resolve_store_def resolve_add_def
        get_addr_def set_call_def handle_resolve_def)
  show ?thesis by (rule exI [of _ ?s]) (use e resolved_address_was_announced [OF e, of 0] in simp)
qed

text \<open>
  Resolving a host that nobody added always fails, with no data or with the timeout of the
  caller, whatever is reported for it and however the calls interleave.
\<close>

theorem unknown_host_never_resolves:
  assumes "resolve_exec ls s" and "AddHost h \<notin> set ls"
    and "sys_calls s i = Some (Returned h r)"
  shows "r = Inl (Status StatusNoData) \<or> r = Inl (Status StatusTimeout)"
  using resolve_exec_call [OF assms(1,3)] assms(2)
  by (cases r) (auto simp: call_ok_def dest: announced_added)

theorem unknown_host_never_resolves_witness:
  "\<exists>s. resolve_exec [Call 0 ''fern'', Handle ''fern'' sample_addr, Timeout 0] s \<and>
     (\<exists>r. sys_calls s 0 = Some (Returned ''fern'' r) \<and>
        (r = Inl (Status StatusNoData) \<or> r = Inl (Status StatusTimeout)))"
proof -
  let ?ls = "[Call 0 ''fern'', Handle ''fern'' sample_addr, Timeout 0]"
  let ?s = "\<lparr>sys_store = new_resolve_store,
    sys_calls = [0 \<mapsto> Returned ''fern'' (Inl (Status StatusTimeout))]\<rparr>"
  have e: "resolve_exec ?ls ?s"
    using run_labels_exec [OF exec_init, of ?ls ?s]
    by (simp add: init_resolve_sys_def new_resolve_store_def get_addr_def set_call_def
        handle_resolve_def)
  show ?thesis
    by (rule exI [of _ ?s]) (use e unknown_host_never_resolves [OF e, of "''fern''" 0] in simp)
qed

text \<open>
  A call that waits for a known host gets the address that is reported next for that host
  (up to its text, the store keeps an equal one) when it takes the update, in any state.
\<close>

theorem waiting_call_gets_the_report:
  assumes "sys_calls s i = Some (Waiting h)" and "h \<in> rs_known (sys_store s)"
  shows "\<exists>s' a'. run_labels [Handle h a, Wake i, LookUp i] s = Some s' \<and>
     sys_calls s' i = Some (Returned h (Inr a')) \<and> addr_string a' = addr_string a"
proof -
  let ?t = "handle_resolve h a (sys_store s)"
  obtain a' where a': "get_addr h ?t = Inr a'" "addr_string a' = addr_string a"
    using get_addr_handle_resolve [OF assms(2)] by blast
  have "rs_update ?t" using assms(2) by (simp add: handle_resolve_def Let_def)
  moreover have "get_addr h (?t\<lparr>rs_update := False\<rparr>) = Inr a'" using a' by (simp add: get_addr_def)
  ultimately show ?thesis using assms a' by (simp add: set_call_def)
qed

theorem waiting_call_gets_the_report_witness:
  "\<exists>s' a'. run_labels [Handle ''fern'' sample_addr, Wake 3, LookUp 3]
       \<lparr>sys_store = resolve_add ''fern'' new_resolve_store, sys_calls = [3 \<mapsto> Waiting ''fern'']\<rparr> =
       Some s' \<and>
     sys_calls s' 3 = Some (Returned ''fern'' (Inr a')) \<and> addr_string a' = addr_string sample_addr"
  by (rule waiting_call_gets_the_report) (simp_all add: resolve_add_def)

text \<open>
  C37. A call that waits for a known host fails with no data, long before its timeout, when an
  address is reported for any other known host: the call takes the one update, finds nothing for
  its own host and returns, because its wait never goes around a second time.
\<close>

theorem report_for_another_host_fails_the_wait:
  assumes "sys_calls s i = Some (Waiting h)" and "h' \<in> rs_known (sys_store s)" and "h' \<noteq> h"
    and "rs_addrs (sys_store s) h = None"
  shows "\<exists>s'. run_labels [Handle h' a, Wake i, LookUp i] s = Some s' \<and>
     sys_calls s' i = Some (Returned h (Inl (Status StatusNoData)))"
proof -
  let ?t = "handle_resolve h' a (sys_store s)"
  have "rs_update ?t" using assms(2) by (simp add: handle_resolve_def Let_def)
  moreover have "get_addr h ?t = Inl (Status StatusNoData)"
    using get_addr_handle_other [of h h' a "sys_store s"] assms by (simp add: get_addr_def)
  then have "get_addr h (?t\<lparr>rs_update := False\<rparr>) = Inl (Status StatusNoData)"
    by (simp add: get_addr_def)
  ultimately show ?thesis using assms by (simp add: set_call_def)
qed

theorem report_for_another_host_fails_the_wait_witness:
  "\<exists>s. resolve_exec [AddHost ''fern'', AddHost ''ivy'', Call 0 ''fern''] s \<and>
     (\<exists>s'. run_labels [Handle ''ivy'' sample_addr, Wake 0, LookUp 0] s = Some s' \<and>
        sys_calls s' 0 = Some (Returned ''fern'' (Inl (Status StatusNoData))))"
proof -
  let ?ls = "[AddHost ''fern'', AddHost ''ivy'', Call 0 ''fern'']"
  let ?s = "\<lparr>sys_store = \<lparr>rs_update = False, rs_known = {''ivy'', ''fern''}, rs_addrs = Map.empty\<rparr>,
    sys_calls = [0 \<mapsto> Waiting ''fern'']\<rparr>"
  have e: "resolve_exec ?ls ?s"
    using run_labels_exec [OF exec_init, of ?ls ?s]
    by (simp add: init_resolve_sys_def new_resolve_store_def resolve_add_def get_addr_def
        set_call_def)
  have "\<exists>s'. run_labels [Handle ''ivy'' sample_addr, Wake 0, LookUp 0] ?s = Some s' \<and>
      sys_calls s' 0 = Some (Returned ''fern'' (Inl (Status StatusNoData)))"
    by (rule report_for_another_host_fails_the_wait) simp_all
  with e show ?thesis by blast
qed

text \<open>
  The mDNS handler resolves a service exactly when it announces one address (of its IPv4
  addresses, of its IPv6 ones when it has none), under the host name without its final dot, and
  refuses every other service without touching the store.
\<close>

theorem resolve_handler_takes_single_addresses:
  "resolve_handle_service svc s =
     (case (if svc_AddrsIPv4 svc = [] then svc_AddrsIPv6 svc else svc_AddrsIPv4 svc) of
        [ip] \<Rightarrow> (Ret None, handle_resolve (trim_suffix (svc_Hostname svc) ''.'') (IPAddr ip) s)
      | _ \<Rightarrow> (Ret (Some (Status StatusNotSupported)), s))"
  by (auto simp: resolve_handle_service_def Let_def split: list.splits)

end
