(* ===== verification/GoUrl.thy ===== *)
theory GoUrl
  imports GoLib
begin

text \<open>
  What the program uses of Go's \<^verbatim>\<open>net/url\<close>: \<^verbatim>\<open>Parse\<close> with \<^verbatim>\<open>Scheme\<close>,
  \<^verbatim>\<open>Hostname()\<close>, \<^verbatim>\<open>Port()\<close> and \<^verbatim>\<open>RawQuery\<close> of its result, and \<^verbatim>\<open>Query().Get\<close>. The functions follow
  the library's algorithm (fragment, control bytes, scheme, query, authority, path, in this
  order) because a device is accepted or refused by it. A \<^verbatim>\<open>url.Error\<close> is the message of the
  error and the text it quotes.
\<close>

section \<open>Unescaping\<close>

definition char_code :: "char \<Rightarrow> nat" where
  "char_code c = of_char c"

definition is_lower :: "char \<Rightarrow> bool" where
  "is_lower c \<longleftrightarrow> 97 \<le> char_code c \<and> char_code c \<le> 122"

definition is_upper :: "char \<Rightarrow> bool" where
  "is_upper c \<longleftrightarrow> 65 \<le> char_code c \<and> char_code c \<le> 90"

definition is_digit :: "char \<Rightarrow> bool" where
  "is_digit c \<longleftrightarrow> 48 \<le> char_code c \<and> char_code c \<le> 57"

definition unhex :: "char \<Rightarrow> nat option" where
  "unhex c =
     (let n = char_code c
      in if 48 \<le> n \<and> n \<le> 57 then Some (n - 48)
         else if 97 \<le> n \<and> n \<le> 102 then Some (n - 87)
         else if 65 \<le> n \<and> n \<le> 70 then Some (n - 55) else None)"

datatype escape_mode = EncodePlain | EncodeHost | EncodeZone | EncodeQuery

text \<open>Bytes that need no escape in a host name.\<close>

definition host_byte_ok :: "char \<Rightarrow> bool" where
  "host_byte_ok c \<longleftrightarrow>
     is_lower c \<or> is_upper c \<or> is_digit c \<or>
     c \<in> set ''!$&()*+,;=:[]<>-_.~'' \<or> char_code c = 34 \<or> char_code c = 39"

fun unescape :: "escape_mode \<Rightarrow> string \<Rightarrow> err + string" where
  "unescape mode [] = Inr []"
| "unescape mode (c # s) =
     (if c = CHR ''%'' then
        (case s of
           a # b # s' \<Rightarrow>
             (case (unhex a, unhex b) of
                (Some x, Some y) \<Rightarrow>
                  (if mode = EncodeHost \<and> x < 8 \<and> [a, b] \<noteq> ''25''
                      \<or> mode = EncodeZone \<and> [a, b] \<noteq> ''25'' \<and> char_of (x * 16 + y) \<noteq> CHR '' ''
                        \<and> \<not> host_byte_ok (char_of (x * 16 + y))
                   then Inl (UrlError ''invalid URL escape'' [CHR ''%'', a, b])
                   else (case unescape mode s' of
                           Inl e \<Rightarrow> Inl e
                         | Inr t \<Rightarrow> Inr (char_of (x * 16 + y) # t)))
              | _ \<Rightarrow> Inl (UrlError ''invalid URL escape'' [CHR ''%'', a, b]))
         | _ \<Rightarrow> Inl (UrlError ''invalid URL escape'' (CHR ''%'' # s)))
      else if (mode = EncodeHost \<or> mode = EncodeZone) \<and> char_code c < 128 \<and> \<not> host_byte_ok c
      then Inl (UrlError ''invalid character in host name'' [c])
      else (case unescape mode s of
              Inl e \<Rightarrow> Inl e
            | Inr t \<Rightarrow> Inr ((if mode = EncodeQuery \<and> c = CHR ''+'' then CHR '' '' else c) # t)))"

section \<open>Query parameters\<close>

text \<open>
  \<^verbatim>\<open>u.Query()\<close>: the pairs of a raw query, in order; malformed pairs are skipped.
\<close>

definition query_pair :: "string \<Rightarrow> (string \<times> string) option" where
  "query_pair p =
     (if p = '''' \<or> CHR '';'' \<in> set p then None
      else (case cut_char CHR ''='' p of
              (k, v, _) \<Rightarrow>
                (case (unescape EncodeQuery k, unescape EncodeQuery v) of
                   (Inr k, Inr v) \<Rightarrow> Some (k, v)
                 | _ \<Rightarrow> None)))"

definition parse_query :: "string \<Rightarrow> (string \<times> string) list" where
  "parse_query raw = List.map_filter query_pair (split_char CHR ''&'' raw)"

text \<open>\<^verbatim>\<open>u.Query().Get(key)\<close>: the first value of the key counts.\<close>

definition query_get :: "string \<Rightarrow> string \<Rightarrow> string" where
  "query_get raw key =
     (case map_of (parse_query raw) key of
        Some v \<Rightarrow> v
      | None \<Rightarrow> '''')"

text \<open>
  The \<^verbatim>\<open>RawQuery\<close> of the URL that \<^verbatim>\<open>Parse\<close> makes of a text: what follows the first
  question mark, up to the fragment.
\<close>

definition raw_query :: "string \<Rightarrow> string" where
  "raw_query raw = fst (snd (cut_char CHR ''?'' (fst (cut_char CHR ''#'' raw))))"

section \<open>Parse\<close>

record url =
  url_Scheme :: string
  url_Host :: string

text \<open>Split at the last occurrence of a byte.\<close>

definition cut_last :: "char \<Rightarrow> string \<Rightarrow> (string \<times> string) option" where
  "cut_last c s =
     (case cut_char c (rev s) of
        (b, a, True) \<Rightarrow> Some (rev a, rev b)
      | _ \<Rightarrow> None)"

text \<open>
  \<^verbatim>\<open>getScheme\<close>: the scheme and what follows it; a name that cannot be a scheme means that there
  is none.
\<close>

fun scheme_loop :: "string \<Rightarrow> string \<Rightarrow> string \<Rightarrow> err + (string \<times> string)" where
  "scheme_loop raw seen [] = Inr ('''', raw)"
| "scheme_loop raw seen (c # s) =
     (if is_lower c \<or> is_upper c then scheme_loop raw (seen @ [c]) s
      else if is_digit c \<or> c \<in> set ''+-.'' then
        (if seen = '''' then Inr ('''', raw) else scheme_loop raw (seen @ [c]) s)
      else if c = CHR '':'' then
        (if seen = '''' then Inl (UrlError ''missing protocol scheme'' '''') else Inr (seen, s))
      else Inr ('''', raw))"

definition to_lower :: "string \<Rightarrow> string" where
  "to_lower s = map (\<lambda>c. if is_upper c then char_of (char_code c + 32) else c) s"

definition valid_optional_port :: "string \<Rightarrow> bool" where
  "valid_optional_port p =
     (case p of [] \<Rightarrow> True | c # ds \<Rightarrow> c = CHR '':'' \<and> list_all is_digit ds)"

definition valid_userinfo :: "string \<Rightarrow> bool" where
  "valid_userinfo = list_all (\<lambda>c. is_lower c \<or> is_upper c \<or> is_digit c \<or>
     c \<in> set ''-._:~!$&()*+,;=%@'' \<or> char_code c = 39)"

text \<open>Where the text \<^verbatim>\<open>%25\<close> that starts a zone begins, if it occurs.\<close>

fun zone_index :: "string \<Rightarrow> nat option" where
  "zone_index [] = None"
| "zone_index (c # s) =
     (if has_prefix (c # s) ''%25'' then Some 0 else map_option Suc (zone_index s))"

definition parse_host :: "string \<Rightarrow> err + string" where
  "parse_host host =
     (if has_prefix host ''['' then
        (case cut_last CHR '']'' host of
           None \<Rightarrow> Inl (UrlError ''missing ']' in host'' '''')
         | Some (inner, colon_port) \<Rightarrow>
             (if \<not> valid_optional_port colon_port
              then Inl (UrlError ''invalid port after host'' colon_port)
              else (case zone_index inner of
                      Some i \<Rightarrow>
                        (case (unescape EncodeHost (take i host), unescape EncodeZone (drop i inner),
                               unescape EncodeHost (CHR '']'' # colon_port)) of
                           (Inl e, _, _) \<Rightarrow> Inl e
                         | (_, Inl e, _) \<Rightarrow> Inl e
                         | (_, _, Inl e) \<Rightarrow> Inl e
                         | (Inr a, Inr b, Inr c) \<Rightarrow> Inr (a @ b @ c))
                    | None \<Rightarrow> unescape EncodeHost host)))
      else (case cut_last CHR '':'' host of
              Some (_, p) \<Rightarrow>
                (if \<not> valid_optional_port (CHR '':'' # p)
                 then Inl (UrlError ''invalid port after host'' (CHR '':'' # p))
                 else unescape EncodeHost host)
            | None \<Rightarrow> unescape EncodeHost host))"

definition parse_authority :: "string \<Rightarrow> err + string" where
  "parse_authority authority =
     (case cut_last CHR ''@'' authority of
        None \<Rightarrow> parse_host authority
      | Some (userinfo, host) \<Rightarrow>
          (case parse_host host of
             Inl e \<Rightarrow> Inl e
           | Inr h \<Rightarrow>
               (if \<not> valid_userinfo userinfo
                then Inl (UrlError ''net/url: invalid userinfo'' '''')
                else (case unescape EncodePlain userinfo of Inl e \<Rightarrow> Inl e | Inr _ \<Rightarrow> Inr h))))"

text \<open>The query is cut off, or the lone final question mark dropped: the rest is the same.\<close>

definition parse_no_fragment :: "string \<Rightarrow> err + url" where
  "parse_no_fragment raw =
     (if list_ex (\<lambda>c. char_code c < 32 \<or> char_code c = 127) raw
      then Inl (UrlError ''net/url: invalid control character in URL'' '''')
      else if raw = ''*'' then Inr \<lparr>url_Scheme = '''', url_Host = ''''\<rparr>
      else (case scheme_loop raw '''' raw of
         Inl e \<Rightarrow> Inl e
       | Inr (scheme, rst) \<Rightarrow>
           (let scheme = to_lower scheme; rst = fst (cut_char CHR ''?'' rst)
            in if \<not> has_prefix rst ''/'' \<and> scheme \<noteq> ''''
               then Inr \<lparr>url_Scheme = scheme, url_Host = ''''\<rparr>
               else if \<not> has_prefix rst ''/'' \<and> CHR '':'' \<in> set (fst (cut_char CHR ''/'' rst))
               then Inl (UrlError ''first path segment in URL cannot contain colon'' '''')
               else if (scheme \<noteq> '''' \<or> \<not> has_prefix rst ''///'') \<and> has_prefix rst ''//''
               then (let auth = takeWhile (\<lambda>c. c \<noteq> CHR ''/'') (drop 2 rst);
                         path = dropWhile (\<lambda>c. c \<noteq> CHR ''/'') (drop 2 rst)
                     in case parse_authority auth of
                          Inl e \<Rightarrow> Inl e
                        | Inr host \<Rightarrow>
                            (case unescape EncodePlain path of
                               Inl e \<Rightarrow> Inl e
                             | Inr _ \<Rightarrow> Inr \<lparr>url_Scheme = scheme, url_Host = host\<rparr>))
               else (case unescape EncodePlain rst of
                       Inl e \<Rightarrow> Inl e
                     | Inr _ \<Rightarrow> Inr \<lparr>url_Scheme = scheme, url_Host = ''''\<rparr>))))"

definition url_parse :: "string \<Rightarrow> err + url" where
  "url_parse raw =
     (case cut_char CHR ''#'' raw of
        (u, fragment, _) \<Rightarrow>
          (case parse_no_fragment u of
             Inl e \<Rightarrow> Inl e
           | Inr v \<Rightarrow> (case unescape EncodePlain fragment of Inl e \<Rightarrow> Inl e | Inr _ \<Rightarrow> Inr v)))"

text \<open>\<^verbatim>\<open>splitHostPort\<close>, \<^verbatim>\<open>Hostname()\<close> and \<^verbatim>\<open>Port()\<close>.\<close>

definition split_host_port :: "string \<Rightarrow> string \<times> string" where
  "split_host_port host_port =
     (case (case cut_last CHR '':'' host_port of
              Some (h, p) \<Rightarrow>
                (if valid_optional_port (CHR '':'' # p) then (h, p) else (host_port, ''''))
            | None \<Rightarrow> (host_port, '''')) of
        (host, port) \<Rightarrow>
          (if has_prefix host ''['' \<and> has_suffix host '']''
           then (take (length host - 2) (drop 1 host), port) else (host, port)))"

definition url_hostname :: "url \<Rightarrow> string" where
  "url_hostname u = fst (split_host_port (url_Host u))"

definition url_port :: "url \<Rightarrow> string" where
  "url_port u = snd (split_host_port (url_Host u))"

lemma url_parse_example:
  "url_parse ''http://bonsai-growlab.local:12345/api/v1'' =
     Inr \<lparr>url_Scheme = ''http'', url_Host = ''bonsai-growlab.local:12345''\<rparr>"
  by code_simp

lemma url_port_example:
  "url_port \<lparr>url_Scheme = ''http'', url_Host = ''bonsai-growlab.local:12345''\<rparr> = ''12345''"
  "url_hostname \<lparr>url_Scheme = ''http'', url_Host = ''bonsai-growlab.local:12345''\<rparr> =
     ''bonsai-growlab.local''"
  by code_simp+

section \<open>The errors of Parse\<close>

lemma unescape_error: "unescape mode s = Inl e \<Longrightarrow> \<exists>a b. e = UrlError a b"
  by (induction mode s arbitrary: e rule: unescape.induct)
    (fastforce split: if_splits list.splits option.splits sum.splits)+

lemma scheme_loop_error: "scheme_loop raw seen s = Inl e \<Longrightarrow> \<exists>a b. e = UrlError a b"
  by (induction raw seen s rule: scheme_loop.induct) (auto split: if_splits)

lemma parse_host_error: "parse_host h = Inl e \<Longrightarrow> \<exists>a b. e = UrlError a b"
  by (auto simp: parse_host_def dest: unescape_error split: if_splits option.splits sum.splits)

lemma parse_authority_error: "parse_authority h = Inl e \<Longrightarrow> \<exists>a b. e = UrlError a b"
  by (auto simp: parse_authority_def dest: unescape_error parse_host_error
      split: if_splits option.splits sum.splits)

lemma parse_no_fragment_error: "parse_no_fragment s = Inl e \<Longrightarrow> \<exists>a b. e = UrlError a b"
  by (auto simp: parse_no_fragment_def Let_def
      dest: unescape_error scheme_loop_error parse_authority_error
      split: if_splits sum.splits prod.splits)

lemma url_parse_error: "url_parse s = Inl e \<Longrightarrow> \<exists>a b. e = UrlError a b"
  by (auto simp: url_parse_def dest: unescape_error parse_no_fragment_error
      split: sum.splits prod.splits)

end
