(* ===== verification/GoQuery.thy ===== *)
theory GoQuery
  imports GoUrl "HOL-Library.List_Lexorder" "HOL-Library.Char_ord"
begin

text \<open>
  What the clock of a device uses of \<^verbatim>\<open>url.Values\<close> beyond reading: \<^verbatim>\<open>Set\<close> and
  \<^verbatim>\<open>Encode\<close>, after the library's algorithms. A value of the type is the list of its pairs in
  the order of the query; only the order of the values of one key matters. A query that is encoded
  is read back as the same pairs.
\<close>

section \<open>Escaping\<close>

definition hex_char :: "nat \<Rightarrow> char" where
  "hex_char n = (if n < 10 then char_of (48 + n) else char_of (55 + n))"

text \<open>\<^verbatim>\<open>QueryEscape\<close>, byte by byte.\<close>

definition escape_char :: "char \<Rightarrow> string" where
  "escape_char c =
     (if is_lower c \<or> is_upper c \<or> is_digit c \<or> c \<in> set ''-_.~'' then [c]
      else if c = CHR '' '' then ''+''
      else [CHR ''%'', hex_char (char_code c div 16), hex_char (char_code c mod 16)])"

definition query_escape :: "string \<Rightarrow> string" where
  "query_escape s = concat (map escape_char s)"

definition query_set :: "string \<Rightarrow> string \<Rightarrow> (string \<times> string) list \<Rightarrow> (string \<times> string) list" where
  "query_set key v ps = filter (\<lambda>p. fst p \<noteq> key) ps @ [(key, v)]"

text \<open>\<^verbatim>\<open>Encode\<close> writes the keys in their order, the values of a key in the order they have.\<close>

definition encode_pair :: "string \<times> string \<Rightarrow> string" where
  "encode_pair p = query_escape (fst p) @ CHR ''='' # query_escape (snd p)"

definition query_encode :: "(string \<times> string) list \<Rightarrow> string" where
  "query_encode ps = join_char CHR ''&'' (map encode_pair (sort_key fst ps))"

section \<open>Encoded queries are read back\<close>

lemma char_code_inject: "char_code c = char_code d \<longleftrightarrow> c = d"
  by (simp add: char_code_def)

lemma char_code_hex:
  "n < 16 \<Longrightarrow> char_code (hex_char n) = (if n < 10 then 48 + n else 55 + n)"
  by (simp add: hex_char_def char_code_def)

lemma separator_codes: "c \<in> set ''%+&=;'' \<longleftrightarrow> char_code c \<in> {37, 43, 38, 61, 59}"
proof -
  have "char_code CHR ''%'' = 37" "char_code CHR ''+'' = 43" "char_code CHR ''&'' = 38" "char_code CHR ''='' = 61" "char_code CHR '';'' = 59"
    by code_simp+
  then show ?thesis by (simp flip: char_code_inject)
qed

lemma hex_char_reads:
  assumes "n < 16"
  shows "unhex (hex_char n) = Some n" "hex_char n \<notin> set ''%+&=;''"
  using assms unfolding separator_codes by (auto simp: unhex_def Let_def char_code_hex)

lemma unescaped_plain:
  assumes "is_lower c \<or> is_upper c \<or> is_digit c \<or> c \<in> set ''-_.~''"
  shows "c \<notin> set ''%+&=;''"
proof -
  have "char_code CHR ''-'' = 45" "char_code CHR ''_'' = 95" "char_code CHR ''.'' = 46" "char_code CHR ''~'' = 126"
    by code_simp+
  then have "c \<in> set ''-_.~'' \<longleftrightarrow> char_code c \<in> {45, 95, 46, 126}" by (simp flip: char_code_inject)
  then show ?thesis using assms unfolding separator_codes is_lower_def is_upper_def is_digit_def by auto
qed
text \<open>The three forms of an escaped byte.\<close>

lemma escape_char_cases:
  obtains (plain) "escape_char c = [c]" "c \<notin> set ''%+&=;''"
  | (blank) "escape_char c = ''+''" "c = CHR '' ''"
  | (hex) a b x y where "escape_char c = [CHR ''%'', a, b]" "unhex a = Some x" "unhex b = Some y"
      "char_of (x * 16 + y) = c" "a \<notin> set ''%+&=;''" "b \<notin> set ''%+&=;''"
proof (cases "is_lower c \<or> is_upper c \<or> is_digit c \<or> c \<in> set ''-_.~''")
  case True
  then have "escape_char c = [c]" by (simp only: escape_char_def if_True)
  from plain [OF this unescaped_plain [OF True]] show thesis .
next
  case plain: False
  show thesis
  proof (cases "c = CHR '' ''")
    case True
    with plain blank show thesis by (simp only: escape_char_def if_False if_True)
  next
    case False
    let ?x = "char_code c div 16" and ?y = "char_code c mod 16"
    have "char_code c < 16 * 16" using nat_of_char_less_256 [of c] by (simp add: char_code_def)
    then have code: "?x < 16" "?y < 16" by (simp_all add: less_mult_imp_div_less)
    have "escape_char c = [CHR ''%'', hex_char ?x, hex_char ?y]"
      using plain False by (simp only: escape_char_def if_False)
    moreover have "char_of (?x * 16 + ?y) = c" by (simp add: char_code_def)
    ultimately show thesis
      using hex hex_char_reads [OF code(1)] hex_char_reads [OF code(2)] by blast
  qed
qed

lemma unescape_escape_char:
  "unescape EncodeQuery (escape_char c @ s) =
     (case unescape EncodeQuery s of Inl e \<Rightarrow> Inl e | Inr t \<Rightarrow> Inr (c # t))"
  by (cases c rule: escape_char_cases) (simp_all split: sum.split)

lemma unescape_query_escape: "unescape EncodeQuery (query_escape s) = Inr s"
  by (induction s) (simp_all add: query_escape_def unescape_escape_char)

lemma escape_char_chars: "d \<in> set (escape_char c) \<Longrightarrow> d \<notin> set ''&=;''"
  by (cases c rule: escape_char_cases) auto

lemma query_escape_chars: "d \<in> set (query_escape s) \<Longrightarrow> d \<notin> set ''&=;''"
  using escape_char_chars unfolding query_escape_def by auto

lemma encode_pair_chars:
  "CHR ''&'' \<notin> set (encode_pair p)" "CHR '';'' \<notin> set (encode_pair p)" "encode_pair p \<noteq> ''''"
  using query_escape_chars [of _ "fst p"] query_escape_chars [of _ "snd p"]
  by (fastforce simp: encode_pair_def)+

lemma cut_char_first: "c \<notin> set a \<Longrightarrow> cut_char c (a @ c # b) = (a, b, True)"
  by (induction a) auto

lemma query_pair_encode: "query_pair (encode_pair p) = Some p"
proof -
  have "CHR ''='' \<notin> set (query_escape (fst p))" using query_escape_chars [of _ "fst p"] by fastforce
  then have "cut_char CHR ''='' (encode_pair p) = (query_escape (fst p), query_escape (snd p), True)"
    by (simp add: encode_pair_def cut_char_first)
  then show ?thesis
    using encode_pair_chars [of p] by (simp add: query_pair_def unescape_query_escape)
qed

lemma split_join_char:
  "ts \<noteq> [] \<Longrightarrow> \<forall>t \<in> set ts. c \<notin> set t \<Longrightarrow> split_char c (join_char c ts) = ts"
  by (induction ts rule: induct_list012) (simp_all add: split_char_absent split_char_once)

lemma parse_query_encode: "parse_query (query_encode ps) = sort_key fst ps"
proof (cases "sort_key fst ps")
  case Nil
  then show ?thesis by (simp add: query_encode_def parse_query_def List.map_filter_def query_pair_def)
next
  case (Cons p qs)
  then have "split_char CHR ''&'' (query_encode ps) = map encode_pair (sort_key fst ps)"
    unfolding query_encode_def by (intro split_join_char) (auto simp: encode_pair_chars)
  then show ?thesis
    by (simp add: parse_query_def List.map_filter_def query_pair_encode comp_def)
qed

lemma query_set_sole:
  "(key, v) \<in> set (query_set key v ps)" "(key, w) \<in> set (query_set key v ps) \<Longrightarrow> w = v"
  by (simp_all add: query_set_def)

text \<open>The value that was set is the one a reader of the encoded query gets.\<close>

lemma query_get_set: "query_get (query_encode (query_set key v ps)) key = v"
proof -
  have "(key, v) \<in> set (sort_key fst (query_set key v ps))" by (simp only: set_sort query_set_sole(1))
  then obtain w where w: "map_of (sort_key fst (query_set key v ps)) key = Some w"
    using weak_map_of_SomeI by fastforce
  from map_of_SomeD [OF this] have "w = v" by (simp only: set_sort query_set_sole(2))
  then show ?thesis
    by (simp only: query_get_def parse_query_encode w option.case)
qed

end
