(* ===== verification/Durations.thy ===== *)
theory Durations
  imports Complex_Main Prelude
begin

text \<open>
  \<^verbatim>\<open>int64(d.Seconds())\<close> for a \<^verbatim>\<open>time.Duration\<close>, as \<^verbatim>\<open>DriftTimeVerifier\<close> computes it: the
  standard library adds two \<^verbatim>\<open>float64\<close> values, so the rounding of binary floating point is
  written out (round to nearest, ties to even, 53 bits; the values met are far from the limits
  of the exponent). Below about 48 days the result is the whole number of seconds; a long
  duration can be rounded up to the next second.
\<close>

section \<open>Rounding to 53 bits\<close>

text \<open>The exponent \<open>e\<close> with \<open>2\<^sup>e \<le> x < 2\<^sup>e\<^sup>+\<^sup>1\<close>, for \<open>x\<close> between \<open>2\<^sup>-\<^sup>k\<close> and \<open>2\<^sup>k\<^sup>+\<^sup>1\<close>.\<close>

fun binade :: "nat \<Rightarrow> rat \<Rightarrow> int" where
  "binade 0 x = 0"
| "binade (Suc k) x =
     (if x < 1 then binade k (2 * x) - 1 else if 2 \<le> x then binade k (x / 2) + 1 else 0)"

definition round_half_even :: "rat \<Rightarrow> int" where
  "round_half_even x =
     (let f = \<lfloor>x\<rfloor>; r = x - of_int f
      in if r < 1 / 2 \<or> (r = 1 / 2 \<and> even f) then f else f + 1)"

definition float64 :: "rat \<Rightarrow> rat" where
  "float64 x =
     (if x = 0 then 0
      else (let e = binade 1100 \<bar>x\<bar> - 52
            in sgn x * (of_int (round_half_even (\<bar>x\<bar> / 2 powi e)) * 2 powi e)))"

text \<open>Go's conversion of a float to \<^verbatim>\<open>int64\<close>: truncation; out of range it is up to the platform.\<close>

definition int64_of_float :: "(rat \<Rightarrow> i64) \<Rightarrow> rat \<Rightarrow> i64" where
  "int64_of_float out_of_range x =
     (let n = (if 0 \<le> x then \<lfloor>x\<rfloor> else \<lceil>x\<rceil>)
      in if - (2 ^ 63) \<le> n \<and> n < 2 ^ 63 then word_of_int n else out_of_range x)"

section \<open>Seconds of a duration\<close>

definition go_quot :: "int \<Rightarrow> int \<Rightarrow> int" where
  "go_quot a b = sgn a * (\<bar>a\<bar> div b)"

definition go_rem :: "int \<Rightarrow> int \<Rightarrow> int" where
  "go_rem a b = a - go_quot a b * b"

definition duration_seconds :: "i64 \<Rightarrow> rat" where
  "duration_seconds d =
     float64 (float64 (of_int (go_quot (sint d) 1000000000)) +
              float64 (float64 (of_int (go_rem (sint d) 1000000000)) / 1000000000))"

definition int64_seconds :: "i64 \<Rightarrow> i64" where
  "int64_seconds d = int64_of_float (\<lambda>_. 0) (duration_seconds d)"

section \<open>The rounding error\<close>

lemma binade_bounds:
  "1 / 2 ^ k \<le> x \<Longrightarrow> x < 2 ^ Suc k \<Longrightarrow>
   (2 :: rat) powi binade k x \<le> x \<and> x < 2 powi (binade k x + 1)"
proof (induction k arbitrary: x)
  case (Suc k)
  consider "x < 1" | "2 \<le> x" | "1 \<le> x" "x < 2" by linarith
  then show ?case
  proof cases
    case 1
    have "1 / 2 ^ k \<le> 2 * x" using Suc.prems by (simp add: field_simps)
    moreover have "x < 2 ^ k" using 1 one_le_power [of "2 :: rat" k] by linarith
    then have "2 * x < 2 ^ Suc k" by simp
    ultimately show ?thesis
      using Suc.IH [of "2 * x"] 1 by (simp add: power_int_diff power_int_add field_simps)
  next
    case 2
    have "1 / 2 ^ k \<le> (1 :: rat)" by simp
    then have "1 / 2 ^ k \<le> x / 2" using 2 by linarith
    moreover have "x / 2 < 2 ^ Suc k" using Suc.prems by simp
    ultimately show ?thesis
      using Suc.IH [of "x / 2"] 2 by (simp add: power_int_add field_simps)
  qed simp
qed simp

lemma round_half_even_error: "\<bar>of_int (round_half_even x) - x\<bar> \<le> 1 / 2"
  unfolding round_half_even_def Let_def by (simp add: abs_if) linarith

lemma round_half_even_of_int [simp]: "round_half_even (of_int k) = k"
  by (simp add: round_half_even_def)

lemma powi_split: "(2 :: rat) powi (e - 53) = 2 powi (e - 52) / 2"
proof -
  have "(2 :: rat) powi (e - 52) = 2 powi ((e - 53) + 1)" by simp
  also have "\<dots> = 2 powi (e - 53) * 2" by (subst power_int_add_1) auto
  finally show ?thesis by simp
qed

lemma float64_error:
  assumes "0 < x" "x < 2 powi n" "1 / 2 ^ 1100 \<le> x" "n \<le> 60"
  shows "\<bar>float64 x - x\<bar> \<le> 2 powi (n - 54)"
proof -
  let ?e = "binade 1100 x"
  have "x < 2 ^ Suc 1100"
  proof -
    have "(2 :: rat) powi n \<le> 2 powi (int (Suc 1100))"
      using assms(4) by (intro power_int_increasing) auto
    then show ?thesis using assms(2) by (simp only: power_int_of_nat)
  qed
  then have b: "(2 :: rat) powi ?e \<le> x" using binade_bounds [OF assms(3)] by blast
  then have "(2 :: rat) powi ?e < 2 powi n" using assms(2) by linarith
  then have "?e < n"
    using power_int_increasing [of n ?e "2 :: rat"] by (cases "?e < n") auto
  let ?p = "(2 :: rat) powi (?e - 52)"
  have p: "0 < ?p" by simp
  have f: "float64 x = of_int (round_half_even (x / ?p)) * ?p"
    using assms(1) by (simp add: float64_def Let_def)
  have "float64 x - x = (of_int (round_half_even (x / ?p)) - x / ?p) * ?p"
    using p by (simp add: f left_diff_distrib)
  then have "\<bar>float64 x - x\<bar> = \<bar>of_int (round_half_even (x / ?p)) - x / ?p\<bar> * ?p"
    using p by (simp add: abs_mult)
  also have "\<dots> \<le> 1 / 2 * ?p"
    using round_half_even_error [of "x / ?p"] p by (intro mult_right_mono) auto
  also have "\<dots> = 2 powi (?e - 53)" by (simp add: powi_split)
  also have "\<dots> \<le> 2 powi (n - 54)"
    using \<open>?e < n\<close> by (intro power_int_increasing) auto
  finally show ?thesis .
qed

lemma float64_of_int:
  assumes "0 \<le> z" "z < 2 ^ 53"
  shows "float64 (of_int z) = of_int z"
proof (cases "z = 0")
  case False
  let ?x = "of_int z :: rat" and ?e = "binade 1100 (of_int z)"
  have x: "1 \<le> ?x" "?x < 2 ^ 53" using assms False by auto
  have "(1 :: rat) / 2 ^ 1100 \<le> 1" by simp
  then have "1 / 2 ^ 1100 \<le> ?x" using x(1) by linarith
  moreover have "(2 :: rat) ^ 53 < 2 ^ Suc 1100" by (intro power_strict_increasing) auto
  ultimately have "(2 :: rat) powi ?e \<le> ?x" using binade_bounds [of 1100 ?x] x(2) by linarith
  then have "(2 :: rat) powi ?e < 2 powi 53" using x(2) by simp
  then have "?e < 53"
    using power_int_increasing [of 53 ?e "2 :: rat"] by (cases "?e < 53") auto
  then have k: "?e - 52 = - int (nat (52 - ?e))" by simp
  obtain k where k: "?e - 52 = - int k" using k by blast
  have "?x / 2 powi (?e - 52) = of_int (z * 2 ^ k)"
    by (simp add: k power_int_minus field_simps)
  then have "round_half_even (?x / 2 powi (?e - 52)) = z * 2 ^ k"
    by (simp only: round_half_even_of_int)
  then have "float64 ?x = of_int (z * 2 ^ k) * 2 powi (?e - 52)"
    using x(1) by (simp add: float64_def Let_def)
  then show ?thesis by (simp add: k power_int_minus)
qed (simp add: float64_def)

section \<open>Short durations\<close>

lemma float64_0 [simp]: "float64 0 = 0"
  by (simp add: float64_def)

lemma fraction_close:
  assumes "0 < n" "n < 1000000000"
  shows "\<bar>float64 (of_int n / 1000000000) - of_int n / 1000000000\<bar> \<le> 2 powi (- 54)"
proof -
  have n: "1 \<le> rat_of_int n" using assms(1) by (simp add: int_one_le_iff_zero_less)
  have "(2 :: rat) ^ 30 \<le> 2 ^ 1100" by (rule power_increasing) auto
  then have "(1 :: rat) / 2 ^ 1100 \<le> 1 / 2 ^ 30" by (intro divide_left_mono) auto
  also have "\<dots> \<le> of_int n / 1000000000" using n by simp
  finally show ?thesis using float64_error [of "of_int n / 1000000000" 0] assms by simp
qed

lemma duration_seconds_floor:
  assumes "0 \<le> s" "s < 2 ^ 22" "0 \<le> n" "n < 1000000000"
  shows "\<lfloor>float64 (float64 (of_int s) + float64 (float64 (of_int n) / 1000000000))\<rfloor> = s"
proof -
  have s: "float64 (of_int s) = of_int s" and n: "float64 (of_int n) = of_int n"
    using assms by (auto intro: float64_of_int)
  show ?thesis
  proof (cases "n = 0")
    case True
    then show ?thesis by (simp add: s)
  next
    case False
    let ?x = "rat_of_int n / 1000000000" and ?S = "rat_of_int s"
    let ?q = "float64 ?x"
    have n1: "1 \<le> rat_of_int n" "rat_of_int n \<le> 999999999" using False assms by auto
    have "\<bar>?q - ?x\<bar> \<le> 2 powi (- 54)" using False assms by (intro fraction_close) auto
    also have "(2 :: rat) powi (- 54) = 1 / 2 ^ 54" by simp
    also have "\<dots> \<le> 1 / 10000000000" by simp
    finally have "\<bar>?q - ?x\<bar> \<le> 1 / 10000000000" .
    then have q: "?x - 1 / 10000000000 \<le> ?q" "?q \<le> ?x + 1 / 10000000000"
      by (simp_all only: abs_le_iff) linarith+
    have S: "0 \<le> ?S" "?S \<le> 4194303" using assms by auto
    have x: "1 / 1000000000 \<le> ?x" "?x \<le> 999999999 / 1000000000" using n1 by simp_all
    define y where "y = ?S + ?q"
    have y: "?S + 9 / 10000000000 \<le> y" "y \<le> ?S + 9999999991 / 10000000000"
      using q x unfolding y_def by linarith+
    have sum: "0 < y" "y < 4194304" using y S by linarith+
    have "(2 :: rat) ^ 31 \<le> 2 ^ 1100" by (rule power_increasing) auto
    then have "(1 :: rat) / 2 ^ 1100 \<le> 1 / 2 ^ 31" by (intro divide_left_mono) auto
    also have "\<dots> \<le> 9 / 10000000000" by simp
    also have "\<dots> \<le> y" using y S by linarith
    finally have low: "1 / 2 ^ 1100 \<le> y" .
    have "y < 2 powi 22" using sum(2) by simp
    from float64_error [OF sum(1) this low] have "\<bar>float64 y - y\<bar> \<le> 2 powi (- 32)" by simp
    also have "(2 :: rat) powi (- 32) = 1 / 2 ^ 32" by simp
    also have "\<dots> \<le> 3 / 10000000000" by simp
    finally have "\<bar>float64 y - y\<bar> \<le> 3 / 10000000000" .
    then have "y - 3 / 10000000000 \<le> float64 y" "float64 y \<le> y + 3 / 10000000000"
      by (simp_all only: abs_le_iff) linarith+
    then have "?S \<le> float64 y" "float64 y < ?S + 1" using y by linarith+
    then have "\<lfloor>float64 y\<rfloor> = s" by (simp only: floor_eq_iff)
    then show ?thesis by (simp only: s n y_def)
  qed
qed

lemma int64_seconds_short:
  assumes "0 \<le> sint d" "sint d < 2 ^ 22 * 1000000000"
  shows "sint (int64_seconds d) = sint d div 1000000000"
proof -
  let ?s = "sint d div 1000000000" and ?n = "sint d mod 1000000000"
  have "go_quot (sint d) 1000000000 = ?s"
    using assms(1) by (cases "sint d = 0") (auto simp: go_quot_def sgn_if)
  moreover from this have "go_rem (sint d) 1000000000 = ?n"
    by (simp add: go_rem_def minus_div_mult_eq_mod)
  moreover have s: "0 \<le> ?s" "?s < 2 ^ 22" using assms by auto
  ultimately have f: "\<lfloor>duration_seconds d\<rfloor> = ?s"
    using duration_seconds_floor [of ?s ?n] by (simp add: duration_seconds_def)
  then have "0 \<le> duration_seconds d" using s(1) by (metis of_int_0_le_iff of_int_floor_le order_trans)
  with f s have "int64_seconds d = word_of_int ?s"
    by (simp add: int64_seconds_def int64_of_float_def Let_def)
  with s show ?thesis by (simp add: signed_of_int signed_take_bit_int_eq_self)
qed

end
