(* ===== verification/Clocks.thy ===== *)
theory Clocks
  imports GoLib Durations
begin

text \<open>
  Clocks: the interface \<^verbatim>\<open>syscore.SystemClock\<close> as a record of actions, its in-memory
  implementation \<^verbatim>\<open>stcore.SystemClockRestorer\<close>, \<^verbatim>\<open>syscore.SystemClockSynchronizer\<close> that moves
  the local time to a device, and the verifier of a device's timestamp. The locale
  \<open>persisted_clock\<close> states what the synchronizer relies on: a time that has been recorded is
  never forgotten. The restorer is shown to provide it.
\<close>

section \<open>The interface\<close>

text \<open>\<^verbatim>\<open>SetTimestamp\<close> and \<^verbatim>\<open>GetTimestamp\<close> of a clock in a world \<open>'s\<close>.\<close>

record 's system_clock =
  clock_set :: "i64 \<Rightarrow> ('s, err option) action"
  clock_get :: "('s, err + i64) action"

text \<open>
  \<^verbatim>\<open>syscore.LocalSystemClock\<close>, over the system call \<^verbatim>\<open>settimeofday\<close> with its seconds and
  microseconds, and the UNIX time of \<^verbatim>\<open>time.Now\<close>.
\<close>

definition local_system_clock :: "(i64 \<Rightarrow> i64 \<Rightarrow> ('s, err option) action) \<Rightarrow> ('s, i64) action
    \<Rightarrow> 's system_clock" where
  "local_system_clock settimeofday unix_now =
     \<lparr>clock_set = (\<lambda>timestamp. settimeofday timestamp 0),
      clock_get = and_then unix_now (\<lambda>t s. (Ret (Inr t), s))\<rparr>"

section \<open>SystemClockRestorer\<close>

record clock_restorer =
  cr_restored :: bool
  cr_timestamp :: i64

definition new_clock_restorer :: clock_restorer where
  "new_clock_restorer = \<lparr>cr_restored = False, cr_timestamp = - 1\<rparr>"

definition restorer_set :: "i64 \<Rightarrow> (clock_restorer, err option) action" where
  "restorer_set timestamp r =
     (let r = (if sint (cr_timestamp r) < sint timestamp then r\<lparr>cr_timestamp := timestamp\<rparr> else r);
          r = (if \<not> cr_restored r then r\<lparr>cr_restored := True\<rparr> else r)
      in (Ret None, r))"

definition restorer_get :: "(clock_restorer, err + i64) action" where
  "restorer_get r =
     (if \<not> cr_restored r then (Ret (Inl (Status StatusInvalidState)), r)
      else (Ret (Inr (cr_timestamp r)), r))"

text \<open>
  \<^verbatim>\<open>Run\<close>: the read of the storage happens outside of the lock and is the argument here, the
  value and the error it returned; what follows is one critical section.
\<close>

definition restorer_run :: "i64 \<times> err option \<Rightarrow> (clock_restorer, err option) action" where
  "restorer_run read r =
     (case read of
        (timestamp, e) \<Rightarrow>
          (if e \<noteq> None \<and> e \<noteq> Some (Status StatusNoData) then (Ret e, r)
           else if cr_restored r then (Ret None, r)
           else (Ret None, r\<lparr>cr_restored := True, cr_timestamp := timestamp\<rparr>)))"

text \<open>\<^verbatim>\<open>HandleError\<close> logs every error but one: the result says whether it does.\<close>

definition restorer_handle_error_logs :: "err \<Rightarrow> bool" where
  "restorer_handle_error_logs e \<longleftrightarrow> e \<noteq> Status StatusNoData"

definition restorer_clock :: "clock_restorer system_clock" where
  "restorer_clock = \<lparr>clock_set = restorer_set, clock_get = restorer_get\<rparr>"

text \<open>The calls other goroutines make on a restorer, and sequences of them.\<close>

datatype restorer_op = SetTimestamp i64 | RestorerRun "i64 \<times> err option"

fun restorer_op_run :: "restorer_op \<Rightarrow> clock_restorer \<Rightarrow> clock_restorer" where
  "restorer_op_run (SetTimestamp t) r = snd (restorer_set t r)"
| "restorer_op_run (RestorerRun rd) r = snd (restorer_run rd r)"

section \<open>SystemClockSynchronizer\<close>

definition sync_time :: "'s system_clock \<Rightarrow> 's system_clock \<Rightarrow> 's system_clock
    \<Rightarrow> ('s, err option) action" where
  "sync_time local remote_last remote_curr =
     and_then (clock_get local) (\<lambda>local_ts. case local_ts of
        Inl e \<Rightarrow> (\<lambda>s. (Ret (Some e), s))
      | Inr local_ts \<Rightarrow>
     and_then (clock_get remote_last) (\<lambda>last_ts. case last_ts of
        Inl e \<Rightarrow> (\<lambda>s. (Ret (Some e), s))
      | Inr last_ts \<Rightarrow>
     (if i64_less local_ts last_ts then (\<lambda>s. (Ret (Some (Status StatusError)), s)) else
     and_then (clock_get remote_curr) (\<lambda>curr_ts. case curr_ts of
        Inl e \<Rightarrow> (\<lambda>s. (Ret (Some e), s))
      | Inr curr_ts \<Rightarrow>
     (if i64_less local_ts curr_ts then (\<lambda>s. (Ret (Some (Status StatusError)), s)) else
     and_then (clock_set remote_curr local_ts) (\<lambda>e s. (Ret e, s)))))))"

section \<open>Verifiers\<close>

text \<open>\<^verbatim>\<open>BasicTimeVerifier\<close>.\<close>

definition basic_verify_time :: "i64 \<Rightarrow> ('s, bool) action" where
  "basic_verify_time timestamp s = (Ret (0 < sint timestamp), s)"

text \<open>
  \<^verbatim>\<open>DriftTimeVerifier\<close>; a device that is ahead of the local clock is accepted.
\<close>

definition drift_verify_time :: "'s system_clock \<Rightarrow> i64 \<Rightarrow> i64 \<Rightarrow> ('s, bool) action" where
  "drift_verify_time clock max_drift_interval device_ts =
     (if sint device_ts < 0 then (\<lambda>s. (Ret False, s))
      else and_then (clock_get clock) (\<lambda>local_ts. case local_ts of
             Inl e \<Rightarrow> (\<lambda>s. (Ret False, s))
           | Inr local_ts \<Rightarrow>
               (if i64_less device_ts local_ts
                then (\<lambda>s. (Ret (i64_less (local_ts - device_ts) (int64_seconds max_drift_interval)), s))
                else (\<lambda>s. (Ret True, s)))))"

section \<open>Worlds of two parts\<close>

text \<open>A clock that lives in one part of a larger world.\<close>

definition clock_fst :: "'s system_clock \<Rightarrow> ('s \<times> 'w) system_clock" where
  "clock_fst c = \<lparr>clock_set = (\<lambda>t. lift_fst (clock_set c t)), clock_get = lift_fst (clock_get c)\<rparr>"

definition clock_snd :: "'w system_clock \<Rightarrow> ('s \<times> 'w) system_clock" where
  "clock_snd c = \<lparr>clock_set = (\<lambda>t. lift_snd (clock_set c t)), clock_get = lift_snd (clock_get c)\<rparr>"

lemma clock_fst_simps [simp]:
  "clock_get (clock_fst c) (s, w) = (case clock_get c s of (r, s') \<Rightarrow> (r, (s', w)))"
  "clock_set (clock_fst c) t (s, w) = (case clock_set c t s of (r, s') \<Rightarrow> (r, (s', w)))"
  "clock_get (clock_snd d) (s, w) = (case clock_get d w of (r, w') \<Rightarrow> (r, (s, w')))"
  "clock_set (clock_snd d) t (s, w) = (case clock_set d t w of (r, w') \<Rightarrow> (r, (s, w')))"
  by (simp_all add: clock_fst_def clock_snd_def lift_fst_def lift_snd_def)

text \<open>When, and how, a synchronization succeeds.\<close>

lemma sync_time_OkD:
  assumes "sync_time local recorded device s = (Ret None, s')"
  obtains l s1 p s2 c s3 where "clock_get local s = (Ret (Inr l), s1)"
    "clock_get recorded s1 = (Ret (Inr p), s2)" "\<not> i64_less l p"
    "clock_get device s2 = (Ret (Inr c), s3)" "\<not> i64_less l c"
    "clock_set device l s3 = (Ret None, s')"
proof -
  from assms obtain a s1 where a: "clock_get local s = (Ret a, s1)"
    by (auto simp: sync_time_def and_then_Ret_iff)
  with assms obtain l where l: "a = Inr l" by (cases a) (auto simp: sync_time_def outcome_simps)
  from assms a l obtain b s2 where b: "clock_get recorded s1 = (Ret b, s2)"
    by (auto simp: sync_time_def outcome_simps and_then_Ret_iff)
  with assms a l obtain p where p: "b = Inr p" by (cases b) (auto simp: sync_time_def outcome_simps)
  with assms a l b have lp: "\<not> i64_less l p" by (auto simp: sync_time_def outcome_simps)
  from assms a l b p lp obtain d s3 where d: "clock_get device s2 = (Ret d, s3)"
    by (auto simp: sync_time_def outcome_simps and_then_Ret_iff)
  with assms a l b p lp obtain c where c: "d = Inr c"
    by (cases d) (auto simp: sync_time_def outcome_simps)
  with assms a l b p lp d have lc: "\<not> i64_less l c" by (auto simp: sync_time_def outcome_simps)
  from assms a l b p lp c d lc have "clock_set device l s3 = (Ret None, s')"
    by (auto simp: sync_time_def outcome_simps and_then_Ret_iff)
  with that a l b p lp c d lc show thesis by blast
qed

section \<open>What a clock of persisted time promises\<close>

text \<open>
  The contract of the synchronizer's \<^verbatim>\<open>remoteLast\<close> clock: recording a time makes the clock
  answer with that time or a later one, recording never makes it answer with an earlier one,
  and asking does not change it.
\<close>

locale persisted_clock =
  fixes rec_set :: "i64 \<Rightarrow> ('s, err option) action"
    and rec_get :: "('s, err + i64) action"
  assumes set_then_get: "\<exists>u. rec_get (snd (rec_set t s)) = (Ret (Inr u), snd (rec_set t s)) \<and>
      sint t \<le> sint u"
    and set_keeps: "fst (rec_get s) = Ret (Inr v) \<Longrightarrow>
      \<exists>u. fst (rec_get (snd (rec_set t s))) = Ret (Inr u) \<and> sint v \<le> sint u"
    and get_pure: "snd (rec_get s) = s"
begin

definition record_all :: "i64 list \<Rightarrow> 's \<Rightarrow> 's" where
  "record_all ts s = fold (\<lambda>t s. snd (rec_set t s)) ts s"

lemma record_all_keeps:
  "fst (rec_get s) = Ret (Inr v) \<Longrightarrow>
   \<exists>u. rec_get (record_all ts s) = (Ret (Inr u), record_all ts s) \<and> sint v \<le> sint u"
proof (induction ts arbitrary: s v)
  case Nil
  then show ?case using get_pure [of s] by (cases "rec_get s") (auto simp: record_all_def)
next
  case (Cons t ts)
  from set_keeps [OF Cons.prems, of t] obtain u where
    "fst (rec_get (snd (rec_set t s))) = Ret (Inr u)" "sint v \<le> sint u" by blast
  with Cons.IH [of "snd (rec_set t s)" u] show ?case by (fastforce simp: record_all_def)
qed

lemma record_all_get:
  "t \<in> set ts \<Longrightarrow>
   \<exists>u. rec_get (record_all ts s) = (Ret (Inr u), record_all ts s) \<and> sint t \<le> sint u"
proof (induction ts arbitrary: s)
  case (Cons x xs)
  show ?case
  proof (cases "t \<in> set xs")
    case True
    with Cons.IH [of "snd (rec_set x s)"] show ?thesis by (simp add: record_all_def)
  next
    case False
    with Cons.prems have "x = t" by simp
    with set_then_get [of t s] obtain u where
      "fst (rec_get (snd (rec_set x s))) = Ret (Inr u)" "sint t \<le> sint u" by auto
    with record_all_keeps [of "snd (rec_set x s)" u xs] show ?thesis
      by (fastforce simp: record_all_def)
  qed
qed simp

text \<open>A synchronization that succeeds has set the device to a local time that is no earlier.\<close>

lemma sync_after_record:
  assumes "t \<in> set ts"
    and "sync_time (clock_snd local)
           (clock_fst \<lparr>clock_set = rec_set, clock_get = rec_get\<rparr>) (clock_snd device)
           (record_all ts s, w) = (Ret None, (s', w'))"
  shows "\<exists>l c w1 w2. clock_get local w = (Ret (Inr l), w1) \<and>
     clock_get device w1 = (Ret (Inr c), w2) \<and> clock_set device l w2 = (Ret None, w') \<and>
     sint t \<le> sint l \<and> sint c \<le> sint l \<and> s' = record_all ts s"
proof -
  obtain u where u: "rec_get (record_all ts s) = (Ret (Inr u), record_all ts s)" "sint t \<le> sint u"
    using record_all_get [OF assms(1)] by blast
  from assms(2) show ?thesis
    by (rule sync_time_OkD) (use u in \<open>auto split: prod.splits\<close>)
qed

end

section \<open>The restorer keeps the contract\<close>

interpretation restorer: persisted_clock restorer_set restorer_get
  by unfold_locales (auto simp: restorer_set_def restorer_get_def Let_def split: if_splits)

lemma restorer_op_restored:
  "cr_restored r \<Longrightarrow> cr_restored (restorer_op_run op r)"
  by (cases op) (auto simp: restorer_set_def restorer_run_def Let_def split: prod.splits)

lemma restorer_op_timestamp:
  "cr_restored r \<Longrightarrow> sint (cr_timestamp (restorer_op_run op r)) =
     (case op of SetTimestamp t \<Rightarrow> max (sint (cr_timestamp r)) (sint t)
               | RestorerRun rd \<Rightarrow> sint (cr_timestamp r))"
  by (cases op) (auto simp: restorer_set_def restorer_run_def Let_def split: prod.splits)

lemma restorer_ops_timestamp:
  "cr_restored r \<Longrightarrow> cr_restored (fold restorer_op_run ops r) \<and>
     sint (cr_timestamp (fold restorer_op_run ops r)) =
     fold max [sint t. SetTimestamp t \<leftarrow> ops] (sint (cr_timestamp r))"
proof (induction ops arbitrary: r)
  case (Cons op ops)
  then show ?case
    using restorer_op_restored [of r op] restorer_op_timestamp [of r op]
    by (cases op) (auto simp: max.commute)
qed simp

text \<open>A run of the restoring task that fails: it does not change the clock.\<close>

fun failed_restoring :: "restorer_op \<Rightarrow> bool" where
  "failed_restoring (RestorerRun (p, e)) = (e \<noteq> None \<and> e \<noteq> Some (Status StatusNoData))"
| "failed_restoring (SetTimestamp t) = False"

lemma failed_restoring_skip: "failed_restoring op \<Longrightarrow> restorer_op_run op r = r"
  by (cases op rule: failed_restoring.cases) (auto simp: restorer_run_def)

lemma failed_restorings_dropped:
  "fold restorer_op_run ops r = fold restorer_op_run (dropWhile failed_restoring ops) r"
  by (induction ops) (simp_all add: failed_restoring_skip)

lemma first_restorer_op:
  "\<not> failed_restoring op \<Longrightarrow> restorer_op_run op new_clock_restorer =
     \<lparr>cr_restored = True,
      cr_timestamp = (case op of RestorerRun (p, e) \<Rightarrow> p | SetTimestamp t \<Rightarrow> if - 1 < sint t then t else - 1)\<rparr>"
  by (cases op rule: failed_restoring.cases)
    (auto simp: restorer_run_def restorer_set_def new_clock_restorer_def Let_def)

section \<open>Properties\<close>

text \<open>
  C16. When a synchronization succeeds, the device has been set to the local time, and that time
  is no earlier than any time that was recorded as persisted before and no earlier than the
  device's own time: neither the stored data nor the device is moved back.
\<close>

theorem sync_never_rewinds:
  assumes "t \<in> set ts"
    and "sync_time (clock_snd local) (clock_fst restorer_clock) (clock_snd device)
           (fold (\<lambda>t r. snd (restorer_set t r)) ts r, w) = (Ret None, (r', w'))"
  shows "\<exists>l c w1 w2. clock_get local w = (Ret (Inr l), w1) \<and>
     clock_get device w1 = (Ret (Inr c), w2) \<and> clock_set device l w2 = (Ret None, w') \<and>
     sint t \<le> sint l \<and> sint c \<le> sint l"
  using restorer.sync_after_record [of t ts local device r w r' w'] assms
  by (auto simp: restorer.record_all_def restorer_clock_def)

text \<open>A world with the local time and the time of a device.\<close>

definition two_clocks_local :: "(i64 \<times> i64) system_clock" where
  "two_clocks_local =
     \<lparr>clock_set = (\<lambda>t (l, d). (Ret None, (t, d))), clock_get = (\<lambda>(l, d). (Ret (Inr l), (l, d)))\<rparr>"

definition two_clocks_device :: "(i64 \<times> i64) system_clock" where
  "two_clocks_device =
     \<lparr>clock_set = (\<lambda>t (l, d). (Ret None, (l, t))), clock_get = (\<lambda>(l, d). (Ret (Inr d), (l, d)))\<rparr>"

theorem sync_never_rewinds_witness:
  "sync_time (clock_snd two_clocks_local) (clock_fst restorer_clock) (clock_snd two_clocks_device)
     (fold (\<lambda>t r. snd (restorer_set t r)) [90, 70] new_clock_restorer, (100, 40)) =
   (Ret None, (\<lparr>cr_restored = True, cr_timestamp = 90\<rparr>, (100, 100))) \<and> sint (70 :: i64) \<le> 100"
proof -
  have *: "sync_time (clock_snd two_clocks_local) (clock_fst restorer_clock)
      (clock_snd two_clocks_device)
      (fold (\<lambda>t r. snd (restorer_set t r)) [90, 70] new_clock_restorer, (100, 40)) =
    (Ret None, (\<lparr>cr_restored = True, cr_timestamp = 90\<rparr>, (100, 100)))"
    by (simp add: sync_time_def and_then_def two_clocks_local_def two_clocks_device_def
        restorer_clock_def restorer_get_def restorer_set_def new_clock_restorer_def)
  from sync_never_rewinds [OF _ this, of 70] * show ?thesis
    by (auto simp: two_clocks_local_def)
qed

text \<open>
  Every outcome of a synchronization whose clocks answer: it is refused when the local time
  is behind the persisted time or behind the device, in both cases before the device is
  touched, and otherwise its result is that of setting the device.
\<close>

theorem sync_time_outcomes:
  assumes "clock_get local s = (Ret (Inr l), s1)" and "clock_get recorded s1 = (Ret (Inr p), s2)"
    and "clock_get device s2 = (Ret (Inr c), s3)"
    and "clock_set device l s3 = (Ret e, s4)"
  shows "sync_time local recorded device s =
     (if i64_less l p then (Ret (Some (Status StatusError)), s2)
      else if i64_less l c then (Ret (Some (Status StatusError)), s3)
      else (Ret e, s4))"
  using assms by (simp add: sync_time_def and_then_def)

theorem sync_time_outcomes_witness:
  "sync_time two_clocks_local \<lparr>clock_set = \<lambda>t s. (Ret None, s), clock_get = \<lambda>s. (Ret (Inr 50), s)\<rparr>
     two_clocks_device (60, 70) = (Ret (Some (Status StatusError)), (60, 70))"
  using sync_time_outcomes [of two_clocks_local "(60, 70)" 60 "(60, 70)"
      "\<lparr>clock_set = \<lambda>t s. (Ret None, s), clock_get = \<lambda>s. (Ret (Inr 50), s)\<rparr>" 50 "(60, 70)"
      two_clocks_device 70 "(60, 70)" None "(60, 60)"]
  by (simp add: two_clocks_local_def two_clocks_device_def)

text \<open>
  C27. What the restorer answers, exactly, after any sequence of recorded times and of runs of
  the restoring task in any order. Until the first recorded time, and the first run whose read
  succeeds or finds no data, it has no time and answers with an error; runs that fail before do
  not count. If such a run comes first, it answers with the latest of the persisted time it read
  and of the times recorded later. If a recorded time comes first, it answers with the latest of
  the recorded times, and no later run matters: a later persisted time is skipped, so that the
  answer is then not the most recent of the times the restorer has seen.
\<close>

theorem restorer_answers_exactly:
  "fst (restorer_get (fold restorer_op_run ops new_clock_restorer)) =
     Ret (case dropWhile failed_restoring ops of
            [] \<Rightarrow> Inl (Status StatusInvalidState)
          | RestorerRun (p, e) # later \<Rightarrow>
              Inr (word_of_int (fold max [sint t. SetTimestamp t \<leftarrow> later] (sint p)))
          | SetTimestamp t # later \<Rightarrow>
              Inr (word_of_int (fold max [sint t. SetTimestamp t \<leftarrow> later] (max (- 1) (sint t)))))"
proof -
  have restored: "fst (restorer_get (fold restorer_op_run later r)) =
      Ret (Inr (word_of_int (fold max [sint t. SetTimestamp t \<leftarrow> later] (sint (cr_timestamp r)))))"
    if "cr_restored r" for r later
  proof -
    have "word_of_int (sint x) = x" for x :: i64 by simp
    then show ?thesis using restorer_ops_timestamp [OF that, of later]
      by (metis restorer_get_def fst_conv)
  qed
  have "fold restorer_op_run ops new_clock_restorer =
      fold restorer_op_run (dropWhile failed_restoring ops) new_clock_restorer"
    by (rule failed_restorings_dropped)
  then have answer: "fst (restorer_get (fold restorer_op_run ops new_clock_restorer)) =
      fst (restorer_get (fold restorer_op_run (dropWhile failed_restoring ops) new_clock_restorer))"
    by simp
  show ?thesis
  proof (cases "dropWhile failed_restoring ops")
    case Nil
    show ?thesis unfolding answer Nil by (simp add: restorer_get_def new_clock_restorer_def)
  next
    case (Cons op later)
    then have "\<not> failed_restoring op" using hd_dropWhile [of failed_restoring ops] by simp
    from first_restorer_op [OF this] show ?thesis
      unfolding answer Cons
      by (cases op) (auto simp: restored max_def simp del: restorer_op_run.simps)
  qed
qed

text \<open>
  Data that arrives before the persisted time has been read makes the restorer forget it:
  the later persisted time is skipped, and the clock answers with the earlier time of the data
  although its comment promises the most recent one.
\<close>

theorem early_data_skips_restoring:
  assumes "0 \<le> sint t" and "sint t < sint p"
  shows "restorer_get (restorer_op_run (RestorerRun (p, None))
           (restorer_op_run (SetTimestamp t) new_clock_restorer)) =
     (Ret (Inr t), \<lparr>cr_restored = True, cr_timestamp = t\<rparr>)"
  using assms
  by (simp add: restorer_set_def restorer_run_def restorer_get_def new_clock_restorer_def Let_def)

theorem early_data_skips_restoring_witness:
  "fst (restorer_get (restorer_op_run (RestorerRun (500, None))
           (restorer_op_run (SetTimestamp 20) new_clock_restorer))) = Ret (Inr 20)"
  using early_data_skips_restoring [of 20 500] by simp

text \<open>
  C28. With a drift interval shorter than 48 days the verifier rejects exactly the negative
  timestamps and those that lag the local clock by the whole seconds of the interval or more;
  a device that is ahead is accepted, and the subtraction never overflows.
\<close>

theorem drift_verifier_accepts:
  assumes "clock_get clock s = (Ret (Inr now), s')" and "0 \<le> sint ts" 
    and "0 \<le> sint d" and "sint d < 2 ^ 22 * 1000000000"
  shows "drift_verify_time clock d ts s =
     (Ret (sint now - sint ts < sint d div 1000000000 \<or> sint now \<le> sint ts), s')"
proof (cases "i64_less ts now")
  case True
  have "sint (now - ts) = sint now - sint ts"
    using True assms(2) sint_range_i64 [of now] sint_range_i64 [of ts]
    by (simp add: sint_word_ariths signed_take_bit_int_eq_self)
  then show ?thesis
    using True assms by (simp add: drift_verify_time_def and_then_def int64_seconds_short)
next
  case False
  then show ?thesis using assms by (simp add: drift_verify_time_def and_then_def)
qed

theorem drift_verifier_accepts_witness:
  "drift_verify_time two_clocks_local 5000000000 996 (1000, 0) = (Ret True, (1000, 0)) \<and>
   drift_verify_time two_clocks_local 5000000000 995 (1000, 0) = (Ret False, (1000, 0))"
  using drift_verifier_accepts [of two_clocks_local "(1000, 0)" 1000 "(1000, 0)" 996 5000000000]
    drift_verifier_accepts [of two_clocks_local "(1000, 0)" 1000 "(1000, 0)" 995 5000000000]
  by (simp add: two_clocks_local_def)

end
