(* ===== verification/Http.thy ===== *)
theory Http
  imports GoQuery Clocks Mdns
begin

text \<open>
  The HTTP parts of the program. Server side: what its handlers use of \<^verbatim>\<open>net/http\<close>
  (a request with its method and query, a response writer), \<^verbatim>\<open>htcore.WriteText\<close> and
  \<^verbatim>\<open>WriteJSON\<close>, \<^verbatim>\<open>hthandler.CrashHandler\<close> and \<^verbatim>\<open>hthandler.SystemTimeHandler\<close>. Client side:
  \<^verbatim>\<open>htcore.HTTPClient.Do\<close>, \<^verbatim>\<open>URLFetcher\<close>, \<^verbatim>\<open>htcore.SystemClock\<close> (the clock of a device) and
  \<^verbatim>\<open>httransport.ResolveRoundTripper\<close>; the transaction with the network is an argument.
\<close>

section \<open>Responses\<close>

text \<open>
  A piece of a body: a text, or a text that ends with a formatted error (\<^verbatim>\<open>%v\<close>).
\<close>

datatype body_piece = Raw string | WithErr string err

text \<open>
  \<open>rw_sent\<close> is the status and the header that \<^verbatim>\<open>WriteHeader\<close> sent, \<open>rw_broken\<close> the error
  that writing to the connection fails with, if it does.
\<close>

record response_writer =
  rw_header :: "string \<rightharpoonup> string"
  rw_sent :: "(nat \<times> (string \<rightharpoonup> string)) option"
  rw_body :: "body_piece list"
  rw_broken :: "err option"

definition new_response :: response_writer where
  "new_response = \<lparr>rw_header = Map.empty, rw_sent = None, rw_body = [], rw_broken = None\<rparr>"

definition set_header :: "string \<Rightarrow> string \<Rightarrow> response_writer \<Rightarrow> response_writer" where
  "set_header k v w = w\<lparr>rw_header := (rw_header w)(k \<mapsto> v)\<rparr>"

text \<open>A second \<^verbatim>\<open>WriteHeader\<close> is ignored.\<close>

definition write_header :: "nat \<Rightarrow> response_writer \<Rightarrow> response_writer" where
  "write_header code w =
     (case rw_sent w of Some _ \<Rightarrow> w | None \<Rightarrow> w\<lparr>rw_sent := Some (code, rw_header w)\<rparr>)"

definition write_body :: "body_piece list \<Rightarrow> response_writer \<Rightarrow> err option \<times> response_writer" where
  "write_body ps w =
     (let w = write_header 200 w
      in case rw_broken w of
           Some e \<Rightarrow> (Some e, w)
         | None \<Rightarrow> (None, w\<lparr>rw_body := rw_body w @ ps\<rparr>))"

text \<open>\<^verbatim>\<open>http.Error\<close>.\<close>

definition http_error :: "body_piece \<Rightarrow> nat \<Rightarrow> response_writer \<Rightarrow> response_writer" where
  "http_error p code w =
     (let w = w\<lparr>rw_header := (rw_header w)(''Content-Length'' := None)\<rparr>;
          w = set_header ''Content-Type'' ''text/plain; charset=utf-8'' w;
          w = set_header ''X-Content-Type-Options'' ''nosniff'' w;
          w = write_header code w
      in snd (write_body [p, Raw [CHR 0x0A]] w))"

definition write_text :: "string \<Rightarrow> response_writer \<Rightarrow> response_writer" where
  "write_text txt w =
     (let w = set_header ''Content-Type'' ''text/plain; charset=utf-8'' w;
          w = set_header ''Content-Length'' (nat_str (length txt)) w;
          w = write_header 200 w
      in case write_body [Raw txt] w of
           (Some e, w) \<Rightarrow> http_error (WithErr '''' e) 500 w
         | (None, w) \<Rightarrow> w)"

definition write_json :: "string \<Rightarrow> response_writer \<Rightarrow> response_writer" where
  "write_json buf w =
     (let w = set_header ''Content-Type'' ''application/json'' w;
          w = set_header ''Content-Length'' (nat_str (length buf)) w;
          w = write_header 200 w
      in case write_body [Raw buf] w of
           (Some e, w) \<Rightarrow> http_error (WithErr '''' e) 500 w
         | (None, w) \<Rightarrow> w)"

section \<open>Server side handlers\<close>

text \<open>A request: its method and the raw query of its URL. Handlers act on the writer and a world.\<close>

record request =
  req_method :: string
  req_query :: string

type_synonym 's http_handler = "request \<Rightarrow> (response_writer \<times> 's, unit) action"

definition respond :: "(response_writer \<Rightarrow> response_writer) \<Rightarrow> (response_writer \<times> 's, unit) action" where
  "respond f = (\<lambda>(w, s). (Ret (), (f w, s)))"

text \<open>What a recovered panic carries: \<^verbatim>\<open>http.ErrAbortHandler\<close> or a value with its \<^verbatim>\<open>%#v\<close> text.\<close>

datatype panic_value = ErrAbortHandler | PanicValue string

definition crash_handler :: "(response_writer \<times> 's \<Rightarrow> panic_value) \<Rightarrow> 's http_handler
    \<Rightarrow> 's http_handler" where
  "crash_handler recovered handler r ws =
     (case handler r ws of
        (Panic, ws') \<Rightarrow>
          (case recovered ws' of
             ErrAbortHandler \<Rightarrow> (Panic, ws')
           | PanicValue txt \<Rightarrow> respond (http_error (Raw (''crash: '' @ txt)) 500) ws')
      | out \<Rightarrow> out)"

definition system_time_handler :: "'s system_clock \<Rightarrow> i64 \<Rightarrow> 's http_handler" where
  "system_time_handler clock start_point r =
     (if req_method r \<noteq> ''GET'' then respond (http_error (Raw ''error: unsupported method'') 405)
      else (let str = query_get (req_query r) ''value''
            in if str = ''''
               then and_then (lift_snd (clock_get clock)) (\<lambda>t. case t of
                      Inl e \<Rightarrow> respond (http_error (WithErr ''failed to get UNIX time: '' e) 500)
                    | Inr timestamp \<Rightarrow>
                        (let timestamp = (if i64_less timestamp start_point then - 1 else timestamp)
                         in respond (write_text (format_int timestamp))))
               else (case parse_int ''ParseInt'' str of
                       Inl e \<Rightarrow> respond (http_error (WithErr '''' e) 400)
                     | Inr timestamp \<Rightarrow>
                         and_then (lift_snd (clock_set clock timestamp)) (\<lambda>e. case e of
                            Some e \<Rightarrow> respond (http_error (WithErr ''failed to set UNIX time: '' e) 500)
                          | None \<Rightarrow> respond (write_text ''OK'')))))"

section \<open>The client\<close>

text \<open>
  An outgoing GET request: the text its URL was parsed from, and the \<^verbatim>\<open>RawQuery\<close> of the
  URL, which the caller may replace. The response of the underlying client: the body is the bytes
  that can be read and the error that reading ends with, \<^const>\<open>None\<close> for the end of the data.
\<close>

record get_request =
  get_url :: string
  get_query :: string

record response =
  rsp_status :: int
  rsp_content_length :: int
  rsp_bytes :: "byte list"
  rsp_read_err :: "err option"

type_synonym 's http_do = "get_request \<Rightarrow> ('s, err + response) action"

text \<open>\<^verbatim>\<open>io.ReadAll\<close> and \<^verbatim>\<open>io.ReadFull\<close> on a body.\<close>

definition read_all :: "response \<Rightarrow> err + byte list" where
  "read_all resp = (case rsp_read_err resp of Some e \<Rightarrow> Inl e | None \<Rightarrow> Inr (rsp_bytes resp))"

definition read_full :: "nat \<Rightarrow> response \<Rightarrow> err + byte list" where
  "read_full n resp =
     (if n \<le> length (rsp_bytes resp) then Inr (take n (rsp_bytes resp))
      else (case rsp_read_err resp of
              Some e \<Rightarrow> Inl e
            | None \<Rightarrow> Inl (if rsp_bytes resp = [] then IoEOF else ExtErr ''unexpected EOF'')))"

text \<open>
  \<^verbatim>\<open>make([]byte, n)\<close> panics beyond the largest allocation of a 64 bit target; the length the
  server announces is not checked before.
\<close>

definition max_alloc :: int where
  "max_alloc = 2 ^ 48"

definition client_do :: "'s http_do \<Rightarrow> get_request \<Rightarrow> ('s, err + (response \<times> byte list)) action" where
  "client_do send req =
     and_then (send req) (\<lambda>r. case r of
        Inl e \<Rightarrow> (\<lambda>s. (Ret (Inl e), s))
      | Inr resp \<Rightarrow>
          (\<lambda>s. if rsp_content_length resp < - 1 \<or> max_alloc < rsp_content_length resp then (Panic, s)
               else (case (if rsp_content_length resp = - 1 then read_all resp
                           else if rsp_content_length resp = 0 then Inr []
                           else read_full (nat (rsp_content_length resp)) resp) of
                       Inl e \<Rightarrow> (Ret (Inl e), s)
                     | Inr body \<Rightarrow> (Ret (Inr (resp, body)), s))))"

text \<open>\<^verbatim>\<open>http.NewRequestWithContext\<close> for GET: it parses the URL.\<close>

definition new_request :: "string \<Rightarrow> err + get_request" where
  "new_request u =
     (case url_parse u of Inl e \<Rightarrow> Inl e | Inr _ \<Rightarrow> Inr \<lparr>get_url = u, get_query = raw_query u\<rparr>)"

definition url_fetch :: "'s http_do \<Rightarrow> string \<Rightarrow> ('s, err + byte list) action" where
  "url_fetch send url s =
     (case new_request url of
        Inl e \<Rightarrow> (Ret (Inl e), s)
      | Inr req \<Rightarrow>
          and_then (client_do send req) (\<lambda>r s. case r of
             Inl e \<Rightarrow> (Ret (Inl e), s)
           | Inr (resp, body) \<Rightarrow>
               (if rsp_status resp \<noteq> 200
                then (Ret (Inl (Errorf (''url-fetcher: failed to fetch data: code=''
                        @ format_int (word_of_int (rsp_status resp))) None)), s)
                else (Ret (Inr body), s))) s)"

text \<open>\<^verbatim>\<open>htcore.SystemClock\<close>.\<close>

definition http_clock_set :: "'s http_do \<Rightarrow> string \<Rightarrow> i64 \<Rightarrow> ('s, err option) action" where
  "http_clock_set send url timestamp s =
     (case new_request url of
        Inl e \<Rightarrow> (Ret (Some e), s)
      | Inr req \<Rightarrow>
          (let query = query_set ''value'' (format_int timestamp) (parse_query (get_query req));
               req = req\<lparr>get_query := query_encode query\<rparr>
           in and_then (client_do send req) (\<lambda>r s. case r of
             Inl e \<Rightarrow> (Ret (Some e), s)
           | Inr (resp, body) \<Rightarrow>
               (if rsp_status resp \<noteq> 200
                then (Ret (Some (Errorf (''http-system-clock: failed to send time: code=''
                        @ format_int (word_of_int (rsp_status resp))) None)), s)
                else (Ret None, s))) s))"

definition http_clock_get :: "'s http_do \<Rightarrow> string \<Rightarrow> ('s, err + i64) action" where
  "http_clock_get send url s =
     (case new_request url of
        Inl e \<Rightarrow> (Ret (Inl e), s)
      | Inr req \<Rightarrow>
          and_then (client_do send req) (\<lambda>r s. case r of
             Inl e \<Rightarrow> (Ret (Inl e), s)
           | Inr (resp, body) \<Rightarrow>
               (if rsp_status resp \<noteq> 200
                then (Ret (Inl (Errorf (''http-system-clock: failed to receive time: code=''
                        @ format_int (word_of_int (rsp_status resp))) None)), s)
                else (Ret (parse_int ''ParseInt'' (string_of body)), s))) s)"

definition http_clock :: "'s http_do \<Rightarrow> string \<Rightarrow> 's system_clock" where
  "http_clock send url = \<lparr>clock_set = http_clock_set send url, clock_get = http_clock_get send url\<rparr>"

section \<open>ResolveRoundTripper\<close>

definition round_trip :: "(string \<Rightarrow> ('s, err + addr) action) \<Rightarrow> (url \<Rightarrow> ('s, err + 'r) action)
    \<Rightarrow> url \<Rightarrow> ('s, err + 'r) action" where
  "round_trip resolve rt u =
     and_then (resolve (url_hostname u)) (\<lambda>r. case r of
        Inl e \<Rightarrow> (\<lambda>s. (Ret (Inl (Errorf
           (''resolve-round-tripper: failed to resolve HTTP address: host='' @ url_Host u @ '' err='')
           (Some e))), s))
      | Inr addr \<Rightarrow> rt (u\<lparr>url_Host := join_host_port (addr_string addr) (url_port u)\<rparr>))"

section \<open>Client and server together\<close>

text \<open>
  The connection of a client to a server with this handler, over an error-free network: the
  response has the status and the body the handler wrote, and the length its header announces.
\<close>

fun piece_bytes :: "body_piece \<Rightarrow> byte list" where
  "piece_bytes (Raw t) = bytes_of t"
| "piece_bytes (WithErr t e) = bytes_of t"

definition response_of :: "response_writer \<Rightarrow> response" where
  "response_of w =
     \<lparr>rsp_status = (case rw_sent w of Some (code, _) \<Rightarrow> int code | None \<Rightarrow> 200),
      rsp_content_length =
        (case rw_sent w of
           Some (_, h) \<Rightarrow>
             (case h ''Content-Length'' of
                Some l \<Rightarrow> (case parse_int ''ParseInt'' l of Inr n \<Rightarrow> sint n | Inl _ \<Rightarrow> - 1)
              | None \<Rightarrow> - 1)
         | None \<Rightarrow> - 1),
      rsp_bytes = concat (map piece_bytes (rw_body w)), rsp_read_err = None\<rparr>"

definition serve :: "'s http_handler \<Rightarrow> 's http_do" where
  "serve handler req s =
     (let r = \<lparr>req_method = ''GET'', req_query = get_query req\<rparr>
      in case handler r (new_response, s) of
           (Ret _, (w, s')) \<Rightarrow> (Ret (Inr (response_of w)), s')
         | (Panic, (w, s')) \<Rightarrow> (Ret (Inl IoEOF), s')
         | (Hang, (w, s')) \<Rightarrow> (Hang, s'))"

lemma nat_str_length: "0 < k \<Longrightarrow> n < 10 ^ k \<Longrightarrow> length (nat_str n) \<le> k"
proof (induction n arbitrary: k rule: nat_str.induct)
  case (1 n)
  show ?case
  proof (cases "n < 10")
    case True
    then show ?thesis using 1 by (simp add: nat_str.simps [of n])
  next
    case False
    then obtain j where k: "k = Suc j" "0 < j" using 1 by (cases k; cases "k - 1") auto
    then have "n div 10 < 10 ^ j" using 1(3) by (simp add: div_less_iff_less_mult)
    with 1(1) [OF False k(2)] k False show ?thesis by (simp add: nat_str.simps [of n])
  qed
qed

lemma format_int_length: "length (format_int v) \<le> 20"
proof -
  have "nat (- sint v) < 10 ^ 19" "nat (sint v) < 10 ^ 19" 
    using sint_range_i64 [of v] by (auto simp: nat_less_iff)
  then show ?thesis using nat_str_length [of 19] by (fastforce simp: format_int_def)
qed

lemma format_int_nonempty [simp]: "format_int v \<noteq> ''''"
  by (simp add: format_int_def)

lemma response_of_text:
  assumes "length txt < 2 ^ 63"
  shows "response_of (write_text txt new_response) =
     \<lparr>rsp_status = 200, rsp_content_length = int (length txt), rsp_bytes = bytes_of txt,
      rsp_read_err = None\<rparr>"
proof -
  have "int (length txt) < 2 ^ 63" using assms by simp
  then have "sint (word_of_nat (length txt) :: i64) = int (length txt)"
    by (simp add: signed_of_nat signed_take_bit_int_eq_self)
  with parse_int_nat_str [OF assms, of "''ParseInt''"] show ?thesis
    by (simp add: response_of_def write_text_def new_response_def set_header_def
        write_header_def write_body_def)
qed

lemma client_do_text:
  assumes "send req s = (Ret (Inr (response_of (write_text txt new_response))), s')"
    and "length txt \<le> 20"
  shows "client_do send req s =
     (Ret (Inr (response_of (write_text txt new_response), bytes_of txt)), s')"
  using assms by (auto simp: client_do_def and_then_def response_of_text max_alloc_def read_full_def)

lemma response_of_error:
  "response_of (http_error p code new_response) =
     \<lparr>rsp_status = int code, rsp_content_length = - 1,
      rsp_bytes = piece_bytes p @ [byte_of (CHR 0x0A)], rsp_read_err = None\<rparr>"
  by (simp add: response_of_def http_error_def new_response_def set_header_def write_header_def
      write_body_def)

section \<open>Properties\<close>

text \<open>
  The device clock of the hub and the time endpoint agree: a time set through the client is
  the time the endpoint's clock is set to, for every 64 bit time and whatever query the URL has,
  and its error is reported.
\<close>

theorem http_clock_sets_the_remote_clock:
  assumes "url_parse url = Inr u" and "clock_set clock t s = (Ret e, s')"
  shows "http_clock_set (serve (system_time_handler clock start)) url t s =
     (Ret (if e = None then None
           else Some (Errorf ''http-system-clock: failed to send time: code=500'' None)), s')"
proof (cases e)
  case None
  have "serve (system_time_handler clock start)
      \<lparr>get_url = url, get_query = query_encode (query_set ''value'' (format_int t) ps)\<rparr> s =
      (Ret (Inr (response_of (write_text ''OK'' new_response))), s')" for ps
    using assms None query_get_set [of "''value''" "format_int t" ps]
    by (simp add: serve_def system_time_handler_def parse_format_int and_then_def lift_snd_def
        respond_def)
  from client_do_text [of "serve (system_time_handler clock start)" _ s "''OK''", OF this] None assms show ?thesis
    by (simp add: http_clock_set_def new_request_def and_then_def response_of_text)
next
  case (Some e')
  have "serve (system_time_handler clock start)
      \<lparr>get_url = url, get_query = query_encode (query_set ''value'' (format_int t) ps)\<rparr> s =
      (Ret (Inr (response_of (http_error (WithErr ''failed to set UNIX time: '' e') 500 new_response))), s')" for ps
    using assms Some query_get_set [of "''value''" "format_int t" ps]
    by (simp add: serve_def system_time_handler_def parse_format_int and_then_def lift_snd_def
        respond_def)
  moreover have "format_int (word_of_int 500) = ''500''" by code_simp
  ultimately show ?thesis using Some assms
    by (simp add: http_clock_set_def new_request_def and_then_def client_do_def response_of_error
        max_alloc_def read_all_def)
qed

text \<open>A world that is the time of one clock.\<close>

definition cell_clock :: "i64 system_clock" where
  "cell_clock = \<lparr>clock_set = (\<lambda>t s. (Ret None, t)), clock_get = (\<lambda>s. (Ret (Inr s), s))\<rparr>"

theorem http_clock_sets_the_remote_clock_witness:
  "http_clock_set (serve (system_time_handler cell_clock 1733215816)) ''http://hub:80/t'' 1800000000 5 =
     (Ret None, 1800000000)"
proof -
  have "url_parse ''http://hub:80/t'' = Inr \<lparr>url_Scheme = ''http'', url_Host = ''hub:80''\<rparr>"
    by code_simp
  from http_clock_sets_the_remote_clock [OF this, of cell_clock 1800000000 5 None 1800000000]
  show ?thesis by (simp add: cell_clock_def)
qed

text \<open>
  C29. Reading the time through the client, from a URL that leads to the time endpoint and whose
  query gives no \<^verbatim>\<open>value\<close>, gives the time of the endpoint's clock, and - 1 when that clock
  is behind the start point, which stands for a clock that was never set; the endpoint does nothing
  but read its clock. With a \<^verbatim>\<open>value\<close> in the query of the URL the endpoint takes the request
  for one that sets its clock.
\<close>

theorem http_clock_gets_the_remote_clock:
  assumes "url_parse url = Inr u" and "query_get (raw_query url) ''value'' = ''''"
    and "clock_get clock s = (Ret (Inr t), s')"
  shows "http_clock_get (serve (system_time_handler clock start)) url s =
     (Ret (Inr (if sint t < sint start then - 1 else t)), s')"
proof -
  let ?t = "if sint t < sint start then - 1 else t"
  have "serve (system_time_handler clock start) \<lparr>get_url = url, get_query = raw_query url\<rparr> s =
      (Ret (Inr (response_of (write_text (format_int ?t) new_response))), s')"
    using assms
    by (simp add: serve_def system_time_handler_def and_then_def lift_snd_def respond_def Let_def)
  from client_do_text [of "serve (system_time_handler clock start)" _ s "format_int ?t", OF this format_int_length] assms show ?thesis
    using format_int_length [of ?t]
    by (simp add: http_clock_get_def new_request_def and_then_def response_of_text parse_format_int
        del: if_split)
qed

theorem http_clock_gets_the_remote_clock_witness:
  "http_clock_get (serve (system_time_handler cell_clock 1733215816)) ''http://hub:80/t?x=1'' 5 =
     (Ret (Inr (- 1)), 5)"
proof -
  have "url_parse ''http://hub:80/t?x=1'' = Inr \<lparr>url_Scheme = ''http'', url_Host = ''hub:80''\<rparr>"
    by code_simp
  moreover have "query_get (raw_query ''http://hub:80/t?x=1'') ''value'' = ''''" by code_simp
  ultimately show ?thesis
    using http_clock_gets_the_remote_clock [of "''http://hub:80/t?x=1''" _ cell_clock 5 5 5 1733215816]
    by (simp add: cell_clock_def)
qed

text \<open>
  The same request to a URL whose query has a value: the endpoint sets its clock and answers
  with a text that is no time, so the client reports an error.
\<close>

theorem http_clock_get_with_value_sets:
  assumes "url_parse url = Inr u" and "query_get (raw_query url) ''value'' = format_int t"
    and "clock_set clock t s = (Ret None, s')"
  shows "http_clock_get (serve (system_time_handler clock start)) url s =
     (Ret (Inl (NumError ''ParseInt'' ''OK'' ErrSyntax)), s')"
proof -
  have "serve (system_time_handler clock start) \<lparr>get_url = url, get_query = raw_query url\<rparr> s =
      (Ret (Inr (response_of (write_text ''OK'' new_response))), s')"
    using assms
    by (simp add: serve_def system_time_handler_def parse_format_int and_then_def lift_snd_def
        respond_def Let_def)
  moreover have "parse_int ''ParseInt'' ''OK'' = Inl (NumError ''ParseInt'' ''OK'' ErrSyntax)"
    by code_simp
  ultimately show ?thesis
    using client_do_text [of "serve (system_time_handler clock start)" _ s "''OK''"] assms
    by (simp add: http_clock_get_def new_request_def and_then_def response_of_text)
qed

theorem http_clock_get_with_value_sets_witness:
  "http_clock_get (serve (system_time_handler cell_clock 1733215816)) ''http://hub:80/t?value=9'' 5 =
     (Ret (Inl (NumError ''ParseInt'' ''OK'' ErrSyntax)), 9)"
proof -
  have "url_parse ''http://hub:80/t?value=9'' = Inr \<lparr>url_Scheme = ''http'', url_Host = ''hub:80''\<rparr>"
    by code_simp
  moreover have "query_get (raw_query ''http://hub:80/t?value=9'') ''value'' = format_int 9" by code_simp
  ultimately show ?thesis
    using http_clock_get_with_value_sets [of "''http://hub:80/t?value=9''" _ 9 cell_clock 5 9 1733215816]
    by (simp add: cell_clock_def)
qed

text \<open>
  A server that announces a body larger than the largest allocation makes the client panic
  before it reads anything; nothing checks the announced length.
\<close>

theorem announced_length_panics:
  assumes "send req s = (Ret (Inr resp), s')" and "max_alloc < rsp_content_length resp"
  shows "client_do send req s = (Panic, s')"
  using assms by (simp add: client_do_def and_then_def)

theorem announced_length_panics_witness:
  "client_do (\<lambda>_ s. (Ret (Inr \<lparr>rsp_status = 200, rsp_content_length = 2 ^ 62, rsp_bytes = [],
       rsp_read_err = None\<rparr>), s)) \<lparr>get_url = ''http://hub'', get_query = ''''\<rparr> () = (Panic, ())"
  using announced_length_panics [of "\<lambda>_ s. (Ret (Inr \<lparr>rsp_status = 200, rsp_content_length = 2 ^ 62,
      rsp_bytes = [], rsp_read_err = None\<rparr>), s)" "\<lparr>get_url = ''http://hub'', get_query = ''''\<rparr>" "()"
      "\<lparr>rsp_status = 200, rsp_content_length = 2 ^ 62, rsp_bytes = [], rsp_read_err = None\<rparr>" "()"]
  by (simp add: max_alloc_def)

end
