(* ===== verification/Poll.thy ===== *)
theory Poll
  imports Clocks
begin

text \<open>
  \<^verbatim>\<open>components/device/devcore\<close>: the device that is polled over HTTP (\<^verbatim>\<open>PollDevice\<close>), the
  handler of its data and \<^verbatim>\<open>IDHolder\<close>, the handler that remembers the device's identifier.
  The fetchers, the time synchronizer and the time verifier are interfaces of the code and hence
  actions in a world \<open>'s\<close>. The lemmas describe what a run has done when it succeeds, when it
  fails, and how the identifier evolves over any number of runs.
\<close>

section \<open>Decoded JSON and the data handler\<close>

text \<open>
  The values \<^verbatim>\<open>encoding/json\<close> stores in an \<^verbatim>\<open>any\<close>; every number is a finite
  \<^verbatim>\<open>float64\<close>, hence a rational. A \<^verbatim>\<open>map[string]any\<close> is a partial function; \<^verbatim>\<open>null\<close> decodes
  to the nil map, in which every lookup fails.
\<close>

datatype json =
    JNull
  | JBool bool
  | JNum rat
  | JStr string
  | JArr "json list"
  | JObj "string \<Rightarrow> json option"

type_synonym JSON = "string \<rightharpoonup> json"

record 's data_handler =
  HandleTelemetry :: "string \<Rightarrow> JSON \<Rightarrow> ('s, err option) action"
  HandleRegistration :: "string \<Rightarrow> JSON \<Rightarrow> ('s, err option) action"

text \<open>
  The decoder \<^verbatim>\<open>json.Unmarshal\<close> into a \<^verbatim>\<open>map[string]any\<close>, and the conversion of an
  out-of-range \<^verbatim>\<open>float64\<close> to \<^verbatim>\<open>int64\<close>, which Go leaves to the implementation.
\<close>

record json_lib =
  json_unmarshal :: "byte list \<Rightarrow> err + JSON"
  json_out_of_range :: "rat \<Rightarrow> i64"

section \<open>IDHolder\<close>

text \<open>The state is the identifier, beside the world of the wrapped handler.\<close>

definition holder_get :: "string \<times> 's \<Rightarrow> string" where
  "holder_get = fst"

definition holder_handle_registration :: "'s data_handler \<Rightarrow> string \<Rightarrow> JSON
    \<Rightarrow> (string \<times> 's, err option) action" where
  "holder_handle_registration handler deviceID js = (\<lambda>(id, s).
     (let id = (if id \<noteq> deviceID then deviceID else id)
      in lift_snd (HandleRegistration handler deviceID js) (id, s)))"

definition holder_handle_telemetry :: "'s data_handler \<Rightarrow> string \<Rightarrow> JSON
    \<Rightarrow> (string \<times> 's, err option) action" where
  "holder_handle_telemetry handler deviceID js = lift_snd (HandleTelemetry handler deviceID js)"

definition id_holder :: "'s data_handler \<Rightarrow> (string \<times> 's) data_handler" where
  "id_holder handler =
     \<lparr>HandleTelemetry = holder_handle_telemetry handler,
      HandleRegistration = holder_handle_registration handler\<rparr>"

section \<open>PollDevice\<close>

record 's poll_device =
  pd_registrationFetcher :: "('s, err + byte list) action"
  pd_telemetryFetcher :: "('s, err + byte list) action"
  pd_dataHandler :: "'s data_handler"
  pd_timeSynchronizer :: "('s, err option) action"
  pd_timeVerifier :: "i64 \<Rightarrow> ('s, bool) action"
  pd_deviceID :: string

definition new_poll_device :: "('s, err + byte list) action \<Rightarrow> ('s, err + byte list) action
    \<Rightarrow> 's data_handler \<Rightarrow> ('s, err option) action \<Rightarrow> (i64 \<Rightarrow> ('s, bool) action)
    \<Rightarrow> 's poll_device" where
  "new_poll_device registrationFetcher telemetryFetcher dataHandler timeSynchronizer timeVerifier =
     \<lparr>pd_registrationFetcher = registrationFetcher, pd_telemetryFetcher = telemetryFetcher,
      pd_dataHandler = dataHandler, pd_timeSynchronizer = timeSynchronizer,
      pd_timeVerifier = timeVerifier, pd_deviceID = ''''\<rparr>"

text \<open>\<^verbatim>\<open>FuncSynchronizer\<close>: the function itself.\<close>

definition func_synchronizer :: "('s, err option) action \<Rightarrow> ('s, err option) action" where
  "func_synchronizer s = s"

text \<open>A step of a method of the device: the state is the device and the world.\<close>

type_synonym ('s, 'a) poll = "('s poll_device \<times> 's, 'a) action"

definition parse_device_id :: "JSON \<Rightarrow> 's poll_device \<Rightarrow> err option \<times> 's poll_device" where
  "parse_device_id js d =
     (case js ''device_id'' of
        None \<Rightarrow>
          (Some (Errorf ''poll-device: failed to fetch registration: missing device_id field'' None), d)
      | Some (JStr deviceID) \<Rightarrow>
          (if pd_deviceID d \<noteq> '''' \<and> pd_deviceID d \<noteq> deviceID
           then (Some (Errorf (''poll-device: failed to fetch registration: device ID mismatch: want=''
                   @ pd_deviceID d @ '' got='' @ deviceID) None), d)
           else if pd_deviceID d = '''' then (None, d\<lparr>pd_deviceID := deviceID\<rparr>)
           else (None, d))
      | Some _ \<Rightarrow>
          (Some (Errorf ''poll-device: failed to fetch registration: invalid type for device_id'' None),
           d))"

definition validate_timestamp :: "json_lib \<Rightarrow> JSON \<Rightarrow> ('s, err option) poll" where
  "validate_timestamp lib js = (\<lambda>(d, s).
     (case js ''timestamp'' of
        None \<Rightarrow>
          (Ret (Some (Errorf ''poll-device: failed to fetch data: missing timestamp field'' None)),
           (d, s))
      | Some (JNum timestamp) \<Rightarrow>
          and_then
            (lift_snd (pd_timeVerifier d (int64_of_float (json_out_of_range lib) timestamp)))
            (\<lambda>ok. if ok then (\<lambda>ds. (Ret None, ds))
               else and_then (lift_snd (pd_timeSynchronizer d))
                 (\<lambda>e ds. (case e of
                    Some e \<Rightarrow> (Ret (Some (Errorf ''failed to sync device time: '' (Some e))), ds)
                  | None \<Rightarrow>
                      (Ret (Some (Errorf ''failed to fetch data: invalid timestamp'' None)), ds))))
            (d, s)
      | Some _ \<Rightarrow>
          (Ret (Some (Errorf ''poll-device: failed to fetch data: invalid type for timestamp'' None)),
           (d, s))))"

definition fetch_registration :: "json_lib \<Rightarrow> ('s, err + JSON) poll" where
  "fetch_registration lib = (\<lambda>(d, s).
     and_then (lift_snd (pd_registrationFetcher d)) (\<lambda>r (d, s). case r of
        Inl e \<Rightarrow> (Ret (Inl e), (d, s))
      | Inr buf \<Rightarrow>
          (case json_unmarshal lib buf of
             Inl e \<Rightarrow> (Ret (Inl e), (d, s))
           | Inr js \<Rightarrow>
               (case parse_device_id js d of
                  (Some e, d) \<Rightarrow> (Ret (Inl e), (d, s))
                | (None, d) \<Rightarrow>
                    and_then (validate_timestamp lib js) (\<lambda>e ds. case e of
                       Some e \<Rightarrow> (Ret (Inl e), ds)
                     | None \<Rightarrow> (Ret (Inr js), ds)) (d, s)))) (d, s))"

definition fetch_telemetry :: "json_lib \<Rightarrow> ('s, err + JSON) poll" where
  "fetch_telemetry lib = (\<lambda>(d, s).
     and_then (lift_snd (pd_telemetryFetcher d)) (\<lambda>r ds. case r of
        Inl e \<Rightarrow> (Ret (Inl e), ds)
      | Inr buf \<Rightarrow>
          (case json_unmarshal lib buf of
             Inl e \<Rightarrow> (Ret (Inl e), ds)
           | Inr js \<Rightarrow>
               and_then (validate_timestamp lib js) (\<lambda>e ds. case e of
                  Some e \<Rightarrow> (Ret (Inl e), ds)
                | None \<Rightarrow> (Ret (Inr js), ds)) ds)) (d, s))"

text \<open>The two calls of the data handler at the end of \<^verbatim>\<open>Run\<close>.\<close>

definition handle_fetched :: "JSON \<Rightarrow> JSON \<Rightarrow> ('s, err option) poll" where
  "handle_fetched registrationData telemetryData = (\<lambda>(d, s).
     and_then (lift_snd (HandleRegistration (pd_dataHandler d) (pd_deviceID d) registrationData))
       (\<lambda>e (d, s). if e \<noteq> None then (Ret (Some (Status StatusError)), (d, s)) else
     and_then (lift_snd (HandleTelemetry (pd_dataHandler d) (pd_deviceID d) telemetryData))
       (\<lambda>e ds. if e \<noteq> None then (Ret (Some (Status StatusError)), ds) else (Ret None, ds))
       (d, s)) (d, s))"

definition poll_run :: "json_lib \<Rightarrow> ('s, err option) poll" where
  "poll_run lib =
     and_then (fetch_registration lib) (\<lambda>r. case r of
        Inl e \<Rightarrow> (\<lambda>ds. (Ret (Some (Status StatusError)), ds))
      | Inr registrationData \<Rightarrow>
     and_then (fetch_telemetry lib) (\<lambda>r. case r of
        Inl e \<Rightarrow> (\<lambda>ds. (Ret (Some (Status StatusError)), ds))
      | Inr telemetryData \<Rightarrow> handle_fetched registrationData telemetryData))"

section \<open>What the parts do\<close>

text \<open>What an accepted document of a device has, and which identifier the device has then.\<close>

definition accepts_id :: "string \<Rightarrow> JSON \<Rightarrow> string \<Rightarrow> bool" where
  "accepts_id known js deviceID \<longleftrightarrow>
     js ''device_id'' = Some (JStr deviceID) \<and> (known = '''' \<or> known = deviceID)"

definition verified :: "json_lib \<Rightarrow> 's poll_device \<Rightarrow> JSON \<Rightarrow> 's \<Rightarrow> 's \<Rightarrow> bool" where
  "verified lib d js s s' \<longleftrightarrow>
     (\<exists>ts. js ''timestamp'' = Some (JNum ts) \<and>
        pd_timeVerifier d (int64_of_float (json_out_of_range lib) ts) s = (Ret True, s'))"

lemma parse_device_id_None:
  "parse_device_id js d = (None, d') \<longleftrightarrow>
   (\<exists>i. accepts_id (pd_deviceID d) js i \<and> d' = d\<lparr>pd_deviceID := i\<rparr>)"
  by (auto simp: parse_device_id_def accepts_id_def split: option.splits json.splits if_splits)

lemma parse_device_id_Some: "parse_device_id js d = (Some e, d') \<Longrightarrow> d' = d"
  by (auto simp: parse_device_id_def split: option.splits json.splits if_splits)

lemma validate_timestamp_Ret:
  assumes "validate_timestamp lib js (d, s) = (Ret None, (d', s'))"
  shows "d' = d \<and> verified lib d js s s'"
  using assms
  by (auto simp: validate_timestamp_def verified_def and_then_Ret_iff lift_snd_pair
      split: option.splits json.splits if_splits)

lemma fetch_telemetry_OkD:
  assumes f: "fetch_telemetry lib (d, s) = (Ret (Inr js), (d', s'))"
  obtains buf s1 where "d' = d" "pd_telemetryFetcher d s = (Ret (Inr buf), s1)"
    "json_unmarshal lib buf = Inr js" "verified lib d js s1 s'"
proof -
  obtain r s1 where 1: "pd_telemetryFetcher d s = (Ret r, s1)"
    using f by (auto simp: fetch_telemetry_def and_then_Ret_iff lift_snd_pair)
  then have l: "lift_snd (pd_telemetryFetcher d) (d, s) = (Ret r, (d, s1))"
    by (simp add: lift_snd_pair)
  obtain buf where 2: "r = Inr buf"
    using f l by (cases r) (auto simp: fetch_telemetry_def outcome_simps)
  obtain js' where 3: "json_unmarshal lib buf = Inr js'"
    using f l 2 by (cases "json_unmarshal lib buf") (auto simp: fetch_telemetry_def outcome_simps)
  have "validate_timestamp lib js' (d, s1) = (Ret None, (d', s')) \<and> js' = js"
    using f l 2 3 by (auto simp: fetch_telemetry_def outcome_simps and_then_Ret_iff
        split: option.splits)
  then show thesis using that 1 2 3 validate_timestamp_Ret by metis
qed

lemma fetch_registration_OkD:
  assumes f: "fetch_registration lib (d, s) = (Ret (Inr js), (d', s'))"
  obtains buf s1 i where "pd_registrationFetcher d s = (Ret (Inr buf), s1)"
    "json_unmarshal lib buf = Inr js" "accepts_id (pd_deviceID d) js i"
    "d' = d\<lparr>pd_deviceID := i\<rparr>" "verified lib d' js s1 s'"
proof -
  obtain r s1 where 1: "pd_registrationFetcher d s = (Ret r, s1)"
    using f by (auto simp: fetch_registration_def and_then_Ret_iff lift_snd_pair)
  then have l: "lift_snd (pd_registrationFetcher d) (d, s) = (Ret r, (d, s1))"
    by (simp add: lift_snd_pair)
  obtain buf where 2: "r = Inr buf"
    using f l by (cases r) (auto simp: fetch_registration_def outcome_simps)
  obtain js' where 3: "json_unmarshal lib buf = Inr js'"
    using f l 2
    by (cases "json_unmarshal lib buf") (auto simp: fetch_registration_def outcome_simps)
  obtain d1 where 4: "parse_device_id js' d = (None, d1)"
    using f l 2 3 by (cases "parse_device_id js' d"; cases "fst (parse_device_id js' d)")
      (auto simp: fetch_registration_def outcome_simps)
  have "validate_timestamp lib js' (d1, s1) = (Ret None, (d', s')) \<and> js' = js"
    using f l 2 3 4 by (auto simp: fetch_registration_def outcome_simps and_then_Ret_iff
        split: option.splits)
  then have k: "d' = d1 \<and> verified lib d1 js s1 s' \<and> js' = js" by (auto dest: validate_timestamp_Ret)
  obtain i where i: "accepts_id (pd_deviceID d) js' i" "d1 = d\<lparr>pd_deviceID := i\<rparr>"
    using 4 by (auto simp: parse_device_id_None)
  with k show thesis using that 1 2 3 by blast
qed

lemma handle_fetched_OkD:
  assumes "handle_fetched reg tel (d, s) = (Ret None, (d', s'))"
  obtains s1 where "d' = d"
    "HandleRegistration (pd_dataHandler d) (pd_deviceID d) reg s = (Ret None, s1)"
    "HandleTelemetry (pd_dataHandler d) (pd_deviceID d) tel s1 = (Ret None, s')"
  using assms
  by (auto simp: handle_fetched_def and_then_Ret_iff lift_snd_pair split: if_splits)

text \<open>How a device may change: it takes an identifier once, and nothing else ever changes.\<close>

definition device_evolves :: "'s poll_device \<Rightarrow> 's poll_device \<Rightarrow> bool" where
  "device_evolves d d' \<longleftrightarrow>
     (\<exists>i. d' = d\<lparr>pd_deviceID := i\<rparr> \<and> (pd_deviceID d = '''' \<or> i = pd_deviceID d))"

lemma device_evolves_refl [simp]: "device_evolves d d"
  by (auto simp: device_evolves_def intro: exI [of _ "pd_deviceID d"])

lemma device_evolves_trans:
  assumes "device_evolves d e" "device_evolves e f"
  shows "device_evolves d f"
proof -
  obtain i where "e = d\<lparr>pd_deviceID := i\<rparr>" "pd_deviceID d = '''' \<or> i = pd_deviceID d"
    using assms(1) by (auto simp: device_evolves_def)
  moreover obtain j where "f = e\<lparr>pd_deviceID := j\<rparr>" "pd_deviceID e = '''' \<or> j = pd_deviceID e"
    using assms(2) by (auto simp: device_evolves_def)
  ultimately show ?thesis unfolding device_evolves_def by (intro exI [of _ j]) auto
qed

text \<open>A poll step evolves the device and changes the world by a relation \<open>W\<close>.\<close>

definition poll_rel :: "('s \<Rightarrow> 's \<Rightarrow> bool) \<Rightarrow> 's poll_device \<times> 's \<Rightarrow> 's poll_device \<times> 's \<Rightarrow> bool" where
  "poll_rel W ds ds' \<longleftrightarrow> device_evolves (fst ds) (fst ds') \<and> W (snd ds) (snd ds')"

lemma poll_rel_trans:
  "transp W \<Longrightarrow> poll_rel W r s \<Longrightarrow> poll_rel W s t \<Longrightarrow> poll_rel W r t"
  unfolding poll_rel_def by (metis device_evolves_trans transpD)

lemma poll_rel_lift: "W s (snd (f s)) \<Longrightarrow> poll_rel W (d, s) (snd (lift_snd f (d, s)))"
  by (auto simp: poll_rel_def lift_snd_def split: prod.splits)

lemma poll_rel_refl: "reflp W \<Longrightarrow> poll_rel W ds ds"
  by (simp add: poll_rel_def reflp_def)

text \<open>The interfaces of a device change the world by \<open>W\<close> only.\<close>

definition input_rel :: "('s \<Rightarrow> 's \<Rightarrow> bool) \<Rightarrow> 's poll_device \<Rightarrow> bool" where
  "input_rel W d \<longleftrightarrow>
     (\<forall>s. W s (snd (pd_registrationFetcher d s)) \<and> W s (snd (pd_telemetryFetcher d s)) \<and>
        W s (snd (pd_timeSynchronizer d s)) \<and> (\<forall>t. W s (snd (pd_timeVerifier d t s))))"

lemma input_rel_id [simp]: "input_rel W (d\<lparr>pd_deviceID := i\<rparr>) = input_rel W d"
  by (simp add: input_rel_def)

lemma validate_timestamp_rel:
  assumes W: "reflp W" "transp W" and d: "input_rel W d"
  shows "poll_rel W (d, s) (snd (validate_timestamp lib js (d, s)))"
proof (cases "\<exists>ts. js ''timestamp'' = Some (JNum ts)")
  case True
  then obtain ts where ts: "js ''timestamp'' = Some (JNum ts)" by blast
  let ?v = "pd_timeVerifier d (int64_of_float (json_out_of_range lib) ts)"
  obtain r s1 where v: "?v s = (r, s1)" by (cases "?v s")
  obtain q s2 where y: "pd_timeSynchronizer d s1 = (q, s2)" by (cases "pd_timeSynchronizer d s1")
  from d have "W s (snd (?v s))" "W s1 (snd (pd_timeSynchronizer d s1))"
    by (simp_all only: input_rel_def)
  with v y have 1: "W s s1" and 2: "W s1 s2" by simp_all
  then have 3: "W s s2" using W(2) by (rule_tac transpD)
  show ?thesis
    using 1 3 by (auto simp: validate_timestamp_def ts and_then_def lift_snd_def v y poll_rel_def
        split: outcome.splits option.splits)
next
  case False
  then show ?thesis using poll_rel_refl [OF W(1)]
    by (auto simp: validate_timestamp_def split: option.splits json.splits)
qed

lemma parse_device_id_evolves: "device_evolves d (snd (parse_device_id js d))"
  by (auto simp: parse_device_id_def device_evolves_def split: option.splits json.splits
      intro: exI [of _ "pd_deviceID d"])

lemma fetch_registration_rel:
  assumes W: "reflp W" "transp W" and d: "input_rel W d"
  shows "poll_rel W (d, s) (snd (fetch_registration lib (d, s)))"
proof -
  obtain r s1 where f: "pd_registrationFetcher d s = (r, s1)" by (cases "pd_registrationFetcher d s")
  moreover from d have "W s (snd (pd_registrationFetcher d s))" by (simp only: input_rel_def)
  ultimately have "W s s1" by simp
  then have a: "poll_rel W (d, s) (e, s1)" if "device_evolves d e" for e
    using that by (simp add: poll_rel_def)
  have b: "poll_rel W (d, s) (snd (validate_timestamp lib js (e, s1)))"
    if "parse_device_id js d = (None, e)" for js e
  proof -
    have e: "device_evolves d e" using parse_device_id_evolves [of d js] that by simp
    have "input_rel W e" using d that by (auto simp: parse_device_id_None)
    then have "poll_rel W (e, s1) (snd (validate_timestamp lib js (e, s1)))"
      by (rule validate_timestamp_rel [OF W])
    with a [OF e] show ?thesis using poll_rel_trans [OF W(2)] by blast
  qed
  show ?thesis
    using a b by (fastforce simp: fetch_registration_def and_then_def lift_snd_def f
        dest: parse_device_id_Some split: outcome.splits sum.splits option.splits prod.splits)
qed

lemma fetch_telemetry_rel:
  assumes W: "reflp W" "transp W" and d: "input_rel W d"
  shows "poll_rel W (d, s) (snd (fetch_telemetry lib (d, s)))"
proof -
  obtain r s1 where f: "pd_telemetryFetcher d s = (r, s1)" by (cases "pd_telemetryFetcher d s")
  moreover from d have "W s (snd (pd_telemetryFetcher d s))" by (simp only: input_rel_def)
  ultimately have a: "poll_rel W (d, s) (d, s1)" by (simp add: poll_rel_def)
  have b: "poll_rel W (d, s) (snd (validate_timestamp lib js (d, s1)))" for js
    using a validate_timestamp_rel [OF W d] poll_rel_trans [OF W(2)] by blast
  have b': "poll_rel W (d, s) t" if "validate_timestamp lib js (d, s1) = (q, t)" for js q t
    using b [of js] that by simp
  show ?thesis
    using a by (auto simp: fetch_telemetry_def and_then_def lift_snd_def f
        dest: b' split: outcome.splits sum.splits option.splits prod.splits)
qed

lemma handle_fetched_world:
  "\<exists>s'. snd (handle_fetched reg tel (d, s)) = (d, s') \<and>
     (s' = snd (HandleRegistration (pd_dataHandler d) (pd_deviceID d) reg s) \<or>
      s' = snd (HandleTelemetry (pd_dataHandler d) (pd_deviceID d) tel
             (snd (HandleRegistration (pd_dataHandler d) (pd_deviceID d) reg s))))"
  by (auto simp: handle_fetched_def and_then_def lift_snd_def split: outcome.splits prod.splits)

text \<open>A run fetches, and hands over what it fetched only when both fetches succeeded.\<close>

lemma poll_run_cases:
  obtains (registration) "snd (poll_run lib ds) = snd (fetch_registration lib ds)"
  | (telemetry) reg ds1 where "fetch_registration lib ds = (Ret (Inr reg), ds1)"
      "snd (poll_run lib ds) = snd (fetch_telemetry lib ds1)"
  | (handle) reg ds1 tel ds2 where "fetch_registration lib ds = (Ret (Inr reg), ds1)"
      "fetch_telemetry lib ds1 = (Ret (Inr tel), ds2)"
      "poll_run lib ds = handle_fetched reg tel ds2"
proof -
  obtain r ds1 where 1: "fetch_registration lib ds = (r, ds1)" by (cases "fetch_registration lib ds")
  show thesis
  proof (cases "\<exists>reg. r = Ret (Inr reg)")
    case True
    then obtain reg where reg: "r = Ret (Inr reg)" by blast
    obtain q ds2 where 2: "fetch_telemetry lib ds1 = (q, ds2)" by (cases "fetch_telemetry lib ds1")
    show thesis
    proof (cases "\<exists>tel. q = Ret (Inr tel)")
      case True
      then show thesis using 1 2 reg handle by (auto simp: poll_run_def and_then_def)
    next
      case False
      then have "snd (poll_run lib ds) = ds2" using 1 2 reg
        by (auto simp: poll_run_def and_then_def split: outcome.splits sum.splits)
      then show thesis using telemetry 1 2 reg by simp
    qed
  next
    case False
    then have "snd (poll_run lib ds) = ds1" using 1
      by (auto simp: poll_run_def and_then_def split: outcome.splits sum.splits)
    then show thesis using registration 1 by simp
  qed
qed

lemma poll_run_evolves: "device_evolves d (fst (snd (poll_run lib (d, s))))"
proof -
  let ?W = "\<lambda>_ _ :: 'a. True"
  have W: "reflp ?W" "transp ?W" "input_rel ?W e" for e :: "'a poll_device"
    by (simp_all add: reflp_def transp_def input_rel_def)
  have r: "device_evolves d (fst (snd (fetch_registration lib (d, s))))"
    using fetch_registration_rel [OF W(1,2) W(3), of d s lib] by (simp add: poll_rel_def)
  have t: "device_evolves e (fst (snd (fetch_telemetry lib (e, u))))" for e :: "'a poll_device" and u
    using fetch_telemetry_rel [OF W(1,2) W(3), of e u lib] by (simp add: poll_rel_def)
  show ?thesis
  proof (cases rule: poll_run_cases [of lib "(d, s)"])
    case registration
    then show ?thesis using r by simp
  next
    case (telemetry reg ds1)
    then show ?thesis using r t [of "fst ds1" "snd ds1"] device_evolves_trans by fastforce
  next
    case (handle reg ds1 tel ds2)
    have "fst (snd (handle_fetched reg tel ds2)) = fst ds2"
      using handle_fetched_world [of reg tel "fst ds2" "snd ds2"] by auto
    then show ?thesis using handle r t [of "fst ds1" "snd ds1"] device_evolves_trans by fastforce
  qed
qed

text \<open>Any number of runs, one after the other as the task runner makes them.\<close>

definition poll_runs :: "json_lib \<Rightarrow> nat \<Rightarrow> 's poll_device \<times> 's \<Rightarrow> 's poll_device \<times> 's" where
  "poll_runs lib n = (\<lambda>ds. snd (poll_run lib ds)) ^^ n"

lemma poll_runs_evolves: "device_evolves (fst ds) (fst (poll_runs lib n ds))"
proof (induction n)
  case (Suc n)
  then show ?case
    using poll_run_evolves [of "fst (poll_runs lib n ds)" lib "snd (poll_runs lib n ds)"]
      device_evolves_trans by (fastforce simp: poll_runs_def)
qed (simp add: poll_runs_def)

section \<open>What reaches the handler\<close>

text \<open>
  A device whose inputs leave the record \<open>handled\<close> of handled documents alone, whose handler
  records at most the document it is given, and whose verifier accepts times in \<open>V\<close> only.
\<close>

definition recorded :: "('s \<Rightarrow> (string \<times> JSON) list) \<Rightarrow> (i64 \<Rightarrow> bool) \<Rightarrow> 's poll_device \<Rightarrow> bool" where
  "recorded handled V d \<longleftrightarrow>
     input_rel (\<lambda>s s'. handled s' = handled s) d \<and>
     (\<forall>t s s'. pd_timeVerifier d t s = (Ret True, s') \<longrightarrow> V t) \<and>
     (\<forall>i js s. handled (snd (HandleRegistration (pd_dataHandler d) i js s)) \<in>
        {handled s, handled s @ [(i, js)]}) \<and>
     (\<forall>i js s. handled (snd (HandleTelemetry (pd_dataHandler d) i js s)) \<in>
        {handled s, handled s @ [(i, js)]})"

definition handled_ok :: "json_lib \<Rightarrow> (i64 \<Rightarrow> bool) \<Rightarrow> string \<Rightarrow> string \<times> JSON \<Rightarrow> bool" where
  "handled_ok lib V known e \<longleftrightarrow>
     (fst e = '''' \<or> fst e = known) \<and>
     (\<exists>ts. snd e ''timestamp'' = Some (JNum ts) \<and> V (int64_of_float (json_out_of_range lib) ts))"

lemma recorded_id [simp]: "recorded handled V (d\<lparr>pd_deviceID := i\<rparr>) = recorded handled V d"
  by (simp add: recorded_def)

lemma recorded_evolves: "device_evolves d d' \<Longrightarrow> recorded handled V d \<Longrightarrow> recorded handled V d'"
  by (auto simp: device_evolves_def)

lemma handled_ok_evolves:
  "device_evolves d d' \<Longrightarrow> handled_ok lib V (pd_deviceID d) e \<Longrightarrow> handled_ok lib V (pd_deviceID d') e"
  by (auto simp: device_evolves_def handled_ok_def)

lemma recorded_verified:
  "recorded handled V d \<Longrightarrow> verified lib d js s s' \<Longrightarrow>
   handled_ok lib V (pd_deviceID d) (pd_deviceID d, js)"
  by (auto simp: recorded_def verified_def handled_ok_def)

lemma handled_step:
  assumes "recorded handled V d"
  shows "set (handled (snd (HandleRegistration (pd_dataHandler d) i js s))) \<subseteq>
      insert (i, js) (set (handled s))"
    and "set (handled (snd (HandleTelemetry (pd_dataHandler d) i js s))) \<subseteq>
      insert (i, js) (set (handled s))"
proof -
  have "handled (snd (HandleRegistration (pd_dataHandler d) i js s)) \<in> {handled s, handled s @ [(i, js)]}"
    "handled (snd (HandleTelemetry (pd_dataHandler d) i js s)) \<in> {handled s, handled s @ [(i, js)]}"
    using assms by (simp_all only: recorded_def)
  then show "set (handled (snd (HandleRegistration (pd_dataHandler d) i js s))) \<subseteq>
      insert (i, js) (set (handled s))"
    "set (handled (snd (HandleTelemetry (pd_dataHandler d) i js s))) \<subseteq>
      insert (i, js) (set (handled s))" by auto
qed

lemma poll_run_handled:
  assumes rec: "recorded handled V d"
    and ok: "\<forall>e \<in> set (handled s). handled_ok lib V (pd_deviceID d) e"
    and r: "snd (poll_run lib (d, s)) = (d', s')"
  shows "\<forall>e \<in> set (handled s'). handled_ok lib V (pd_deviceID d') e"
proof -
  let ?W = "\<lambda>s s' :: 'a. handled s' = handled s"
  have W: "reflp ?W" "transp ?W" by (simp_all add: reflp_def transp_def)
  have in_rel: "input_rel ?W e" if "recorded handled V e" for e using that by (simp add: recorded_def)
  note reg = fetch_registration_rel [OF W in_rel, OF rec, of s lib]
  have ev: "device_evolves d d'" using poll_run_evolves [of d lib s] r by simp
  show ?thesis
  proof (cases rule: poll_run_cases [of lib "(d, s)"])
    case registration
    with r have "snd (fetch_registration lib (d, s)) = (d', s')" by simp
    then have "handled s' = handled s" using reg by (simp add: poll_rel_def)
    then show ?thesis using ok handled_ok_evolves [OF ev] by simp
  next
    case (telemetry rg ds1)
    then have *: "device_evolves d (fst ds1)" "handled (snd ds1) = handled s"
      using reg by (simp_all add: poll_rel_def)
    from telemetry r have "snd (fetch_telemetry lib ds1) = (d', s')" by simp
    then have "handled s' = handled (snd ds1)"
      using fetch_telemetry_rel [OF W in_rel, OF recorded_evolves [OF *(1) rec], of "snd ds1" lib]
      by (simp add: poll_rel_def)
    then show ?thesis using * ok handled_ok_evolves [OF ev] by simp
  next
    case (handle rg ds1 tl ds2)
    obtain d1 s1 where ds1: "ds1 = (d1, s1)" by (cases ds1)
    obtain d2 s2 where ds2: "ds2 = (d2, s2)" by (cases ds2)
    have 1: "device_evolves d d1" "handled s1 = handled s"
      using reg handle by (simp_all add: poll_rel_def ds1)
    have rec1: "recorded handled V d1" by (rule recorded_evolves [OF 1(1) rec])
    obtain s0 where v1: "verified lib d1 rg s0 s1"
      using handle(1) unfolding ds1 by (rule fetch_registration_OkD)
    obtain s3 where v2: "verified lib d1 tl s3 s2" and d2: "d2 = d1"
      using handle(2) unfolding ds1 ds2 by (rule fetch_telemetry_OkD)
    have s2: "handled s2 = handled s"
      using fetch_telemetry_rel [OF W in_rel, OF rec1, of s1 lib] handle(2) 1(2)
      by (simp add: poll_rel_def ds1 ds2)
    have "snd (handle_fetched rg tl (d1, s2)) = (d', s')" using handle(3) r by (simp add: ds2 d2)
    with handle_fetched_world [of rg tl d1 s2]
    have d': "d' = d1" and "s' = snd (HandleRegistration (pd_dataHandler d1) (pd_deviceID d1) rg s2)
      \<or> s' = snd (HandleTelemetry (pd_dataHandler d1) (pd_deviceID d1) tl
             (snd (HandleRegistration (pd_dataHandler d1) (pd_deviceID d1) rg s2)))" by auto
    then have sub: "set (handled s') \<subseteq>
        set (handled s2) \<union> {(pd_deviceID d1, rg), (pd_deviceID d1, tl)}"
      by (elim disjE) (use handled_step [OF rec1] in blast)+
    show ?thesis
    proof
      fix e assume "e \<in> set (handled s')"
      then have "e \<in> set (handled s) \<or> e = (pd_deviceID d1, rg) \<or> e = (pd_deviceID d1, tl)"
        using sub s2 by auto
      then show "handled_ok lib V (pd_deviceID d') e"
        using ok recorded_verified [OF rec1 v1] recorded_verified [OF rec1 v2]
          handled_ok_evolves [OF 1(1)] d' by (elim disjE) auto
    qed
  qed
qed

lemma poll_runs_handled:
  assumes "recorded handled V d" and "handled s = []"
  shows "\<forall>e \<in> set (handled (snd (poll_runs lib n (d, s)))).
     handled_ok lib V (pd_deviceID (fst (poll_runs lib n (d, s)))) e"
proof (induction n)
  case (Suc n)
  have "recorded handled V (fst (poll_runs lib n (d, s)))"
    using recorded_evolves assms(1) poll_runs_evolves [of "(d, s)" lib n] by fastforce
  from poll_run_handled [OF this Suc.IH prod.collapse [symmetric]] show ?case
    by (simp add: poll_runs_def)
qed (simp add: poll_runs_def assms)

section \<open>Properties\<close>

text \<open>A device with fixed documents whose world is the list of the documents it has handled.\<close>

definition sample_lib :: json_lib where
  "sample_lib =
     \<lparr>json_unmarshal = (\<lambda>buf.
        if buf = [0] then Inr [''timestamp'' \<mapsto> JNum 7, ''device_id'' \<mapsto> JStr ''0xAB'']
        else if buf = [1] then Inr [''timestamp'' \<mapsto> JNum 8, ''temp'' \<mapsto> JNum 21]
        else if buf = [2] then Inr [''timestamp'' \<mapsto> JNum (- 1), ''device_id'' \<mapsto> JStr ''0xAB'']
        else Inl (ExtErr ''unexpected end of JSON input'')),
      json_out_of_range = (\<lambda>_. 0)\<rparr>"

definition log_handler :: "(string \<times> JSON) list data_handler" where
  "log_handler =
     \<lparr>HandleTelemetry = (\<lambda>i js s. (Ret None, s @ [(i, js)])),
      HandleRegistration = (\<lambda>i js s. (Ret None, s @ [(i, js)]))\<rparr>"

definition sample_device :: "byte \<Rightarrow> (string \<times> JSON) list poll_device" where
  "sample_device b =
     new_poll_device (\<lambda>s. (Ret (Inr [b]), s)) (\<lambda>s. (Ret (Inr [1]), s)) log_handler
       (\<lambda>s. (Ret None, s)) basic_verify_time"

lemmas sample_defs = sample_device_def sample_lib_def new_poll_device_def log_handler_def
  basic_verify_time_def

text \<open>The parts of a run that succeeds.\<close>

lemma poll_run_OkE:
  assumes "poll_run lib (d, s) = (Ret None, (d', s'))"
  obtains i buf s1 reg s2 buf' s3 tel s4 s5 where
    "pd_registrationFetcher d s = (Ret (Inr buf), s1)" "json_unmarshal lib buf = Inr reg"
    "accepts_id (pd_deviceID d) reg i" "d' = d\<lparr>pd_deviceID := i\<rparr>" "verified lib d reg s1 s2"
    "pd_telemetryFetcher d s2 = (Ret (Inr buf'), s3)" "json_unmarshal lib buf' = Inr tel"
    "verified lib d tel s3 s4"
    "HandleRegistration (pd_dataHandler d) i reg s4 = (Ret None, s5)"
    "HandleTelemetry (pd_dataHandler d) i tel s5 = (Ret None, s')"
proof -
  obtain r d1 s2 where 1: "fetch_registration lib (d, s) = (Ret r, (d1, s2))"
    using assms by (auto simp: poll_run_def and_then_Ret_iff)
  obtain reg where r: "r = Inr reg"
    using assms 1 by (cases r) (auto simp: poll_run_def outcome_simps)
  obtain t d2 s4 where 2: "fetch_telemetry lib (d1, s2) = (Ret t, (d2, s4))"
    using assms 1 r by (auto simp: poll_run_def outcome_simps and_then_Ret_iff)
  obtain tel where t: "t = Inr tel"
    using assms 1 2 r by (cases t) (auto simp: poll_run_def outcome_simps)
  have 3: "handle_fetched reg tel (d2, s4) = (Ret None, (d', s'))"
    using assms 1 2 r t by (auto simp: poll_run_def outcome_simps)
  obtain buf s1 i where reg: "pd_registrationFetcher d s = (Ret (Inr buf), s1)"
    "json_unmarshal lib buf = Inr reg" "accepts_id (pd_deviceID d) reg i"
    "d1 = d\<lparr>pd_deviceID := i\<rparr>" "verified lib d1 reg s1 s2"
    using 1 unfolding r by (rule fetch_registration_OkD)
  obtain buf' s3 where tel: "d2 = d1" "pd_telemetryFetcher d1 s2 = (Ret (Inr buf'), s3)"
    "json_unmarshal lib buf' = Inr tel" "verified lib d1 tel s3 s4"
    using 2 unfolding t by (rule fetch_telemetry_OkD)
  obtain s5 where h: "d' = d2"
    "HandleRegistration (pd_dataHandler d2) (pd_deviceID d2) reg s4 = (Ret None, s5)"
    "HandleTelemetry (pd_dataHandler d2) (pd_deviceID d2) tel s5 = (Ret None, s')"
    using 3 by (rule handle_fetched_OkD)
  show thesis
    by (rule that [of buf s1 reg i s2 buf' s3 tel s4 s5]) (use reg tel h in \<open>simp_all add: verified_def\<close>)
qed

text \<open>
  C7. A successful run has fetched the registration and then the telemetry, both were decoded
  and carried a time the verifier accepted, the registration carried the identifier the device
  already had (any one on the first run), and then the registration and the telemetry were
  handled, in this order, under that identifier. Nothing else happened in the world.
\<close>

theorem poll_success:
  assumes "poll_run lib (d, s) = (Ret None, (d', s'))"
  shows "\<exists>i buf s1 reg s2 buf' s3 tel s4 s5.
     pd_registrationFetcher d s = (Ret (Inr buf), s1) \<and> json_unmarshal lib buf = Inr reg \<and>
     accepts_id (pd_deviceID d) reg i \<and> d' = d\<lparr>pd_deviceID := i\<rparr> \<and> verified lib d reg s1 s2 \<and>
     pd_telemetryFetcher d s2 = (Ret (Inr buf'), s3) \<and> json_unmarshal lib buf' = Inr tel \<and>
     verified lib d tel s3 s4 \<and>
     HandleRegistration (pd_dataHandler d) i reg s4 = (Ret None, s5) \<and>
     HandleTelemetry (pd_dataHandler d) i tel s5 = (Ret None, s')"
  using assms by (rule poll_run_OkE) blast

theorem poll_success_witness:
  "\<exists>d' s'. poll_run sample_lib (sample_device 0, []) = (Ret None, (d', s')) \<and>
     (\<exists>i. d' = (sample_device 0)\<lparr>pd_deviceID := i\<rparr>) \<and> pd_deviceID d' = ''0xAB'' \<and> length s' = 2"
proof -
  let ?d = "(sample_device 0)\<lparr>pd_deviceID := ''0xAB''\<rparr>"
  let ?s = "[(''0xAB'', [''timestamp'' \<mapsto> JNum 7, ''device_id'' \<mapsto> JStr ''0xAB'']),
    (''0xAB'', [''timestamp'' \<mapsto> JNum 8, ''temp'' \<mapsto> JNum 21])]"
  have r: "poll_run sample_lib (sample_device 0, []) = (Ret None, (?d, ?s))"
    by (simp add: sample_defs poll_run_def fetch_registration_def fetch_telemetry_def
        handle_fetched_def parse_device_id_def validate_timestamp_def and_then_def lift_snd_def
        int64_of_float_def)
  show ?thesis
    by (rule exI [of _ ?d], rule exI [of _ ?s]) (use r poll_success [OF r] in auto)
qed

text \<open>
  Once a device has an identifier, no number of runs changes it, whatever the device sends
  and whatever happens in the world; nothing else of the device ever changes.
\<close>

theorem device_id_never_changes:
  assumes "pd_deviceID d \<noteq> ''''"
  shows "fst (poll_runs lib n (d, s)) = d"
  using poll_runs_evolves [of "(d, s)" lib n] assms by (auto simp: device_evolves_def)

theorem device_id_never_changes_witness:
  "fst (poll_runs sample_lib 5 ((sample_device 0)\<lparr>pd_deviceID := ''0xCD''\<rparr>, [])) =
     (sample_device 0)\<lparr>pd_deviceID := ''0xCD''\<rparr>"
  by (rule device_id_never_changes) simp

text \<open>
  C15. Over any number of runs, everything that has been handled carries a time the verifier
  accepted and was handled under the identifier of the device, or under the empty identifier
  when the device sent that one.
\<close>

theorem only_verified_data_is_handled:
  assumes "recorded handled V d" and "handled s = []"
    and "(i, js) \<in> set (handled (snd (poll_runs lib n (d, s))))"
  shows "(i = '''' \<or> i = pd_deviceID (fst (poll_runs lib n (d, s)))) \<and>
     (\<exists>ts. js ''timestamp'' = Some (JNum ts) \<and> V (int64_of_float (json_out_of_range lib) ts))"
  using poll_runs_handled [OF assms(1,2), of lib n] assms(3) by (fastforce simp: handled_ok_def)

theorem only_verified_data_is_handled_witness:
  "\<exists>i js. (i, js) \<in> set (snd (poll_runs sample_lib 1 (sample_device 0, []))) \<and>
     (\<exists>ts. js ''timestamp'' = Some (JNum ts) \<and> 0 < sint (int64_of_float (\<lambda>_. 0) ts))"
proof -
  let ?js = "[''timestamp'' \<mapsto> JNum 7, ''device_id'' \<mapsto> JStr ''0xAB'']"
  have rec: "recorded (\<lambda>s. s) (\<lambda>t. 0 < sint t) (sample_device 0)"
    by (simp add: recorded_def input_rel_def sample_defs)
  have mem: "(''0xAB'', ?js) \<in> set (snd (poll_runs sample_lib 1 (sample_device 0, [])))"
    by (simp add: poll_runs_def sample_defs poll_run_def fetch_registration_def
        fetch_telemetry_def handle_fetched_def parse_device_id_def validate_timestamp_def
        and_then_def lift_snd_def int64_of_float_def)
  show ?thesis
    by (rule exI [of _ "''0xAB''"], rule exI [of _ ?js])
      (use mem only_verified_data_is_handled [OF rec _ mem] in \<open>auto simp: sample_lib_def\<close>)
qed

text \<open>
  When the time of a registration is refused, the run synchronizes the device once, fetches
  no telemetry, handles nothing and fails; the identifier that came with it is kept all the same.
\<close>

theorem refused_time_only_synchronizes:
  assumes "pd_registrationFetcher d s = (Ret (Inr buf), s1)" and "json_unmarshal lib buf = Inr js"
    and "accepts_id (pd_deviceID d) js i" and "js ''timestamp'' = Some (JNum ts)"
    and "pd_timeVerifier d (int64_of_float (json_out_of_range lib) ts) s1 = (Ret False, s2)"
    and "pd_timeSynchronizer d s2 = (Ret e, s3)"
  shows "poll_run lib (d, s) = (Ret (Some (Status StatusError)), (d\<lparr>pd_deviceID := i\<rparr>, s3))"
proof -
  have "parse_device_id js d = (None, d\<lparr>pd_deviceID := i\<rparr>)"
    using assms(3) by (auto simp: parse_device_id_None)
  with assms show ?thesis
    by (simp add: poll_run_def fetch_registration_def validate_timestamp_def and_then_def
        lift_snd_def split: option.splits)
qed

theorem refused_time_only_synchronizes_witness:
  "poll_run sample_lib (sample_device 2, []) =
     (Ret (Some (Status StatusError)), ((sample_device 2)\<lparr>pd_deviceID := ''0xAB''\<rparr>, []))"
  by (rule refused_time_only_synchronizes [where buf = "[2]" and ts = "- 1" and e = None
        and ?s1.0 = "[]" and ?s2.0 = "[]" and
        js = "[''timestamp'' \<mapsto> JNum (- 1), ''device_id'' \<mapsto> JStr ''0xAB'']"])
    (simp_all add: sample_defs accepts_id_def int64_of_float_def ceiling_def)

text \<open>
  A registration without an identifier, with one that is no string, or with another
  identifier than the device has is refused before its time is looked at: the run fails, the
  device is unchanged and the world is as the fetch left it.
\<close>

theorem foreign_registration_is_refused:
  assumes "pd_registrationFetcher d s = (Ret (Inr buf), s1)" and "json_unmarshal lib buf = Inr js"
    and "\<not> (\<exists>i. accepts_id (pd_deviceID d) js i)"
  shows "poll_run lib (d, s) = (Ret (Some (Status StatusError)), (d, s1))"
proof -
  obtain e d' where p: "parse_device_id js d = (e, d')" by (cases "parse_device_id js d")
  have "e \<noteq> None" using assms(3) p parse_device_id_None [of js d d'] by auto
  then obtain e' where e: "e = Some e'" by (cases e) simp_all
  with p have "d' = d" by (auto dest: parse_device_id_Some)
  with p e assms show ?thesis
    by (simp add: poll_run_def fetch_registration_def and_then_def lift_snd_def)
qed

theorem foreign_registration_is_refused_witness:
  "poll_run sample_lib ((sample_device 0)\<lparr>pd_deviceID := ''0xCD''\<rparr>, []) =
     (Ret (Some (Status StatusError)), ((sample_device 0)\<lparr>pd_deviceID := ''0xCD''\<rparr>, []))"
  by (rule foreign_registration_is_refused [where buf = "[0]" and
        js = "[''timestamp'' \<mapsto> JNum 7, ''device_id'' \<mapsto> JStr ''0xAB'']"])
    (simp_all add: sample_defs accepts_id_def)

end
