(* ===== verification/CacheStore.thy ===== *)
theory CacheStore
  imports Colfer_Roundtrip KvDb AliveMonitor Resolve Http Poll
begin

text \<open>
  \<^verbatim>\<open>devstore.CacheStore\<close>: the map of device nodes with the database that persists it and the
  resolve store that is told about their host names. Every method runs under the mutex of the
  store and is one action on the record \<open>cache_store\<close>. A node holds the wiring of its polling
  device as data; \<open>device_task\<close> builds the device of theory Poll from it.
\<close>

section \<open>Nodes\<close>

record cache_store_params =
  csp_FetchInterval :: i64
  csp_FetchTimeout :: i64
  csp_TimeSyncDisable :: bool
  csp_MaxDriftInterval :: i64

text \<open>
  The two clients of \<^verbatim>\<open>htcore\<close>, and the fields that a \<^verbatim>\<open>URLFetcher\<close> and a \<^verbatim>\<open>SystemClock\<close> share:
  the client, the URL and the timeout of the requests.
\<close>

datatype http_client = DefaultClient | ResolveClient

record endpoint =
  ep_client :: http_client
  ep_url :: string
  ep_timeout :: i64

definition new_url_fetcher :: "http_client \<Rightarrow> string \<Rightarrow> i64 \<Rightarrow> endpoint" where
  [simp]: "new_url_fetcher client url timeout = \<lparr>ep_client = client, ep_url = url, ep_timeout = timeout\<rparr>"

definition new_http_clock :: "http_client \<Rightarrow> string \<Rightarrow> i64 \<Rightarrow> endpoint" where
  [simp]: "new_http_clock client url timeout = \<lparr>ep_client = client, ep_url = url, ep_timeout = timeout\<rparr>"

datatype clock_synchronizer = SyncNotSupported | SyncEndpoint endpoint

datatype clock_verifier = VerifyBasic | VerifyDrift i64

text \<open>The wiring of a \<^verbatim>\<open>PollDevice\<close>, and the identifier it has learned.\<close>

record http_device =
  hd_deviceID :: string
  hd_synchronizer :: clock_synchronizer
  hd_verifier :: clock_verifier
  hd_registration :: endpoint
  hd_telemetry :: endpoint
  hd_notifier :: "string option"

text \<open>What a node stops: a host name of the resolve store, or its runner.\<close>

datatype stop_node = StopResolve string | StopRunner

text \<open>
  \<open>sn_starts\<close> counts the calls of the runner's \<^verbatim>\<open>Start\<close>, each of which is a goroutine.
\<close>

record store_node =
  sn_uri :: string
  sn_typ :: string
  sn_desc :: string
  sn_createdAt :: string
  sn_cancelled :: bool
  sn_stopper :: "(string \<times> stop_node) list"
  sn_holder :: string
  sn_device :: http_device
  sn_interval :: i64
  sn_starts :: nat

definition node_start :: "store_node \<Rightarrow> err option \<times> store_node" where
  "node_start n = (None, n\<lparr>sn_starts := Suc (sn_starts n)\<rparr>)"

text \<open>The parameters of the runner of a node.\<close>

definition node_runner_params :: "store_node \<Rightarrow> runner_params" where
  "node_runner_params n =
     \<lparr>UpdateInterval = sn_interval n, ExitOnSuccess = False, DisableRecoverOnPanic = False\<rparr>"

text \<open>
  One stopper: a host name that the resolve store forgets, or the \<^verbatim>\<open>Stop\<close> of the runner, whose
  context was cancelled before.
\<close>

definition stop_action :: "nat \<Rightarrow> stop_node \<Rightarrow> resolve_store task" where
  "stop_action starts x rs =
     (case x of
        StopResolve hostname \<Rightarrow> (Ret None, resolve_remove hostname rs)
      | StopRunner \<Rightarrow> runner_stop starts rs)"

definition node_stop :: "store_node \<Rightarrow> resolve_store task" where
  "node_stop n =
     (let n = n\<lparr>sn_cancelled := True\<rparr>
      in fanout_stop (map (\<lambda>(i, x). (i, stop_action (sn_starts n) x)) (sn_stopper n)))"

section \<open>The store\<close>

text \<open>
  \<open>cs_nodes\<close> is \<^const>\<open>None\<close> for the nil map that \<^verbatim>\<open>Stop\<close> leaves; \<open>cs_monitor\<close> tells whether
  \<^verbatim>\<open>SetAliveMonitor\<close> was called; \<open>cs_now\<close> and \<open>cs_mono\<close> are what the wall clock and the
  monotonic clock of the process read.
\<close>

record 'd cache_store =
  cs_params :: cache_store_params
  cs_resolve :: resolve_store
  cs_monitor :: bool
  cs_db :: 'd
  cs_nodes :: "(string \<rightharpoonup> store_node) option"
  cs_now :: i64
  cs_mono :: i64

definition nodes_of :: "'d cache_store \<Rightarrow> string \<rightharpoonup> store_node" where
  "nodes_of cs = (case cs_nodes cs of None \<Rightarrow> Map.empty | Some m \<Rightarrow> m)"

definition set_alive_monitor :: "'d cache_store \<Rightarrow> 'd cache_store" where
  "set_alive_monitor cs = cs\<lparr>cs_monitor := True\<rparr>"

text \<open>The stoppers of the node under construction and the resolve store.\<close>

type_synonym wiring = "(string \<times> stop_node) list \<times> resolve_store"

definition make_http_client :: "string \<Rightarrow> string \<Rightarrow> string \<Rightarrow> wiring \<Rightarrow> http_client \<times> wiring" where
  "make_http_client uri desc hostname = (\<lambda>(stoppers, rs).
     (if \<not> contains uri ''.local'' then (DefaultClient, (stoppers, rs))
      else (ResolveClient,
            (stoppers @ [(''resolve-store-'' @ desc, StopResolve hostname)], resolve_add hostname rs))))"

definition make_synchronizer :: "cache_store_params \<Rightarrow> string \<Rightarrow> string \<Rightarrow> string \<Rightarrow> wiring
    \<Rightarrow> clock_synchronizer \<times> wiring" where
  "make_synchronizer params uri desc hostname w =
     (if csp_TimeSyncDisable params then (SyncNotSupported, w)
      else (case make_http_client uri desc hostname w of
              (client, w) \<Rightarrow>
                (SyncEndpoint (new_http_clock client (uri @ ''/system/time'') (csp_FetchTimeout params)), w)))"

definition make_verifier :: "cache_store_params \<Rightarrow> clock_verifier" where
  "make_verifier params =
     (if csp_MaxDriftInterval params = 0 then VerifyBasic
      else VerifyDrift (csp_MaxDriftInterval params))"

definition new_http_device :: "cache_store_params \<Rightarrow> bool \<Rightarrow> string \<Rightarrow> string \<Rightarrow> string \<Rightarrow> wiring
    \<Rightarrow> http_device \<times> wiring" where
  "new_http_device params monitor uri desc hostname w =
     (case make_synchronizer params uri desc hostname w of (synchronizer, w) \<Rightarrow>
     (case make_http_client uri desc hostname w of (registration, w) \<Rightarrow>
     (case make_http_client uri desc hostname w of (telemetry, w) \<Rightarrow>
        (\<lparr>hd_deviceID = '''', hd_synchronizer = synchronizer, hd_verifier = make_verifier params,
          hd_registration = new_url_fetcher registration (uri @ ''/registration'') (csp_FetchTimeout params),
          hd_telemetry = new_url_fetcher telemetry (uri @ ''/telemetry'') (csp_FetchTimeout params),
          hd_notifier = (if monitor then Some uri else None)\<rparr>, w))))"

text \<open>\<^verbatim>\<open>fmt1123\<close> is \<^verbatim>\<open>Format(time.RFC1123)\<close> in the time zone of the host.\<close>

definition make_node_http :: "(i64 \<Rightarrow> string) \<Rightarrow> url \<Rightarrow> string \<Rightarrow> string \<Rightarrow> string \<Rightarrow> i64
    \<Rightarrow> 'd cache_store \<Rightarrow> (err + store_node) \<times> 'd cache_store" where
  "make_node_http fmt1123 u uri typ desc now cs =
     (if url_port u = '''' then (Inl (Errorf ''HTTP port is missed'' None), cs)
      else (case new_http_device (cs_params cs) (cs_monitor cs) uri desc (url_hostname u)
                   ([], cs_resolve cs) of
              (device, (stoppers, rs)) \<Rightarrow>
                (Inr \<lparr>sn_uri = uri, sn_typ = typ, sn_desc = desc, sn_createdAt = fmt1123 now,
                      sn_cancelled = False, sn_stopper = stoppers @ [(desc, StopRunner)],
                      sn_holder = '''', sn_device = device,
                      sn_interval = csp_FetchInterval (cs_params cs), sn_starts = 0\<rparr>,
                 cs\<lparr>cs_resolve := rs\<rparr>)))"

datatype device_type = DeviceUnsupported | DeviceHTTP

definition parse_device_type :: "string \<Rightarrow> device_type" where
  "parse_device_type scheme =
     (if scheme = ''http'' \<or> scheme = ''https'' then DeviceHTTP else DeviceUnsupported)"

definition make_node :: "(i64 \<Rightarrow> string) \<Rightarrow> string \<Rightarrow> string \<Rightarrow> string \<Rightarrow> i64
    \<Rightarrow> 'd cache_store \<Rightarrow> (err + store_node) \<times> 'd cache_store" where
  "make_node fmt1123 uri typ desc now cs =
     (case url_parse uri of
        Inl e \<Rightarrow> (Inl e, cs)
      | Inr u \<Rightarrow>
          (case parse_device_type (url_Scheme u) of
             DeviceHTTP \<Rightarrow> make_node_http fmt1123 u uri typ desc now cs
           | _ \<Rightarrow> (Inl (Status StatusNotSupported), cs)))"

section \<open>Operations\<close>

definition cache_add :: "'d db \<Rightarrow> (i64 \<Rightarrow> string) \<Rightarrow> string \<Rightarrow> string \<Rightarrow> string
    \<Rightarrow> ('d cache_store, err option) action" where
  "cache_add db fmt1123 uri typ desc cs =
     (if nodes_of cs uri \<noteq> None then (Ret (Some ErrDeviceExist), cs)
      else (case make_node fmt1123 uri typ desc (cs_now cs) cs of
         (Inl e, cs) \<Rightarrow> (Ret (Some e), cs)
       | (Inr node, cs) \<Rightarrow>
           (case MarshalBinary \<lparr>item_Desc = desc, item_Timestamp = cs_now cs, item_Type = typ\<rparr> of
              Panic \<Rightarrow> (Panic, cs)
            | Hang \<Rightarrow> (Hang, cs)
            | Ret (Inl e) \<Rightarrow> (Ret (Some e), cs)
            | Ret (Inr buf) \<Rightarrow>
                (case db_Write db uri buf (cs_db cs) of
                   (Panic, d) \<Rightarrow> (Panic, cs\<lparr>cs_db := d\<rparr>)
                 | (Hang, d) \<Rightarrow> (Hang, cs\<lparr>cs_db := d\<rparr>)
                 | (Ret (Some e), d) \<Rightarrow>
                     (Ret (Some (Errorf (''failed to persist device information: uri='' @ uri
                        @ '' err='') (Some e))), cs\<lparr>cs_db := d\<rparr>)
                 | (Ret None, d) \<Rightarrow>
                     (case node_start node of
                        (Some e, _) \<Rightarrow> (Ret (Some e), cs\<lparr>cs_db := d\<rparr>)
                      | (None, node) \<Rightarrow>
                          (case cs_nodes cs of
                             None \<Rightarrow> (Panic, cs\<lparr>cs_db := d\<rparr>)
                           | Some m \<Rightarrow>
                               (Ret None, cs\<lparr>cs_db := d, cs_nodes := Some (m(uri \<mapsto> node))\<rparr>)))))))"

definition cache_remove :: "'d db \<Rightarrow> string \<Rightarrow> ('d cache_store, err option) action" where
  "cache_remove db uri cs =
     (case nodes_of cs uri of
        None \<Rightarrow> (Ret (Some (Status StatusNoData)), cs)
      | Some node \<Rightarrow>
          (case db_Remove db uri (cs_db cs) of
             (Panic, d) \<Rightarrow> (Panic, cs\<lparr>cs_db := d\<rparr>)
           | (Hang, d) \<Rightarrow> (Hang, cs\<lparr>cs_db := d\<rparr>)
           | (Ret (Some e), d) \<Rightarrow> (Ret (Some e), cs\<lparr>cs_db := d\<rparr>)
           | (Ret None, d) \<Rightarrow>
               (case node_stop node (cs_resolve cs) of
                  (Panic, rs) \<Rightarrow> (Panic, cs\<lparr>cs_db := d, cs_resolve := rs\<rparr>)
                | (Hang, rs) \<Rightarrow> (Hang, cs\<lparr>cs_db := d, cs_resolve := rs\<rparr>)
                | (Ret (Some e), rs) \<Rightarrow>
                    (Ret (Some (Errorf (''failed to stop device: uri='' @ uri @ '' err='') (Some e))),
                     cs\<lparr>cs_db := d, cs_resolve := rs\<rparr>)
                | (Ret None, rs) \<Rightarrow>
                    (Ret None, cs\<lparr>cs_db := d, cs_resolve := rs,
                       cs_nodes := map_option (\<lambda>m. m(uri := None)) (cs_nodes cs)\<rparr>))))"

text \<open>
  The loops over the map visit its keys in an order the runtime picks: \<open>ord\<close>.
\<close>

fun start_loop :: "string list \<Rightarrow> (string \<rightharpoonup> store_node) \<Rightarrow> err option \<times> (string \<rightharpoonup> store_node)" where
  "start_loop [] m = (None, m)"
| "start_loop (uri # ord) m =
     (case m uri of
        None \<Rightarrow> start_loop ord m
      | Some node \<Rightarrow>
          (case node_start node of
             (Some e, node) \<Rightarrow> (Some e, m(uri \<mapsto> node))
           | (None, node) \<Rightarrow> start_loop ord (m(uri \<mapsto> node))))"

definition cache_start :: "string list \<Rightarrow> ('d cache_store, err option) action" where
  "cache_start ord cs =
     (case cs_nodes cs of
        None \<Rightarrow> (Ret None, cs)
      | Some m \<Rightarrow> (case start_loop ord m of (e, m) \<Rightarrow> (Ret e, cs\<lparr>cs_nodes := Some m\<rparr>)))"

fun stop_loop :: "(string \<rightharpoonup> store_node) \<Rightarrow> string list \<Rightarrow> (resolve_store, unit) action" where
  "stop_loop m [] rs = (Ret (), rs)"
| "stop_loop m (uri # ord) rs =
     (case m uri of
        None \<Rightarrow> stop_loop m ord rs
      | Some node \<Rightarrow> and_then (node_stop node) (\<lambda>_. stop_loop m ord) rs)"

definition cache_stop :: "string list \<Rightarrow> ('d cache_store, err option) action" where
  "cache_stop ord cs =
     (case stop_loop (nodes_of cs) ord (cs_resolve cs) of
        (Ret _, rs) \<Rightarrow> (Ret None, cs\<lparr>cs_resolve := rs, cs_nodes := None\<rparr>)
      | (Panic, rs) \<Rightarrow> (Panic, cs\<lparr>cs_resolve := rs\<rparr>)
      | (Hang, rs) \<Rightarrow> (Hang, cs\<lparr>cs_resolve := rs\<rparr>))"

definition item_of :: "store_node \<Rightarrow> store_item" where
  "item_of node =
     \<lparr>si_URI = sn_uri node, si_Type = sn_typ node, si_Desc = sn_desc node, si_ID = sn_holder node,
      si_CreatedAt = sn_createdAt node\<rparr>"

definition cache_get_desc :: "string list \<Rightarrow> ('d cache_store, store_item list) action" where
  "cache_get_desc ord cs = (Ret (map item_of (List.map_filter (nodes_of cs) ord)), cs)"

section \<open>Restoring\<close>

definition restore_node :: "(i64 \<Rightarrow> string) \<Rightarrow> string \<Rightarrow> byte list
    \<Rightarrow> 'd cache_store \<Rightarrow> err option outcome \<times> 'd cache_store" where
  "restore_node fmt1123 uri buf cs =
     (case Unmarshal buf empty_item of
        (Panic, _) \<Rightarrow> (Panic, cs)
      | (Hang, _) \<Rightarrow> (Hang, cs)
      | (Ret (_, Some e), _) \<Rightarrow> (Ret (Some e), cs)
      | (Ret (_, None), item) \<Rightarrow>
          (case make_node fmt1123 uri (item_Type item) (item_Desc item) (item_Timestamp item) cs of
             (Inl e, cs) \<Rightarrow> (Ret (Some e), cs)
           | (Inr node, cs) \<Rightarrow>
               (Ret None, cs\<lparr>cs_nodes := Some ((nodes_of cs)(uri \<mapsto> node))\<rparr>)))"

text \<open>The closure given to \<^verbatim>\<open>ForEach\<close>; its captured state is the list of unrestored URIs.\<close>

fun restore_entries :: "(i64 \<Rightarrow> string) \<Rightarrow> (string \<times> byte list) list
    \<Rightarrow> (string list \<times> 'd cache_store, unit) action" where
  "restore_entries fmt1123 [] ucs = (Ret (), ucs)"
| "restore_entries fmt1123 ((uri, buf) # es) (unrestored, cs) =
     (case restore_node fmt1123 uri buf cs of
        (Panic, cs) \<Rightarrow> (Panic, (unrestored, cs))
      | (Hang, cs) \<Rightarrow> (Hang, (unrestored, cs))
      | (Ret (Some e), cs) \<Rightarrow> restore_entries fmt1123 es (unrestored @ [uri], cs)
      | (Ret None, cs) \<Rightarrow> restore_entries fmt1123 es (unrestored, cs))"

fun remove_unrestored :: "'d db \<Rightarrow> string list \<Rightarrow> ('d, unit) action" where
  "remove_unrestored db [] d = (Ret (), d)"
| "remove_unrestored db (uri # uris) d =
     and_then (db_Remove db uri) (\<lambda>_. remove_unrestored db uris) d"

definition restore_nodes :: "'d db \<Rightarrow> (i64 \<Rightarrow> string) \<Rightarrow> ('d cache_store, unit) action" where
  "restore_nodes db fmt1123 cs =
     (case db_entries db (cs_db cs) of
        (Panic, d) \<Rightarrow> (Panic, cs\<lparr>cs_db := d\<rparr>)
      | (Hang, d) \<Rightarrow> (Hang, cs\<lparr>cs_db := d\<rparr>)
      | (Ret (es, e), d) \<Rightarrow>
          (case restore_entries fmt1123 es ([], cs\<lparr>cs_db := d\<rparr>) of
             (Panic, (_, cs)) \<Rightarrow> (Panic, cs)
           | (Hang, (_, cs)) \<Rightarrow> (Hang, cs)
           | (Ret _, (unrestored, cs)) \<Rightarrow>
               (if e \<noteq> None then (Panic, cs)
                else (case remove_unrestored db unrestored (cs_db cs) of
                        (r, d) \<Rightarrow> (r, cs\<lparr>cs_db := d\<rparr>)))))"

definition new_cache_store :: "'d db \<Rightarrow> (i64 \<Rightarrow> string) \<Rightarrow> cache_store_params \<Rightarrow> resolve_store
    \<Rightarrow> 'd \<Rightarrow> i64 \<Rightarrow> i64 \<Rightarrow> unit outcome \<times> 'd cache_store" where
  "new_cache_store db fmt1123 params rs d now monotonic =
     restore_nodes db fmt1123
       \<lparr>cs_params = params, cs_resolve = rs, cs_monitor = False, cs_db = d,
        cs_nodes = Some Map.empty, cs_now = now, cs_mono = monotonic\<rparr>"

text \<open>The store as its clients see it, for the order \<open>order\<close> of the keys of its map.\<close>

definition cache_store_ops :: "'d db \<Rightarrow> (i64 \<Rightarrow> string) \<Rightarrow> (string set \<Rightarrow> string list)
    \<Rightarrow> 'd cache_store store" where
  "cache_store_ops db fmt1123 order =
     \<lparr>store_Add = cache_add db fmt1123, store_Remove = cache_remove db,
      store_GetDesc = (\<lambda>cs. cache_get_desc (order (dom (nodes_of cs))) cs)\<rparr>"

section \<open>The task of a node\<close>

text \<open>
  The polling device that the wiring of a node stands for, with the transactions \<open>send\<close> of the
  two clients; its world is the identifier in the node's holder and the rest.
\<close>

definition endpoint_do :: "(http_client \<Rightarrow> i64 \<Rightarrow> 's http_do) \<Rightarrow> endpoint \<Rightarrow> 's http_do" where
  "endpoint_do send ep = send (ep_client ep) (ep_timeout ep)"

definition device_task :: "(http_client \<Rightarrow> i64 \<Rightarrow> 's http_do) \<Rightarrow> 's system_clock
    \<Rightarrow> 's system_clock \<Rightarrow> 's data_handler \<Rightarrow> http_device \<Rightarrow> (string \<times> 's) poll_device" where
  "device_task send local_clock remote_last data_handler dev =
     (new_poll_device
       (lift_snd (url_fetch (endpoint_do send (hd_registration dev)) (ep_url (hd_registration dev))))
       (lift_snd (url_fetch (endpoint_do send (hd_telemetry dev)) (ep_url (hd_telemetry dev))))
       (id_holder data_handler)
       (case hd_synchronizer dev of
          SyncNotSupported \<Rightarrow> func_synchronizer (\<lambda>s. (Ret (Some (Status StatusNotSupported)), s))
        | SyncEndpoint ep \<Rightarrow>
            lift_snd (sync_time local_clock remote_last (http_clock (endpoint_do send ep) (ep_url ep))))
       (case hd_verifier dev of
          VerifyBasic \<Rightarrow> basic_verify_time
        | VerifyDrift d \<Rightarrow> (\<lambda>t. lift_snd (drift_verify_time local_clock d t))))
     \<lparr>pd_deviceID := hd_deviceID dev\<rparr>"

end
