(* ===== verification/CacheStore_Contract.thy ===== *)
theory CacheStore_Contract
  imports CacheStore "HOL-Library.List_Lexorder" "HOL-Library.Char_ord"
begin

text \<open>
  The cache store keeps the contract of a store over every database whose calls return
  (\<open>cached_devices\<close>), also decorated by \<^verbatim>\<open>AwakeStore\<close> and by the alive monitor, as the
  application composes them; and over a database that stores, a new store restores exactly the
  devices of the old one (\<open>persistent_devices\<close>).
\<close>

section \<open>Building a node\<close>

text \<open>The URIs a node can be built for, whatever the type and the description.\<close>

definition restorable :: "string \<Rightarrow> bool" where
  "restorable uri \<longleftrightarrow>
     (case url_parse uri of
        Inl e \<Rightarrow> False
      | Inr u \<Rightarrow> parse_device_type (url_Scheme u) = DeviceHTTP \<and> url_port u \<noteq> '''')"

text \<open>What a node built from a record has.\<close>

definition node_for :: "(i64 \<Rightarrow> string) \<Rightarrow> string \<Rightarrow> storage_item \<Rightarrow> store_node \<Rightarrow> bool" where
  "node_for fmt1123 uri item n \<longleftrightarrow>
     sn_uri n = uri \<and> sn_typ n = item_Type item \<and> sn_desc n = item_Desc item \<and>
     sn_createdAt n = fmt1123 (item_Timestamp item)"

lemma make_node_ok:
  assumes "restorable uri"
  shows "\<exists>n rs. make_node fmt1123 uri typ desc now cs = (Inr n, cs\<lparr>cs_resolve := rs\<rparr>) \<and>
     node_for fmt1123 uri \<lparr>item_Desc = desc, item_Timestamp = now, item_Type = typ\<rparr> n \<and>
     sn_starts n = 0 \<and> sn_holder n = '''' \<and> hd_notifier (sn_device n) = (if cs_monitor cs then Some uri else None)"
  using assms
  by (auto simp: restorable_def make_node_def make_node_http_def node_for_def new_http_device_def
      split: sum.splits prod.splits)

lemma make_node_error:
  assumes "\<not> restorable uri"
  shows "\<exists>e. make_node fmt1123 uri typ desc now cs = (Inl e, cs) \<and> e \<noteq> ErrDeviceExist"
  using assms url_parse_error [of uri]
  by (auto simp: restorable_def make_node_def make_node_http_def
      split: sum.splits prod.splits device_type.splits)

lemma MarshalBinary_error: "MarshalBinary item = Ret (Inl e) \<Longrightarrow> e \<noteq> ErrDeviceExist"
  by (auto simp: MarshalBinary_def MarshalLen_def len_text_def Let_def
      split: sum.splits if_splits option.splits prod.splits)

lemma MarshalBinary_cases:
  obtains e where "MarshalBinary item = Ret (Inl e)" "e \<noteq> ErrDeviceExist"
  | buf where "MarshalBinary item = Ret (Inr buf)"
proof -
  obtain r where r: "MarshalBinary item = Ret r" using MarshalBinary_returns by blast
  with that MarshalBinary_error [of item] show thesis by (cases r) auto
qed

section \<open>Stopping a node\<close>

lemma stop_action_once: "\<exists>rs'. stop_action 1 x rs = (Ret None, rs')"
  by (cases x) (simp_all add: stop_action_def runner_stop_def)

lemma fanout_stop_once:
  "\<exists>rs'. fanout_stop (map (\<lambda>(i, x). (i, stop_action 1 x)) xs) rs = (Ret None, rs')"
proof (induction xs arbitrary: rs)
  case (Cons x xs)
  obtain i y where x: "x = (i, y)" by (cases x)
  obtain rs1 where "stop_action 1 y rs = (Ret None, rs1)" using stop_action_once by blast
  then show ?case using Cons.IH [of rs1] by (simp add: x outcome_simps)
qed simp

lemma node_stop_once: "sn_starts n = 1 \<Longrightarrow> \<exists>rs'. node_stop n rs = (Ret None, rs')"
  using fanout_stop_once by (simp add: node_stop_def Let_def)

text \<open>What a node stops: host names of the resolve store and, last, its runner.\<close>

definition resolve_stops :: "string \<Rightarrow> string \<Rightarrow> (string \<times> stop_node) list \<Rightarrow> bool" where
  "resolve_stops uri hostname xs \<longleftrightarrow>
     set (map snd xs) = (if contains uri ''.local'' then {StopResolve hostname} else {})"

lemma make_node_stopper:
  assumes "make_node fmt1123 uri typ desc now cs = (Inr n, cs')" and "url_parse uri = Inr u"
  shows "\<exists>xs. sn_stopper n = xs @ [(desc, StopRunner)] \<and> resolve_stops uri (url_hostname u) xs \<and>
     sn_starts n = 0 \<and> cs_nodes cs' = cs_nodes cs \<and>
     (contains uri ''.local'' \<longrightarrow> ep_client (hd_registration (sn_device n)) = ResolveClient)"
  using assms
  by (auto simp: make_node_def make_node_http_def new_http_device_def make_synchronizer_def
      make_http_client_def resolve_stops_def split: if_splits device_type.splits prod.splits)

lemma make_node_parses: "make_node fmt1123 uri typ desc now cs = (Inr n, cs') \<Longrightarrow> \<exists>u. url_parse uri = Inr u"
  by (auto simp: make_node_def split: sum.splits)

lemma fanout_stop_append:
  assumes "fanout_stop (map (\<lambda>(i, x). (i, stop_action k x)) xs) rs = (Ret e, rs')"
  shows "fanout_stop (map (\<lambda>(i, x). (i, stop_action k x)) (xs @ ys)) rs =
     fanout_stop (map (\<lambda>(i, x). (i, stop_action k x)) ys) rs'"
  using assms
proof (induction xs arbitrary: rs)
  case (Cons x xs)
  obtain i y where x: "x = (i, y)" by (cases x)
  obtain e1 rs1 where s: "stop_action k y rs = (Ret e1, rs1)"
    using Cons.prems by (auto simp: x and_then_Ret_iff)
  with Cons show ?case by (simp add: x outcome_simps)
qed simp

text \<open>Stopping the resolvers of a node forgets its host name.\<close>

lemma fanout_stop_resolvers:
  assumes "\<And>x. x \<in> set xs \<Longrightarrow> snd x = StopResolve h"
  shows "\<exists>rs'. fanout_stop (map (\<lambda>(i, x). (i, stop_action k x)) xs) rs = (Ret None, rs') \<and>
     rs_known rs' = (if xs = [] then rs_known rs else rs_known rs - {h}) \<and>
     (xs \<noteq> [] \<longrightarrow> rs_addrs rs' h = None)"
  using assms
proof (induction xs arbitrary: rs)
  case (Cons x xs)
  obtain i where x: "x = (i, StopResolve h)" using Cons.prems [of x] by (cases x) auto
  have "\<exists>rs'. fanout_stop (map (\<lambda>(i, x). (i, stop_action k x)) xs) (resolve_remove h rs) = (Ret None, rs') \<and>
     rs_known rs' = (if xs = [] then rs_known (resolve_remove h rs) else rs_known (resolve_remove h rs) - {h}) \<and>
     (xs \<noteq> [] \<longrightarrow> rs_addrs rs' h = None)"
    by (rule Cons.IH) (use Cons.prems in auto)
  moreover have "stop_action k (StopResolve h) rs = (Ret None, resolve_remove h rs)"
    by (simp add: stop_action_def)
  ultimately show ?case by (cases "xs = []") (auto simp: x outcome_simps resolve_remove_def)
qed simp

lemma node_stop_resolvers:
  assumes "sn_stopper n = xs @ [(desc, StopRunner)]" and "resolve_stops uri h xs"
  shows "\<exists>rs'. node_stop n rs =
       (if sn_starts n = 0 then Hang else Ret None, rs') \<and>
     (contains uri ''.local'' \<longrightarrow> h \<notin> rs_known rs' \<and> rs_addrs rs' h = None)"
proof -
  have x: "snd x = StopResolve h" if "x \<in> set xs" for x
    using assms(2) imageI [OF that, of snd] by (auto simp: resolve_stops_def split: if_splits)
  obtain rs' where rs': "fanout_stop (map (\<lambda>(i, x). (i, stop_action (sn_starts n) x)) xs) rs = (Ret None, rs')"
    "rs_known rs' = (if xs = [] then rs_known rs else rs_known rs - {h})"
    "xs \<noteq> [] \<longrightarrow> rs_addrs rs' h = None"
    using fanout_stop_resolvers [OF x] by blast
  have "contains uri ''.local'' \<Longrightarrow> xs \<noteq> []" using assms(2) by (auto simp: resolve_stops_def)
  with rs' fanout_stop_append [OF rs'(1), of "[(desc, StopRunner)]"] show ?thesis
    by (auto simp: node_stop_def Let_def assms(1) and_then_def stop_action_def runner_stop_def)
qed

section \<open>The contract\<close>

text \<open>
  Every node of a live store has its URI as key and a runner that was started once.
\<close>

definition live :: "('d \<Rightarrow> bool) \<Rightarrow> 'd cache_store \<Rightarrow> bool" where
  "live ok cs \<longleftrightarrow>
     ok (cs_db cs) \<and> cs_nodes cs \<noteq> None \<and> finite (dom (nodes_of cs)) \<and>
     (\<forall>u n. nodes_of cs u = Some n \<longrightarrow> sn_uri n = u \<and> sn_starts n = 1)"

definition cached_uris :: "'d cache_store \<Rightarrow> string set" where
  "cached_uris cs = dom (nodes_of cs)"

lemma nodes_of_Some [simp]: "cs_nodes cs = Some m \<Longrightarrow> nodes_of cs = m"
  by (simp add: nodes_of_def)

lemma nodes_of_update [simp]:
  "nodes_of (cs\<lparr>cs_db := d\<rparr>) = nodes_of cs" "nodes_of (cs\<lparr>cs_resolve := rs\<rparr>) = nodes_of cs"
  "nodes_of (cs\<lparr>cs_nodes := Some m\<rparr>) = m"
  by (simp_all add: nodes_of_def)

text \<open>What adding a device with the result \<open>e\<close> does to the nodes and the database.\<close>

definition added :: "'d db \<Rightarrow> (i64 \<Rightarrow> string) \<Rightarrow> string \<Rightarrow> string \<Rightarrow> string \<Rightarrow> err option
    \<Rightarrow> 'd cache_store \<Rightarrow> 'd cache_store \<Rightarrow> bool" where
  "added db fmt1123 u t d e cs cs' \<longleftrightarrow>
     (let item = \<lparr>item_Desc = d, item_Timestamp = cs_now cs, item_Type = t\<rparr>
      in if e = None
         then (\<exists>n buf. nodes_of cs' = (nodes_of cs)(u \<mapsto> n) \<and> restorable u \<and>
           node_for fmt1123 u item n \<and>
           hd_notifier (sn_device n) = (if cs_monitor cs then Some u else None) \<and>
           MarshalBinary item = Ret (Inr buf) \<and> db_Write db u buf (cs_db cs) = (Ret None, cs_db cs'))
         else nodes_of cs' = nodes_of cs \<and>
           (cs_db cs' = cs_db cs \<or>
            (\<exists>buf e'. db_Write db u buf (cs_db cs) = (Ret (Some e'), cs_db cs'))))"

lemma added_uris:
  assumes "added db fmt1123 u t d e cs cs'"
  shows "cached_uris cs' = (if e = None then insert u (cached_uris cs) else cached_uris cs)"
  using assms by (cases e) (auto simp: Let_def added_def cached_uris_def)

lemma map_item_uris:
  assumes key: "\<And>u n. nodes_of cs u = Some n \<Longrightarrow> sn_uri n = u"
  shows "set us \<subseteq> dom (nodes_of cs) \<Longrightarrow>
     map si_URI (map item_of (List.map_filter (nodes_of cs) us)) = us"
  by (induction us) (auto simp: map_filter_simps item_of_def key)

locale cached_devices = total_db db ok for db :: "'d db" and ok +
  fixes order :: "string set \<Rightarrow> string list"
  assumes order_set: "finite A \<Longrightarrow> set (order A) = A"
    and order_distinct: "finite A \<Longrightarrow> distinct (order A)"
begin

lemma cache_add_spec:
  assumes live: "live ok cs" and new: "nodes_of cs u = None"
  shows "\<exists>e cs'. cache_add db fmt1123 u t d cs = (Ret e, cs') \<and> live ok cs' \<and>
     e \<noteq> Some ErrDeviceExist \<and> cs_now cs' = cs_now cs \<and> cs_mono cs' = cs_mono cs \<and>
     added db fmt1123 u t d e cs cs'"
proof (cases "restorable u")
  case False
  then obtain e where "make_node fmt1123 u t d (cs_now cs) cs = (Inl e, cs)" "e \<noteq> ErrDeviceExist"
    using make_node_error by blast
  then show ?thesis using live new by (simp add: cache_add_def added_def Let_def)
next
  case True
  let ?item = "\<lparr>item_Desc = d, item_Timestamp = cs_now cs, item_Type = t\<rparr>"
  obtain n rs where n: "make_node fmt1123 u t d (cs_now cs) cs = (Inr n, cs\<lparr>cs_resolve := rs\<rparr>)"
    "node_for fmt1123 u ?item n" "sn_starts n = 0"
    "hd_notifier (sn_device n) = (if cs_monitor cs then Some u else None)"
    using make_node_ok [OF True] by blast
  show ?thesis
  proof (cases rule: MarshalBinary_cases [of ?item])
    case (1 e)
    then show ?thesis using n live new by (simp add: cache_add_def live_def added_def Let_def)
  next
    case (2 buf)
    have "ok (cs_db cs)" using live by (simp add: live_def)
    then obtain e dd where w: "db_Write db u buf (cs_db cs) = (Ret e, dd)" "ok dd"
      using write_returns by blast
    obtain m where m: "cs_nodes cs = Some m" using live by (auto simp: live_def)
    show ?thesis
    proof (cases e)
      case None
      let ?n = "n\<lparr>sn_starts := 1\<rparr>"
      let ?cs = "cs\<lparr>cs_resolve := rs, cs_db := dd, cs_nodes := Some (m(u \<mapsto> ?n))\<rparr>"
      have "cache_add db fmt1123 u t d cs = (Ret None, ?cs)"
        using n 2 w m new None by (simp add: cache_add_def node_start_def)
      moreover have "live ok ?cs" using live w m n(2) by (auto simp: live_def node_for_def)
      moreover have "added db fmt1123 u t d None cs ?cs"
        using n(2,4) 2 w m None True by (auto simp: Let_def added_def node_for_def)
      ultimately show ?thesis by auto
    next
      case (Some e')
      then have "cache_add db fmt1123 u t d cs =
          (Ret (Some (Errorf (''failed to persist device information: uri='' @ u @ '' err='') (Some e'))),
           cs\<lparr>cs_resolve := rs, cs_db := dd\<rparr>)"
        using n 2 w new by (simp add: cache_add_def)
      moreover have "live ok (cs\<lparr>cs_resolve := rs, cs_db := dd\<rparr>)"
        using live w by (simp add: live_def)
      moreover have "added db fmt1123 u t d (Some e'') cs (cs\<lparr>cs_resolve := rs, cs_db := dd\<rparr>)" for e''
        using w Some by (auto simp: Let_def added_def)
      ultimately show ?thesis by auto
    qed
  qed
qed

lemma cache_add_succeeds:
  assumes live: "live ok cs"
    and item: "item = \<lparr>item_Desc = d, item_Timestamp = cs_now cs, item_Type = t\<rparr>"
  shows "\<exists>e cs'. cache_add db fmt1123 u t d cs = (Ret e, cs') \<and> live ok cs' \<and>
     cs_mono cs' = cs_mono cs \<and>
     (e = Some ErrDeviceExist \<longleftrightarrow> u \<in> cached_uris cs) \<and>
     (e = None \<longleftrightarrow> u \<notin> cached_uris cs \<and> restorable u \<and> length (encode_item item) \<le> ColferSizeMax \<and>
        fst (db_Write db u (encode_item item) (cs_db cs)) = Ret None) \<and>
     cached_uris cs' = (if e = None then insert u (cached_uris cs) else cached_uris cs) \<and>
     (if e = None then db_Write db u (encode_item item) (cs_db cs) = (Ret None, cs_db cs')
      else cs_db cs' = cs_db cs \<or>
        (\<exists>buf e'. db_Write db u buf (cs_db cs) = (Ret (Some e'), cs_db cs')))"
proof (cases "nodes_of cs u")
  case (Some n)
  then have "u \<in> cached_uris cs" by (auto simp: cached_uris_def)
  moreover have "cache_add db fmt1123 u t d cs = (Ret (Some ErrDeviceExist), cs)"
    using Some by (simp add: cache_add_def)
  ultimately show ?thesis using live by simp
next
  case None
  then have u: "u \<notin> cached_uris cs" by (auto simp: cached_uris_def)
  obtain e cs' where a: "cache_add db fmt1123 u t d cs = (Ret e, cs')" "live ok cs'"
    "e \<noteq> Some ErrDeviceExist" "cs_mono cs' = cs_mono cs" "added db fmt1123 u t d e cs cs'"
    using cache_add_spec [OF live None] by blast
  have fits: "MarshalBinary item = Ret (Inr buf) \<longleftrightarrow>
      length (encode_item item) \<le> ColferSizeMax \<and> buf = encode_item item" for buf
    using encode_item_text_le [of item] by (auto simp: MarshalBinary_encode)
  have "e = None" if r: "restorable u" and l: "length (encode_item item) \<le> ColferSizeMax"
    and w: "fst (db_Write db u (encode_item item) (cs_db cs)) = Ret None"
  proof -
    obtain n rs where n: "make_node fmt1123 u t d (cs_now cs) cs = (Inr n, cs\<lparr>cs_resolve := rs\<rparr>)"
      using make_node_ok [OF r] by blast
    obtain dd where dd: "db_Write db u (encode_item item) (cs_db cs) = (Ret None, dd)"
      using w by (cases "db_Write db u (encode_item item) (cs_db cs)") simp
    obtain m where "cs_nodes cs = Some m" using live by (auto simp: live_def)
    then have "\<exists>cs1. cache_add db fmt1123 u t d cs = (Ret None, cs1)"
      using None n dd l fits [of "encode_item item"]
      by (simp add: cache_add_def node_start_def item)
    then show ?thesis using a(1) by simp
  qed
  moreover have "restorable u \<and> length (encode_item item) \<le> ColferSizeMax \<and>
      db_Write db u (encode_item item) (cs_db cs) = (Ret None, cs_db cs')" if "e = None"
    using a(5) that fits by (auto simp: added_def Let_def item)
  moreover have "cs_db cs' = cs_db cs \<or> (\<exists>buf e'. db_Write db u buf (cs_db cs) = (Ret (Some e'), cs_db cs'))"
    if "e \<noteq> None"
    using a(5) that by (auto simp: added_def Let_def)
  ultimately show ?thesis using a(1-4) u added_uris [OF a(5)]
    by (intro exI [of _ e] exI [of _ cs']) auto
qed

lemma cache_remove_spec:
  assumes live: "live ok cs" and known: "nodes_of cs u = Some n"
  shows "\<exists>e cs'. cache_remove db u cs = (Ret e, cs') \<and> live ok cs' \<and>
     cs_now cs' = cs_now cs \<and> cs_mono cs' = cs_mono cs \<and>
     db_Remove db u (cs_db cs) = (Ret e, cs_db cs') \<and>
     nodes_of cs' = (if e = None then (nodes_of cs)(u := None) else nodes_of cs)"
proof -
  have "ok (cs_db cs)" using live by (simp add: live_def)
  then obtain e dd where r: "db_Remove db u (cs_db cs) = (Ret e, dd)" "ok dd"
    using remove_returns by blast
  obtain m where m: "cs_nodes cs = Some m" using live by (auto simp: live_def)
  have "sn_starts n = 1" using live known by (simp add: live_def)
  then obtain rs where s: "node_stop n (cs_resolve cs) = (Ret None, rs)"
    using node_stop_once by blast
  show ?thesis
  proof (cases e)
    case None
    let ?cs = "cs\<lparr>cs_db := dd, cs_resolve := rs, cs_nodes := Some (m(u := None))\<rparr>"
    have "cache_remove db u cs = (Ret None, ?cs)"
      using r s known m None by (simp add: cache_remove_def)
    moreover have "live ok ?cs" using live r m by (auto simp: live_def)
    ultimately show ?thesis using r m None by auto
  next
    case (Some e')
    then have "cache_remove db u cs = (Ret (Some e'), cs\<lparr>cs_db := dd\<rparr>)"
      using r known by (simp add: cache_remove_def)
    moreover have "live ok (cs\<lparr>cs_db := dd\<rparr>)" using live r by (simp add: live_def)
    ultimately show ?thesis using r Some by auto
  qed
qed

lemma cache_get_desc_keys:
  assumes fin: "finite (dom (nodes_of cs))"
    and key: "\<And>u n. nodes_of cs u = Some n \<Longrightarrow> sn_uri n = u"
  shows "\<exists>items. cache_get_desc (order (dom (nodes_of cs))) cs = (Ret items, cs) \<and>
     distinct (map si_URI items) \<and> si_URI ` set items = dom (nodes_of cs)"
proof -
  let ?items = "map item_of (List.map_filter (nodes_of cs) (order (dom (nodes_of cs))))"
  have "map si_URI ?items = order (dom (nodes_of cs))"
    using map_item_uris [where cs = cs and us = "order (dom (nodes_of cs))", OF key] order_set [OF fin] by simp
  then have "distinct (map si_URI ?items)" "set (map si_URI ?items) = dom (nodes_of cs)"
    using order_set [OF fin] order_distinct [OF fin] by simp_all
  then have "distinct (map si_URI ?items)" "si_URI ` set ?items = dom (nodes_of cs)"
    by (simp_all only: set_map)
  then show ?thesis unfolding cache_get_desc_def by blast
qed

end

sublocale cached_devices \<subseteq> cache: device_store "cache_store_ops db fmt1123 order" cached_uris "live ok"
  for fmt1123
proof
  fix cs u t d
  assume live: "live ok cs"
  show "u \<in> cached_uris cs \<Longrightarrow>
      store_Add (cache_store_ops db fmt1123 order) u t d cs = (Ret (Some ErrDeviceExist), cs)"
    by (auto simp: cache_store_ops_def cache_add_def cached_uris_def)
  show "\<exists>e cs'. store_Add (cache_store_ops db fmt1123 order) u t d cs = (Ret e, cs') \<and> live ok cs' \<and>
        e \<noteq> Some ErrDeviceExist \<and>
        cached_uris cs' = (if e = None then insert u (cached_uris cs) else cached_uris cs)"
    if "u \<notin> cached_uris cs"
  proof -
    have "nodes_of cs u = None" using that by (auto simp: cached_uris_def)
    from cache_add_spec [OF live this, of fmt1123 t d] obtain e cs' where
      "cache_add db fmt1123 u t d cs = (Ret e, cs')" "live ok cs'" "e \<noteq> Some ErrDeviceExist"
      "added db fmt1123 u t d e cs cs'" by blast
    then show ?thesis using added_uris by (fastforce simp: cache_store_ops_def)
  qed
  show "store_Remove (cache_store_ops db fmt1123 order) u cs = (Ret (Some (Status StatusNoData)), cs)"
    if "u \<notin> cached_uris cs"
    using that by (auto simp: cache_store_ops_def cache_remove_def cached_uris_def split: option.splits)
  show "\<exists>e cs'. store_Remove (cache_store_ops db fmt1123 order) u cs = (Ret e, cs') \<and> live ok cs' \<and>
        cached_uris cs' = (if e = None then cached_uris cs - {u} else cached_uris cs)"
    if "u \<in> cached_uris cs"
  proof -
    obtain n where "nodes_of cs u = Some n" using \<open>u \<in> cached_uris cs\<close> by (auto simp: cached_uris_def)
    from cache_remove_spec [OF live this] obtain e cs' where
      a: "cache_remove db u cs = (Ret e, cs')" "live ok cs'"
      "nodes_of cs' = (if e = None then (nodes_of cs)(u := None) else nodes_of cs)" by blast
    then have "cached_uris cs' = (if e = None then cached_uris cs - {u} else cached_uris cs)"
      by (auto simp: cached_uris_def)
    with a show ?thesis by (simp add: cache_store_ops_def)
  qed
  show "\<exists>items. store_GetDesc (cache_store_ops db fmt1123 order) cs = (Ret items, cs) \<and>
      distinct (map si_URI items) \<and> si_URI ` set items = cached_uris cs"
    using cache_get_desc_keys [of cs] live by (simp add: cache_store_ops_def cached_uris_def live_def)
qed

section \<open>Restoring what was persisted\<close>

text \<open>
  The database holds exactly the devices of the map, each as a record its node was built from.
\<close>

definition persisted :: "(string \<rightharpoonup> byte list) \<Rightarrow> (i64 \<Rightarrow> string) \<Rightarrow> (string \<rightharpoonup> store_node) \<Rightarrow> bool" where
  "persisted content fmt1123 nodes \<longleftrightarrow>
     dom content = dom nodes \<and>
     (\<forall>u n buf. nodes u = Some n \<longrightarrow> content u = Some buf \<longrightarrow>
        restorable u \<and> (\<exists>item. MarshalBinary item = Ret (Inr buf) \<and> node_for fmt1123 u item n))"

text \<open>The same devices: what \<^verbatim>\<open>GetDesc\<close> tells of them, the reported identifier apart.\<close>

definition same_device :: "store_node \<Rightarrow> store_node \<Rightarrow> bool" where
  "same_device n n' \<longleftrightarrow>
     sn_uri n' = sn_uri n \<and> sn_typ n' = sn_typ n \<and> sn_desc n' = sn_desc n \<and>
     sn_createdAt n' = sn_createdAt n"

lemma read_back:
  assumes "MarshalBinary item = Ret (Inr buf)" and "length buf < ColferSizeMax"
  shows "Unmarshal buf empty_item = (Ret (length buf, None), item)"
proof -
  have t: "length (item_Desc item) \<le> ColferSizeMax" "length (item_Type item) \<le> ColferSizeMax"
    "buf = encode_item item"
    using assms(1) by (simp_all add: MarshalBinary_encode)
  from Unmarshal_encode [OF t(1,2), of "[]" empty_item] t(3) assms(2) show ?thesis by simp
qed

lemma restore_node_ok:
  assumes "restorable u" and "MarshalBinary item = Ret (Inr buf)" and "length buf < ColferSizeMax"
  shows "\<exists>n rs. restore_node fmt1123 u buf cs =
       (Ret None, cs\<lparr>cs_resolve := rs, cs_nodes := Some ((nodes_of cs)(u \<mapsto> n))\<rparr>) \<and>
     node_for fmt1123 u item n \<and> sn_starts n = 0 \<and>
     hd_notifier (sn_device n) = (if cs_monitor cs then Some u else None)"
proof -
  obtain n rs where n: "make_node fmt1123 u (item_Type item) (item_Desc item) (item_Timestamp item) cs =
      (Inr n, cs\<lparr>cs_resolve := rs\<rparr>)"
    "node_for fmt1123 u \<lparr>item_Desc = item_Desc item, item_Timestamp = item_Timestamp item,
      item_Type = item_Type item\<rparr> n" "sn_starts n = 0"
    "hd_notifier (sn_device n) = (if cs_monitor cs then Some u else None)"
    using make_node_ok [OF assms(1)] by blast
  then have "restore_node fmt1123 u buf cs =
      (Ret None, cs\<lparr>cs_resolve := rs, cs_nodes := Some ((nodes_of cs)(u \<mapsto> n))\<rparr>)"
    using read_back [OF assms(2,3)] by (simp add: restore_node_def)
  with n show ?thesis by (auto simp: node_for_def)
qed

lemma restore_entries_ok:
  assumes "\<And>u buf. (u, buf) \<in> set es \<Longrightarrow> restorable u \<and> (\<exists>item. MarshalBinary item = Ret (Inr buf))
      \<and> length buf < ColferSizeMax"
    and "distinct (map fst es)"
  shows "\<exists>cs'. restore_entries fmt1123 es (un, cs) = (Ret (), (un, cs')) \<and>
     cs_db cs' = cs_db cs \<and> cs_params cs' = cs_params cs \<and> cs_monitor cs' = cs_monitor cs \<and>
     (cs_nodes cs \<noteq> None \<longrightarrow> cs_nodes cs' \<noteq> None) \<and>
     dom (nodes_of cs') = dom (nodes_of cs) \<union> fst ` set es \<and>
     (\<forall>u. u \<notin> fst ` set es \<longrightarrow> nodes_of cs' u = nodes_of cs u) \<and>
     (\<forall>u buf n item. (u, buf) \<in> set es \<longrightarrow> nodes_of cs' u = Some n \<longrightarrow>
        MarshalBinary item = Ret (Inr buf) \<longrightarrow>
        node_for fmt1123 u item n \<and> sn_starts n = 0 \<and>
        hd_notifier (sn_device n) = (if cs_monitor cs then Some u else None))"
  using assms
proof (induction es arbitrary: cs)
  case (Cons e es)
  obtain u buf where e: "e = (u, buf)" by (cases e)
  obtain item where u: "restorable u" "MarshalBinary item = Ret (Inr buf)" "length buf < ColferSizeMax"
    using Cons.prems(1) [of u buf] by (auto simp: e)
  obtain n rs where r: "restore_node fmt1123 u buf cs =
      (Ret None, cs\<lparr>cs_resolve := rs, cs_nodes := Some ((nodes_of cs)(u \<mapsto> n))\<rparr>)"
    "node_for fmt1123 u item n" "sn_starts n = 0"
    "hd_notifier (sn_device n) = (if cs_monitor cs then Some u else None)"
    using restore_node_ok [OF u, of fmt1123 cs] by blast
  let ?cs = "cs\<lparr>cs_resolve := rs, cs_nodes := Some ((nodes_of cs)(u \<mapsto> n))\<rparr>"
  have uniq: "item' = item" if "MarshalBinary item' = Ret (Inr buf)" for item'
    using read_back [OF that u(3)] read_back [OF u(2,3)] by simp
  have new: "u \<notin> fst ` set es" using Cons.prems(2) by (simp add: e)
  have "\<exists>cs'. restore_entries fmt1123 es (un, ?cs) = (Ret (), (un, cs')) \<and>
     cs_db cs' = cs_db ?cs \<and> cs_params cs' = cs_params ?cs \<and> cs_monitor cs' = cs_monitor ?cs \<and>
     (cs_nodes ?cs \<noteq> None \<longrightarrow> cs_nodes cs' \<noteq> None) \<and>
     dom (nodes_of cs') = dom (nodes_of ?cs) \<union> fst ` set es \<and>
     (\<forall>u. u \<notin> fst ` set es \<longrightarrow> nodes_of cs' u = nodes_of ?cs u) \<and>
     (\<forall>u buf n item. (u, buf) \<in> set es \<longrightarrow> nodes_of cs' u = Some n \<longrightarrow>
        MarshalBinary item = Ret (Inr buf) \<longrightarrow>
        node_for fmt1123 u item n \<and> sn_starts n = 0 \<and>
        hd_notifier (sn_device n) = (if cs_monitor ?cs then Some u else None))"
    by (rule Cons.IH) (use Cons.prems in auto)
  then obtain cs' where cs': "restore_entries fmt1123 es (un, ?cs) = (Ret (), (un, cs'))"
    "cs_db cs' = cs_db cs" "cs_params cs' = cs_params cs" "cs_monitor cs' = cs_monitor cs"
    "cs_nodes cs' \<noteq> None"
    "dom (nodes_of cs') = insert u (dom (nodes_of cs)) \<union> fst ` set es"
    "\<forall>v. v \<notin> fst ` set es \<longrightarrow> nodes_of cs' v = ((nodes_of cs)(u \<mapsto> n)) v"
    "\<forall>u buf n item. (u, buf) \<in> set es \<longrightarrow> nodes_of cs' u = Some n \<longrightarrow>
        MarshalBinary item = Ret (Inr buf) \<longrightarrow>
        node_for fmt1123 u item n \<and> sn_starts n = 0 \<and>
        hd_notifier (sn_device n) = (if cs_monitor cs then Some u else None)"
    by auto
  have un: "nodes_of cs' u = Some n" using cs'(7) new by simp
  have last: "node_for fmt1123 v item' n' \<and> sn_starts n' = 0 \<and>
        hd_notifier (sn_device n') = (if cs_monitor cs then Some v else None)"
    if "(v, buf') \<in> set (e # es)" "nodes_of cs' v = Some n'" "MarshalBinary item' = Ret (Inr buf')"
    for v buf' n' item'
  proof (cases "(v, buf') \<in> set es")
    case True
    then show ?thesis using cs'(8) that by blast
  next
    case False
    then have "v = u" "buf' = buf" using that(1) by (simp_all add: e)
    then show ?thesis using that un r uniq by simp
  qed
  have step: "restore_entries fmt1123 (e # es) (un, cs) = (Ret (), (un, cs'))"
    using cs'(1) r by (simp add: e)
  show ?case
    by (rule exI [of _ cs']) (use step cs' last e in auto)
qed auto

text \<open>
  Whatever the records are, a new store has nodes that were not started and report to no monitor:
  \<^verbatim>\<open>SetAliveMonitor\<close> comes after the constructor.
\<close>

definition fresh :: "'d cache_store \<Rightarrow> bool" where
  "fresh cs \<longleftrightarrow> \<not> cs_monitor cs \<and> cs_nodes cs \<noteq> None \<and> finite (dom (nodes_of cs)) \<and>
     (\<forall>u n. nodes_of cs u = Some n \<longrightarrow>
        sn_uri n = u \<and> sn_starts n = 0 \<and> hd_notifier (sn_device n) = None)"

lemma restore_node_fresh:
  assumes "restore_node fmt1123 u buf cs = (r, cs')" and "fresh cs"
  shows "fresh cs' \<and> cs_db cs' = cs_db cs \<and> cs_mono cs' = cs_mono cs"
proof (cases "r = Ret None")
  case True
  obtain out item where un: "Unmarshal buf empty_item = (out, item)" by fastforce
  obtain q cs1 where mk: "make_node fmt1123 u (item_Type item) (item_Desc item) (item_Timestamp item) cs =
      (q, cs1)" by fastforce
  from assms(1) True un mk have "\<exists>n. q = Inr n \<and> cs' = cs1\<lparr>cs_nodes := Some ((nodes_of cs1)(u \<mapsto> n))\<rparr>"
    by (auto simp: restore_node_def split: prod.splits outcome.splits option.splits sum.splits)
  with mk obtain n where m:
    "make_node fmt1123 u (item_Type item) (item_Desc item) (item_Timestamp item) cs = (Inr n, cs1)"
    "cs' = cs1\<lparr>cs_nodes := Some ((nodes_of cs1)(u \<mapsto> n))\<rparr>" by blast
  have "restorable u" using m(1)
      make_node_error [of u fmt1123 "item_Type item" "item_Desc item" "item_Timestamp item" cs]
    by auto
  from make_node_ok [OF this, of fmt1123 "item_Type item" "item_Desc item" "item_Timestamp item" cs]
  obtain rs where "cs1 = cs\<lparr>cs_resolve := rs\<rparr>" "sn_uri n = u" "sn_starts n = 0"
    "hd_notifier (sn_device n) = (if cs_monitor cs then Some u else None)"
    using m(1) by (auto simp: node_for_def)
  then show ?thesis using m(2) assms(2) by (auto simp: fresh_def)
next
  case False
  have "cs' = cs"
  proof (cases "Unmarshal buf empty_item")
    case (Pair o item)
    have "make_node fmt1123 u t d w cs = (Inl e, cs1) \<Longrightarrow> cs1 = cs" for t d w e cs1
      using make_node_error [of u fmt1123 t d w cs] make_node_ok [of u fmt1123 t d w cs]
      by (cases "restorable u") auto
    with Pair False assms(1) show ?thesis
      by (auto simp: restore_node_def split: outcome.splits option.splits sum.splits prod.splits)
  qed
  then show ?thesis using assms(2) by simp
qed

lemma restore_entries_fresh:
  "restore_entries fmt1123 es (un, cs) = (r, (un', cs')) \<Longrightarrow> fresh cs \<Longrightarrow>
   fresh cs' \<and> cs_db cs' = cs_db cs \<and> cs_mono cs' = cs_mono cs"
proof (induction es arbitrary: un cs)
  case (Cons e es)
  obtain u buf where e: "e = (u, buf)" by (cases e)
  obtain q cs1 where n: "restore_node fmt1123 u buf cs = (q, cs1)" by fastforce
  have 1: "fresh cs1 \<and> cs_db cs1 = cs_db cs \<and> cs_mono cs1 = cs_mono cs"
    by (rule restore_node_fresh [OF n Cons.prems(2)])
  show ?case
  proof (cases "\<exists>x. q = Ret x")
    case True
    then obtain un1 where "restore_entries fmt1123 es (un1, cs1) = (r, (un', cs'))"
      using Cons.prems(1) n by (auto simp: e split: option.splits)
    then show ?thesis using Cons.IH [of un1 cs1] 1 by simp
  next
    case False
    then show ?thesis using Cons.prems(1) n 1 by (auto simp: e split: outcome.splits)
  qed
qed simp

context total_db
begin

lemma remove_unrestored_ok: "ok d \<Longrightarrow> remove_unrestored db us d = (r, d') \<Longrightarrow> ok d'"
proof (induction us arbitrary: d)
  case (Cons u us)
  obtain e d1 where "db_Remove db u d = (Ret e, d1)" "ok d1"
    using remove_returns [OF Cons.prems(1)] by blast
  with Cons show ?case by (auto simp: outcome_simps)
qed simp

lemma new_cache_store_fresh:
  assumes "ok d" and "new_cache_store db fmt1123 params rs d now monotonic = (Ret (), cs)"
  shows "fresh cs \<and> ok (cs_db cs) \<and> cs_mono cs = monotonic"
proof -
  let ?cs0 = "\<lparr>cs_params = params, cs_resolve = rs, cs_monitor = False, cs_db = d,
        cs_nodes = Some Map.empty, cs_now = now, cs_mono = monotonic\<rparr>"
  obtain es e where es: "db_entries db d = (Ret (es, e), d)" using entries_return [OF assms(1)] by blast
  obtain q un cs1 where r: "restore_entries fmt1123 es ([], ?cs0) = (q, (un, cs1))"
    by (metis surj_pair)
  have "fresh ?cs0" by (simp add: fresh_def nodes_of_def)
  from restore_entries_fresh [OF r this] have 1: "fresh cs1" "cs_db cs1 = d" "cs_mono cs1 = monotonic"
    by simp_all
  obtain q2 d2 where u: "remove_unrestored db un d = (q2, d2)" by fastforce
  have "cs = cs1\<lparr>cs_db := d2\<rparr>" "q = Ret ()"
    using assms(2) es r u 1(2)
    by (auto simp: new_cache_store_def restore_nodes_def split: outcome.splits if_splits)
  then show ?thesis using 1 remove_unrestored_ok [OF assms(1) u] by (simp add: fresh_def)
qed

end

locale persistent_devices = cached_devices db ok order + persistent_db db ok content
  for db :: "'d db" and ok order content
begin

lemma add_persisted:
  assumes "live ok cs" "nodes_of cs u = None" "persisted (content (cs_db cs)) fmt1123 (nodes_of cs)"
    and "added db fmt1123 u t d e cs cs'"
  shows "persisted (content (cs_db cs')) fmt1123 (nodes_of cs')"
proof (cases e)
  case None
  have ok: "ok (cs_db cs)" using assms(1) by (simp add: live_def)
  obtain n buf where a: "nodes_of cs' = (nodes_of cs)(u \<mapsto> n)" "restorable u"
    "node_for fmt1123 u \<lparr>item_Desc = d, item_Timestamp = cs_now cs, item_Type = t\<rparr> n"
    "MarshalBinary \<lparr>item_Desc = d, item_Timestamp = cs_now cs, item_Type = t\<rparr> = Ret (Inr buf)"
    "db_Write db u buf (cs_db cs) = (Ret None, cs_db cs')"
    using assms(4) None by (auto simp: added_def Let_def)
  have "content (cs_db cs') = (content (cs_db cs))(u \<mapsto> buf)" using write_content [OF ok a(5)] by simp
  then show ?thesis using assms(3) a by (fastforce simp: persisted_def split: if_splits)
next
  case (Some e')
  have ok: "ok (cs_db cs)" using assms(1) by (simp add: live_def)
  have "content (cs_db cs') = content (cs_db cs)" "nodes_of cs' = nodes_of cs"
    using assms(4) Some write_content [OF ok] by (auto simp: added_def Let_def)
  then show ?thesis using assms(3) by simp
qed

lemma remove_persisted:
  assumes "live ok cs" "nodes_of cs u = Some n"
    "persisted (content (cs_db cs)) fmt1123 (nodes_of cs)" "cache_remove db u cs = (Ret e, cs')"
  shows "persisted (content (cs_db cs')) fmt1123 (nodes_of cs')"
proof -
  have ok: "ok (cs_db cs)" using assms(1) by (simp add: live_def)
  have r: "db_Remove db u (cs_db cs) = (Ret e, cs_db cs')"
    "nodes_of cs' = (if e = None then (nodes_of cs)(u := None) else nodes_of cs)"
    using cache_remove_spec [OF assms(1,2)] assms(4) by auto
  show ?thesis using remove_content [OF ok r(1)] r(2) assms(3)
    by (auto simp: persisted_def split: if_splits)
qed

lemma restart:
  assumes ok: "ok d" and per: "persisted (content d) fmt1123 nodes"
    and short: "\<forall>u buf. content d u = Some buf \<longrightarrow> length buf < ColferSizeMax"
  shows "\<exists>cs. new_cache_store db fmt1123 params rs d now monotonic = (Ret (), cs) \<and> cs_db cs = d \<and>
     dom (nodes_of cs) = dom nodes \<and> cs_nodes cs \<noteq> None \<and>
     (\<forall>u n n'. nodes u = Some n \<longrightarrow> nodes_of cs u = Some n' \<longrightarrow>
        same_device n n' \<and> sn_starts n' = 0 \<and> hd_notifier (sn_device n') = None)"
proof -
  let ?cs0 = "\<lparr>cs_params = params, cs_resolve = rs, cs_monitor = False, cs_db = d,
        cs_nodes = Some Map.empty, cs_now = now, cs_mono = monotonic\<rparr>"
  obtain es where es: "db_entries db d = (Ret (es, None), d)" "distinct (map fst es)"
    "map_of es = content d"
    using entries_content [OF ok] by blast
  have mem: "(u, buf) \<in> set es \<longleftrightarrow> content d u = Some buf" for u buf
    using es map_of_eq_Some_iff by metis
  have good: "restorable u \<and> (\<exists>item. MarshalBinary item = Ret (Inr buf)) \<and> length buf < ColferSizeMax"
    if "(u, buf) \<in> set es" for u buf
  proof -
    have c: "content d u = Some buf" using that mem by simp
    then have "u \<in> dom nodes" using per by (auto simp: persisted_def)
    then obtain n where "nodes u = Some n" by blast
    with c per short show ?thesis unfolding persisted_def by blast
  qed
  obtain cs where cs: "restore_entries fmt1123 es ([], ?cs0) = (Ret (), ([], cs))"
    "cs_db cs = d" "cs_nodes cs \<noteq> None" "dom (nodes_of cs) = fst ` set es"
    "\<forall>u buf n item. (u, buf) \<in> set es \<longrightarrow> nodes_of cs u = Some n \<longrightarrow>
        MarshalBinary item = Ret (Inr buf) \<longrightarrow>
        node_for fmt1123 u item n \<and> sn_starts n = 0 \<and> hd_notifier (sn_device n) = None"
    using restore_entries_ok [OF good es(2), of fmt1123 "[]" ?cs0] by auto
  have "new_cache_store db fmt1123 params rs d now monotonic = (Ret (), cs)"
    using es(1) cs(1,2) by (simp add: new_cache_store_def restore_nodes_def)
  moreover have "dom (nodes_of cs) = dom nodes"
    using cs(4) es(2,3) per dom_map_of_conv_image_fst [of es] by (simp add: persisted_def)
  moreover have "same_device n n' \<and> sn_starts n' = 0 \<and> hd_notifier (sn_device n') = None"
    if n: "nodes u = Some n" "nodes_of cs u = Some n'" for u n n'
  proof -
    have "u \<in> dom (content d)" using per n(1) by (auto simp: persisted_def)
    then obtain buf where buf: "content d u = Some buf" by blast
    obtain item where item: "MarshalBinary item = Ret (Inr buf)" "node_for fmt1123 u item n"
      using per n(1) buf unfolding persisted_def by blast
    then have "node_for fmt1123 u item n' \<and> sn_starts n' = 0 \<and> hd_notifier (sn_device n') = None"
      using cs(5) n(2) buf mem by blast
    then show ?thesis using item(2) by (simp add: node_for_def same_device_def)
  qed
  ultimately show ?thesis using cs(2,3) by blast
qed

end

section \<open>The stores of the application\<close>

text \<open>
  \<^verbatim>\<open>createDeviceStore\<close> of \<^verbatim>\<open>projects/main/main.go\<close>: the cache store, decorated to awake the
  runner of the mDNS browser, decorated to monitor the devices. The world is the runner and the
  cache store, beside the state of the monitor.
\<close>

definition app_awake_store :: "'d db \<Rightarrow> (i64 \<Rightarrow> string) \<Rightarrow> (string set \<Rightarrow> string list)
    \<Rightarrow> ('r runner \<times> 'd cache_store) store" where
  "app_awake_store db fmt1123 order =
     awake_store (lift_fst (\<lambda>r. (Ret (), runner_awake r))) (lift_store (cache_store_ops db fmt1123 order))"

definition app_now :: "('r runner \<times> 'd cache_store, i64) action" where
  "app_now = lift_snd (\<lambda>cs. (Ret (cs_mono cs), cs))"

definition app_store :: "'d db \<Rightarrow> (i64 \<Rightarrow> string) \<Rightarrow> (string set \<Rightarrow> string list)
    \<Rightarrow> (alive_monitor \<times> 'r runner \<times> 'd cache_store) store" where
  "app_store db fmt1123 order = monitor_store app_now (app_awake_store db fmt1123 order)"

lemma app_now_Ret [outcome_simps]: "app_now (r, cs) = (Ret (cs_mono cs), (r, cs))"
  by (simp add: app_now_def lift_snd_def)

lemma app_remove_Ret [outcome_simps]: "cache_remove db u cs = (x, cs') \<Longrightarrow>
    store_Remove (app_awake_store db fmt1123 order) u (r, cs) = (x, (r, cs'))"
  by (simp add: app_awake_store_def awake_store_def lift_store_def cache_store_ops_def lift_snd_def)

context cached_devices
begin

lemma fresh_monitor:
  assumes "fresh cs"
  shows "new_alive_monitor app_now (app_awake_store db fmt1123 order) max_inactive (r, cs) =
     (Ret \<lparr>am_maxInactiveInterval = max_inactive,
           am_devices = (\<lambda>u. if u \<in> cached_uris cs then Some (cs_mono cs) else None)\<rparr>, (r, cs))"
proof -
  obtain items where "cache_get_desc (order (dom (nodes_of cs))) cs = (Ret items, cs)"
    "si_URI ` set items = cached_uris cs"
    using cache_get_desc_keys [of cs] assms by (auto simp: fresh_def cached_uris_def)
  then show ?thesis
    using new_alive_monitor_sees [of "app_awake_store db fmt1123 order" "(r, cs)" items app_now "cs_mono cs"]
    by (simp add: outcome_simps app_awake_store_def awake_store_def lift_store_def cache_store_ops_def)
qed

lemma app_awake: "awakened_store (lift_store (cache_store_ops db fmt1123 order))
    (\<lambda>(r :: 'r runner, cs). cached_uris cs) (\<lambda>(r, cs). live ok cs)
    (lift_fst (\<lambda>r. (Ret (), runner_awake r)))"
  by (intro awakened_store.intro cache.lifted awakened_store_axioms.intro)
    (auto simp: lift_fst_def)

end

sublocale cached_devices \<subseteq> app_awake: awakened_store "lift_store (cache_store_ops db fmt1123 order)"
    "\<lambda>(r :: 'r runner, cs). cached_uris cs" "\<lambda>(r, cs). live ok cs"
    "lift_fst (\<lambda>r. (Ret (), runner_awake r))"
  for fmt1123
  by (rule app_awake)

context cached_devices
begin

lemma app_monitored: "monitored_store (app_awake_store db fmt1123 order)
    (\<lambda>(r :: 'r runner, cs). cached_uris cs) (\<lambda>(r, cs). live ok cs) app_now (\<lambda>(r, cs). cs_mono cs)"
proof (intro monitored_store.intro monitored_store_axioms.intro)
  show "device_store (app_awake_store db fmt1123 order)
      (\<lambda>(r :: 'r runner, cs). cached_uris cs) (\<lambda>(r, cs). live ok cs)"
    unfolding app_awake_store_def by (rule app_awake.awake_is_store)
  show "app_now s = (Ret (case s of (r, cs) \<Rightarrow> cs_mono cs), s)" for s :: "'r runner \<times> 'd cache_store"
    by (cases s) (simp add: app_now_def lift_snd_def)
  show "(case snd (store_Remove (app_awake_store db fmt1123 order) u s) of (r, cs) \<Rightarrow> cs_mono cs) =
      (case s of (r, cs) \<Rightarrow> cs_mono cs)"
    if "case s of (r, cs) \<Rightarrow> live ok cs" for s :: "'r runner \<times> 'd cache_store" and u
  proof -
    obtain r cs where s: "s = (r, cs)" by (cases s)
    have "cs_mono (snd (cache_remove db u cs)) = cs_mono cs"
    proof (cases "nodes_of cs u")
      case None
      then show ?thesis by (simp add: cache_remove_def)
    next
      case (Some n)
      then show ?thesis using cache_remove_spec [OF _ Some] that by (auto simp: s)
    qed
    then show ?thesis
      by (cases "cache_remove db u cs") (simp add: s app_awake_store_def awake_store_def
          lift_store_def cache_store_ops_def lift_snd_def)
  qed
qed

end

sublocale cached_devices \<subseteq> app: monitored_store "app_awake_store db fmt1123 order"
    "\<lambda>(r :: 'r runner, cs). cached_uris cs" "\<lambda>(r, cs). live ok cs" app_now "\<lambda>(r, cs). cs_mono cs"
  for fmt1123
  by (rule app_monitored)

text \<open>\<^verbatim>\<open>Start\<close> starts every node it visits once more.\<close>

lemma start_loop_spec:
  assumes "distinct ord" and "set ord \<subseteq> dom m"
  shows "start_loop ord m = (None, \<lambda>u. if u \<in> set ord
     then map_option (\<lambda>n. n\<lparr>sn_starts := Suc (sn_starts n)\<rparr>) (m u) else m u)"
  using assms
proof (induction ord arbitrary: m)
  case (Cons u ord)
  obtain n where n: "m u = Some n" using Cons.prems(2) by auto
  let ?m = "m(u \<mapsto> n\<lparr>sn_starts := Suc (sn_starts n)\<rparr>)"
  have "start_loop (u # ord) m = start_loop ord ?m" using n by (simp add: node_start_def)
  also have "\<dots> = (None, \<lambda>v. if v \<in> set ord
      then map_option (\<lambda>n. n\<lparr>sn_starts := Suc (sn_starts n)\<rparr>) (?m v) else ?m v)"
    by (rule Cons.IH) (use Cons.prems in auto)
  finally show ?case using Cons.prems(1) n by (auto simp: fun_eq_iff)
qed simp

text \<open>The monitor knows the devices of the store.\<close>

definition app_inv :: "('d \<Rightarrow> bool) \<Rightarrow> alive_monitor \<times> 'r runner \<times> 'd cache_store \<Rightarrow> bool" where
  "app_inv ok = (\<lambda>(m, r, cs). live ok cs \<and> dom (am_devices m) = cached_uris cs)"

abbreviation app_uris :: "alive_monitor \<times> 'r runner \<times> 'd cache_store \<Rightarrow> string set" where
  "app_uris \<equiv> \<lambda>(m, r, cs). cached_uris cs"

context cached_devices
begin

lemma app_minv: "app.minv = app_inv ok"
  by (auto simp: app.minv_def app_inv_def fun_eq_iff)

lemma app_store_is_store: "device_store (app_store db fmt1123 order) app_uris (app_inv ok)"
  using app.monitored.device_store_axioms [of fmt1123] by (simp add: app_store_def app_minv)

lemma app_run_spec:
  assumes "app_inv ok (m, r, cs)" and "distinct ord"
  shows "\<exists>e m' r' cs'. monitor_run app_now (app_awake_store db fmt1123 order) ord (m, r, cs) =
       (Ret e, (m', r', cs')) \<and> app_inv ok (m', r', cs') \<and>
     cached_uris cs' \<subseteq> cached_uris cs \<and>
     {u \<in> cached_uris cs. device_active (cs_mono cs) m u} \<subseteq> cached_uris cs' \<and>
     (e = None \<longrightarrow> cached_uris cs' =
        {u \<in> cached_uris cs. u \<notin> set ord \<or> device_active (cs_mono cs) m u})"
  using app.run_loop_spec [of m "(r, cs)" ord fmt1123] assms
  by (fastforce simp: app_minv monitor_run_def)

text \<open>\<^verbatim>\<open>Start\<close> after restoring makes the store live.\<close>

lemma start_live:
  assumes "ok (cs_db cs)" "cs_nodes cs \<noteq> None" "finite (dom (nodes_of cs))"
    and "\<And>u n. nodes_of cs u = Some n \<Longrightarrow> sn_uri n = u \<and> sn_starts n = 0"
    and "distinct ord" "set ord = dom (nodes_of cs)"
  shows "\<exists>cs'. cache_start ord cs = (Ret None, cs') \<and> live ok cs' \<and> cs_db cs' = cs_db cs \<and>
     cached_uris cs' = cached_uris cs \<and>
     (\<forall>u. nodes_of cs' u = map_option (\<lambda>n. n\<lparr>sn_starts := 1\<rparr>) (nodes_of cs u))"
proof -
  obtain m where m: "cs_nodes cs = Some m" using assms(2) by blast
  let ?m = "\<lambda>u. map_option (\<lambda>n. n\<lparr>sn_starts := 1\<rparr>) (m u)"
  have dom: "dom ?m = dom m" by auto
  have "(if u \<in> set ord then map_option (\<lambda>n. n\<lparr>sn_starts := Suc (sn_starts n)\<rparr>) (m u) else m u) =
      ?m u" for u
    using assms(4) [of u] assms(6) m by (cases "m u") auto
  then have "start_loop ord m = (None, ?m)"
    using start_loop_spec [OF assms(5), of m] assms(6) m by simp
  then have "cache_start ord cs = (Ret None, cs\<lparr>cs_nodes := Some ?m\<rparr>)"
    using m by (simp add: cache_start_def)
  moreover have "live ok (cs\<lparr>cs_nodes := Some ?m\<rparr>)"
    using assms m dom by (auto simp: live_def)
  ultimately show ?thesis using m dom by (auto simp: cached_uris_def)
qed

end

context persistent_devices
begin

lemma run_op_persisted:
  assumes "live ok cs" "persisted (content (cs_db cs)) fmt1123 (nodes_of cs)"
    and "run_op (cache_store_ops db fmt1123 order) op cs = (Ret e, cs')"
  shows "persisted (content (cs_db cs')) fmt1123 (nodes_of cs')"
proof (cases op)
  case (AddOp u t d)
  with assms(3) have a: "cache_add db fmt1123 u t d cs = (Ret e, cs')"
    by (simp add: cache_store_ops_def)
  show ?thesis
  proof (cases "nodes_of cs u")
    case None
    then have "added db fmt1123 u t d e cs cs'" using cache_add_spec [OF assms(1) None, of fmt1123 t d] a by simp
    then show ?thesis by (rule add_persisted [OF assms(1) None assms(2)])
  next
    case (Some n)
    then show ?thesis using a assms(2) by (simp add: cache_add_def)
  qed
next
  case (RemoveOp u)
  with assms(3) have a: "cache_remove db u cs = (Ret e, cs')" by (simp add: cache_store_ops_def)
  show ?thesis
  proof (cases "nodes_of cs u")
    case None
    then show ?thesis using a assms(2) by (simp add: cache_remove_def)
  next
    case (Some n)
    then show ?thesis using remove_persisted [OF assms(1) Some assms(2) a] by simp
  qed
qed

lemma run_ops_persisted:
  assumes "live ok cs" "persisted (content (cs_db cs)) fmt1123 (nodes_of cs)"
    and "run_ops (cache_store_ops db fmt1123 order) ops cs = (Ret es, cs')"
  shows "live ok cs' \<and> persisted (content (cs_db cs')) fmt1123 (nodes_of cs')"
  using assms
proof (induction ops arbitrary: cs es)
  case (Cons op ops)
  obtain e cs1 es1 where 1: "run_op (cache_store_ops db fmt1123 order) op cs = (Ret e, cs1)"
    "run_ops (cache_store_ops db fmt1123 order) ops cs1 = (Ret es1, cs')"
    using Cons.prems(3) by (auto simp: and_then_Ret_iff)
  have "live ok cs1" using cache.run_op_spec [OF Cons.prems(1), of fmt1123 op] 1(1) by auto
  then show ?case using Cons.IH 1 run_op_persisted [OF Cons.prems(1,2) 1(1)] by blast
qed simp

end

section \<open>The databases of the program\<close>

text \<open>
  \<^verbatim>\<open>NoopDB\<close> is total; the bucket is persistent over every bbolt that keeps its documentation,
  and over the one in memory. The keys of a map are listed in their order, as one of the orders
  in which the runtime may visit them.
\<close>

interpretation noop_devices: cached_devices "noop_db :: 'd db" "\<lambda>_. True" sorted_list_of_set
  by unfold_locales simp_all

context bbolt_docs
begin

lemma persistent: "(\<And>A. finite A \<Longrightarrow> set (order A) = A \<and> distinct (order A)) \<Longrightarrow>
    persistent_devices (bucket_db B name) opened order (bucket_content buckets name)"
  by (intro persistent_devices.intro cached_devices.intro cached_devices_axioms.intro
      bucket.total_db_axioms bucket.persistent_db_axioms) auto

end

interpretation bucket_devices: persistent_devices "bucket_db mem_bbolt name" "\<lambda>_. True"
    sorted_list_of_set "bucket_content mem_view name" for name
  by (rule mem.persistent) simp

end
