(* ===== verification/Devices.thy ===== *)
theory Devices
  imports CacheStore_Contract
begin

text \<open>
  The properties of the device stores, for the database bucket of the program over any bbolt that
  keeps its documentation: the store of the application is a set of URIs, discovery is
  idempotent, a restart restores the devices, the monitor removes the inactive devices and no
  others.
\<close>

section \<open>Contracts of the bucket\<close>

text \<open>An order in which the runtime may visit the keys of a map.\<close>

definition visits_all :: "(string set \<Rightarrow> string list) \<Rightarrow> bool" where
  "visits_all order \<longleftrightarrow> (\<forall>A. finite A \<longrightarrow> set (order A) = A \<and> distinct (order A))"

lemma visits_all_sorted: "visits_all sorted_list_of_set"
  by (simp add: visits_all_def)

lemma bucket_persistent:
  "bbolt_docs B opened buckets txb \<Longrightarrow> visits_all order \<Longrightarrow>
   persistent_devices (bucket_db B name) opened order (bucket_content buckets name)"
  by (rule bbolt_docs.persistent) (auto simp: visits_all_def)

lemma bucket_cached:
  "bbolt_docs B opened buckets txb \<Longrightarrow> visits_all order \<Longrightarrow>
   cached_devices (bucket_db B name) opened order"
  by (drule (1) bucket_persistent [of B opened buckets txb order name])
    (rule persistent_devices.axioms(1))

section \<open>A store on an empty bucket\<close>

definition sample_params :: cache_store_params where
  "sample_params = \<lparr>csp_FetchInterval = 5000000000, csp_FetchTimeout = 5000000000,
     csp_TimeSyncDisable = True, csp_MaxDriftInterval = 0\<rparr>"

definition sample_store :: "mem_buckets cache_store" where
  "sample_store = \<lparr>cs_params = sample_params, cs_resolve = new_resolve_store, cs_monitor = True,
     cs_db = [], cs_nodes = Some Map.empty, cs_now = 1800000000, cs_mono = 7\<rparr>"

definition sample_uri :: string where
  "sample_uri = ''http://10.0.0.7:80''"

definition other_uri :: string where
  "other_uri = ''http://10.0.0.8:80''"

lemma sample_live: "live (\<lambda>_. True) sample_store"
  by (simp add: live_def sample_store_def nodes_of_def)

lemma sample_restorable: "restorable sample_uri"
proof -
  have "url_parse sample_uri = Inr \<lparr>url_Scheme = ''http'', url_Host = ''10.0.0.7:80''\<rparr>"
    unfolding sample_uri_def by code_simp
  moreover have "url_port \<lparr>url_Scheme = ''http'', url_Host = ''10.0.0.7:80''\<rparr> = ''80''" by code_simp
  ultimately show ?thesis by (simp add: restorable_def parse_device_type_def)
qed

lemma sample_marshal:
  "\<exists>buf. MarshalBinary \<lparr>item_Desc = ''plant'', item_Timestamp = 1800000000, item_Type = ''bonsai''\<rparr> =
     Ret (Inr buf) \<and> length buf < ColferSizeMax"
proof -
  let ?t = "\<lparr>item_Desc = ''plant'', item_Timestamp = 1800000000, item_Type = ''bonsai''\<rparr>"
  have "length (encode_item ?t) < ColferSizeMax"
    by (simp add: encode_item_def encode_text_def encode_timestamp_def uvarint.simps
        timestamp_bytes.simps ColferSizeMax_def)
  then show ?thesis by (simp add: MarshalBinary_encode ColferSizeMax_def)
qed

text \<open>With the bucket in memory an addition that is not refused succeeds.\<close>

lemma mem_add:
  assumes "restorable u" "u \<noteq> ''''" "nodes_of cs u = None" "cs_nodes cs \<noteq> None"
    and "MarshalBinary \<lparr>item_Desc = d, item_Timestamp = cs_now cs, item_Type = t\<rparr> = Ret (Inr buf)"
  shows "\<exists>cs'. cache_add (bucket_db mem_bbolt name) fmt1123 u t d cs = (Ret None, cs')"
proof -
  obtain n rs where "make_node fmt1123 u t d (cs_now cs) cs = (Inr n, cs\<lparr>cs_resolve := rs\<rparr>)"
    using make_node_ok [OF assms(1)] by blast
  moreover obtain d' where "db_Write (bucket_db mem_bbolt name) u buf (cs_db cs) = (Ret None, d')"
    using assms(2) by (simp add: bucket_db_def bucket_write_def mem_bbolt_def)
  ultimately show ?thesis using assms by (auto simp: cache_add_def node_start_def)
qed

lemma sample_add: "\<exists>cs'. cache_add (bucket_db mem_bbolt name) fmt1123 sample_uri ''bonsai'' ''plant''
    sample_store = (Ret None, cs')"
proof -
  obtain buf where "MarshalBinary \<lparr>item_Desc = ''plant'', item_Timestamp = cs_now sample_store,
      item_Type = ''bonsai''\<rparr> = Ret (Inr buf)"
    using sample_marshal by (auto simp: sample_store_def)
  with mem_add [OF sample_restorable, of sample_store "''plant''" "''bonsai''" buf] show ?thesis
    by (simp add: sample_uri_def sample_store_def nodes_of_def)
qed

text \<open>The record of that device, and the store that a restart makes of it.\<close>

lemma restart_device:
  "\<exists>d cs. new_cache_store (bucket_db mem_bbolt ''b'') (\<lambda>_. ''now'') sample_params new_resolve_store
     d 0 0 = (Ret (), cs) \<and> cached_uris cs = {sample_uri}"
proof -
  obtain buf where buf: "MarshalBinary \<lparr>item_Desc = ''plant'', item_Timestamp = 1800000000,
      item_Type = ''bonsai''\<rparr> = Ret (Inr buf)" "length buf < ColferSizeMax" using sample_marshal by blast
  let ?cs0 = "sample_store\<lparr>cs_db := [(''b'', [(sample_uri, buf)])]\<rparr>"
  obtain n where n: "node_for (\<lambda>_. ''now'') sample_uri \<lparr>item_Desc = ''plant'',
      item_Timestamp = 1800000000, item_Type = ''bonsai''\<rparr> n"
    using make_node_ok [OF sample_restorable] by blast
  have c: "bucket_content mem_view ''b'' (cs_db ?cs0) = [sample_uri \<mapsto> buf]"
    by (simp add: bucket_content_def mem_view_def fun_eq_iff)
  have p: "persisted (bucket_content mem_view ''b'' (cs_db ?cs0)) (\<lambda>_. ''now'') [sample_uri \<mapsto> n]"
    unfolding c using sample_restorable buf(1) n by (auto simp: persisted_def split: if_splits)
  have s: "\<forall>u b. bucket_content mem_view ''b'' (cs_db ?cs0) u = Some b \<longrightarrow> length b < ColferSizeMax"
    unfolding c using buf(2) by (auto split: if_splits)
  from bucket_devices.restart [where params = sample_params and rs = new_resolve_store and now = 0
      and monotonic = 0, OF TrueI p s]
  obtain cs where cs: "new_cache_store (bucket_db mem_bbolt ''b'') (\<lambda>_. ''now'') sample_params
      new_resolve_store (cs_db ?cs0) 0 0 = (Ret (), cs)" "dom (nodes_of cs) = dom [sample_uri \<mapsto> n]"
    by blast
  from cs(2) have u: "cached_uris cs = {sample_uri}" by (simp add: cached_uris_def)
  with cs(1) show ?thesis by blast
qed

section \<open>Properties\<close>

text \<open>
  C1. The store of the application is a set of URIs: any sequence of additions and removals
  returns, an addition is refused with \<^verbatim>\<open>ErrDeviceExist\<close> exactly when the URI is there, removing
  an unknown URI reports no data, and what the store describes afterwards is, once per device,
  the set that the successful operations leave.
\<close>

theorem app_store_is_a_set:
  assumes "bbolt_docs B opened buckets txb" and "visits_all order"
    and "live opened cs" and "dom (am_devices m) = cached_uris cs"
  shows "\<exists>es s' items. run_ops (app_store (bucket_db B name) fmt1123 order) ops (m, r, cs) = (Ret es, s') \<and>
     ops_allowed ops es (cached_uris cs) \<and>
     store_GetDesc (app_store (bucket_db B name) fmt1123 order) s' = (Ret items, s') \<and>
     distinct (map si_URI items) \<and> si_URI ` set items = ops_set ops es (cached_uris cs)"
proof -
  note st = cached_devices.app_store_is_store [OF bucket_cached [OF assms(1,2)], of name fmt1123]
  have "app_inv opened (m, r, cs)" using assms(3,4) by (simp add: app_inv_def)
  from device_store.run_ops_spec [OF st this, of ops] device_store.get_desc [OF st] show ?thesis
    by fastforce
qed

theorem app_store_is_a_set_witness:
  "\<exists>es s' items. run_ops (app_store (bucket_db mem_bbolt ''device_bucket'') (\<lambda>_. ''now'') sorted_list_of_set)
       [AddOp sample_uri ''bonsai'' ''plant'', RemoveOp other_uri]
       (\<lparr>am_maxInactiveInterval = 120000000000, am_devices = Map.empty\<rparr>, new_runner (), sample_store) =
       (Ret es, s') \<and> ops_allowed [AddOp sample_uri ''bonsai'' ''plant'', RemoveOp other_uri] es {} \<and>
     store_GetDesc (app_store (bucket_db mem_bbolt ''device_bucket'') (\<lambda>_. ''now'') sorted_list_of_set)
       s' = (Ret items, s') \<and> distinct (map si_URI items) \<and>
     si_URI ` set items = ops_set [AddOp sample_uri ''bonsai'' ''plant'', RemoveOp other_uri] es {}"
proof -
  have u: "cached_uris sample_store = {}"
    by (simp add: cached_uris_def sample_store_def nodes_of_def)
  show ?thesis
    using app_store_is_a_set [OF mem.bbolt_docs_axioms visits_all_sorted sample_live,
        of "\<lparr>am_maxInactiveInterval = 120000000000, am_devices = Map.empty\<rparr>" "''device_bucket''"
          "\<lambda>_. ''now''" "[AddOp sample_uri ''bonsai'' ''plant'', RemoveOp other_uri]" "new_runner ()"]
    by (simp add: u)
qed

lemma app_add:
  assumes "cache_add db fmt1123 u t d cs = (Ret e, cs')"
  shows "store_Add (app_store db fmt1123 order) u t d (m, r, cs) =
     (Ret e, (if e = None then set_device u (cs_mono cs') m else m,
              if e = None then runner_awake r else r, cs'))"
  using assms
  by (cases e) (simp_all add: app_store_def app_awake_store_def monitor_store_def monitor_add_def
      awake_store_def awake_store_add_def lift_store_def cache_store_ops_def outcome_simps)

text \<open>
  C2. An addition succeeds exactly when the URI is new, is an HTTP or HTTPS URL with a port, the
  record of the device takes at most 1024 bytes and the database writes it. Then the database has
  that record under the URI, the monitor has seen the device now, and the browser is awaked; an
  addition that fails leaves the devices, the database, the monitor and the browser as they are.
\<close>

theorem addition_succeeds_exactly:
  assumes "bbolt_docs B opened buckets txb" and "visits_all order" and "live opened cs"
    and "item = \<lparr>item_Desc = d, item_Timestamp = cs_now cs, item_Type = t\<rparr>"
  shows "\<exists>e m' r' cs'. store_Add (app_store (bucket_db B name) fmt1123 order) u t d (m, r, cs) =
       (Ret e, (m', r', cs')) \<and>
     (e = Some ErrDeviceExist \<longleftrightarrow> u \<in> cached_uris cs) \<and>
     (e = None \<longleftrightarrow> u \<notin> cached_uris cs \<and> restorable u \<and> length (encode_item item) \<le> ColferSizeMax \<and>
        fst (bucket_write B name u (encode_item item) (cs_db cs)) = Ret None) \<and>
     (if e = None
      then cached_uris cs' = insert u (cached_uris cs) \<and>
        bucket_content buckets name (cs_db cs') =
          (bucket_content buckets name (cs_db cs))(u \<mapsto> encode_item item) \<and>
        m' = set_device u (cs_mono cs) m \<and> r' = runner_awake r
      else cached_uris cs' = cached_uris cs \<and>
        bucket_content buckets name (cs_db cs') = bucket_content buckets name (cs_db cs) \<and>
        m' = m \<and> r' = r)"
proof -
  have w: "db_Write (bucket_db B name) = bucket_write B name" by (simp add: bucket_db_def fun_eq_iff)
  have "opened (cs_db cs)" using assms(3) by (simp add: live_def)
  then have content: "bucket_content buckets name s' = (if e = None
      then (bucket_content buckets name (cs_db cs))(u \<mapsto> buf) else bucket_content buckets name (cs_db cs))"
    if "bucket_write B name u buf (cs_db cs) = (Ret e, s')" for buf e s'
    using bbolt_docs.bucket_write_spec [OF assms(1), of "cs_db cs" name u buf] that by auto
  obtain e cs' where a: "cache_add (bucket_db B name) fmt1123 u t d cs = (Ret e, cs')"
    "cs_mono cs' = cs_mono cs" "e = Some ErrDeviceExist \<longleftrightarrow> u \<in> cached_uris cs"
    "e = None \<longleftrightarrow> u \<notin> cached_uris cs \<and> restorable u \<and> length (encode_item item) \<le> ColferSizeMax \<and>
        fst (bucket_write B name u (encode_item item) (cs_db cs)) = Ret None"
    "cached_uris cs' = (if e = None then insert u (cached_uris cs) else cached_uris cs)"
    "if e = None then bucket_write B name u (encode_item item) (cs_db cs) = (Ret None, cs_db cs')
      else cs_db cs' = cs_db cs \<or> (\<exists>buf e'. bucket_write B name u buf (cs_db cs) = (Ret (Some e'), cs_db cs'))"
    using cached_devices.cache_add_succeeds [OF bucket_cached [OF assms(1,2)] assms(3,4), of name fmt1123 u]
    unfolding w by blast
  have "bucket_content buckets name (cs_db cs') = (if e = None
      then (bucket_content buckets name (cs_db cs))(u \<mapsto> encode_item item)
      else bucket_content buckets name (cs_db cs))"
    using a(6) content by (fastforce split: if_splits)
  with a(3-5) app_add [OF a(1), of order m r] a(2) show ?thesis
    by (cases "e = None") auto
qed
theorem addition_succeeds_exactly_witness:
  "\<exists>m' r' cs'. store_Add (app_store (bucket_db mem_bbolt ''b'') (\<lambda>_. ''now'') sorted_list_of_set)
       sample_uri ''bonsai'' ''plant''
       (\<lparr>am_maxInactiveInterval = 5, am_devices = Map.empty\<rparr>, new_runner (), sample_store) =
       (Ret None, (m', r', cs')) \<and>
     cached_uris cs' = {sample_uri} \<and> am_devices m' sample_uri = Some (cs_mono sample_store) \<and>
     bucket_content mem_view ''b'' (cs_db cs') sample_uri =
       Some (encode_item \<lparr>item_Desc = ''plant'', item_Timestamp = 1800000000, item_Type = ''bonsai''\<rparr>)"
proof -
  let ?i = "\<lparr>item_Desc = ''plant'', item_Timestamp = cs_now sample_store, item_Type = ''bonsai''\<rparr>"
  have now: "cs_now sample_store = 1800000000" by (simp add: sample_store_def)
  have l: "length (encode_item ?i) \<le> ColferSizeMax"
    using sample_marshal by (auto simp: MarshalBinary_encode now)
  have w: "fst (bucket_write mem_bbolt ''b'' sample_uri (encode_item ?i) (cs_db sample_store)) = Ret None"
    by (simp add: bucket_write_def mem_bbolt_def sample_uri_def)
  have u: "cached_uris sample_store = {}" by (simp add: cached_uris_def sample_store_def nodes_of_def)
  from addition_succeeds_exactly [OF mem.bbolt_docs_axioms visits_all_sorted sample_live refl,
      of "''b''" "\<lambda>_. ''now''" sample_uri "''bonsai''" "''plant''"
        "\<lparr>am_maxInactiveInterval = 5, am_devices = Map.empty\<rparr>" "new_runner ()"] l w sample_restorable
  show ?thesis by (auto simp: u now set_device_def)
qed

text \<open>
  Discovery is idempotent: after a service has been handled without an error, every later
  service that announces a device with the same URI is handled without an error and changes
  nothing, neither the store nor the database nor the monitor.
\<close>

theorem discovery_is_idempotent:
  assumes "bbolt_docs B opened buckets txb" and "visits_all order"
    and "live opened cs" and "dom (am_devices m) = cached_uris cs"
    and "announces svc = Some (u, t, d)"
    and "mdns_handle_service (app_store (bucket_db B name) fmt1123 order) svc (m, r, cs) = (Ret None, s')"
    and "announces svc' = Some (u, t', d')"
  shows "mdns_handle_service (app_store (bucket_db B name) fmt1123 order) svc' s' = (Ret None, s')"
proof (rule device_store.mdns_again)
  show "device_store (app_store (bucket_db B name) fmt1123 order) app_uris (app_inv opened)"
    by (rule cached_devices.app_store_is_store [OF bucket_cached [OF assms(1,2)]])
  show "app_inv opened (m, r, cs)" using assms(3,4) by (simp add: app_inv_def)
qed (rule assms)+

definition sample_service :: "string \<Rightarrow> service" where
  "sample_service desc =
     \<lparr>svc_Instance = ''b'', svc_Name = ''_http._tcp'', svc_Hostname = ''b.local.'', svc_Port = 80,
      svc_TxtRecords = [''autodiscovery_mode=1'', ''autodiscovery_uri=http://10.0.0.7:80'',
        ''autodiscovery_type=bonsai'', ''autodiscovery_desc='' @ desc],
      svc_AddrsIPv4 = [[10, 0, 0, 7]], svc_AddrsIPv6 = []\<rparr>"

lemma parse_int_one: "parse_int ''Atoi'' ''1'' = Inr 1"
  by (simp add: parse_int_def digit_val_def)

lemma sample_service_announces:
  "announces (sample_service ''plant'') = Some (sample_uri, ''bonsai'', ''plant'')"
  "announces (sample_service ''tree'') = Some (sample_uri, ''bonsai'', ''tree'')"
  by (simp_all add: announces_def sample_service_def sample_uri_def txt_entries_def txt_ok_def
      parse_int_one)

theorem discovery_is_idempotent_witness:
  "\<exists>s'. mdns_handle_service (app_store (bucket_db mem_bbolt ''b'') (\<lambda>_. ''now'') sorted_list_of_set)
       (sample_service ''plant'')
       (\<lparr>am_maxInactiveInterval = 5, am_devices = Map.empty\<rparr>, new_runner (), sample_store) = (Ret None, s') \<and>
     mdns_handle_service (app_store (bucket_db mem_bbolt ''b'') (\<lambda>_. ''now'') sorted_list_of_set)
       (sample_service ''tree'') s' = (Ret None, s')"
proof -
  let ?st = "app_store (bucket_db mem_bbolt ''b'') (\<lambda>_. ''now'') sorted_list_of_set"
  let ?m = "\<lparr>am_maxInactiveInterval = 5, am_devices = Map.empty\<rparr>"
  obtain cs' where "cache_add (bucket_db mem_bbolt ''b'') (\<lambda>_. ''now'') sample_uri ''bonsai'' ''plant''
      sample_store = (Ret None, cs')" using sample_add by blast
  then have "\<exists>s'. mdns_handle_service ?st (sample_service ''plant'')
      (?m, new_runner (), sample_store) = (Ret None, s')"
    by (simp add: mdns_handle_announced [OF sample_service_announces(1)] handle_autodiscovery_add_def
        app_store_def app_awake_store_def monitor_store_def monitor_add_def awake_store_def
        awake_store_add_def lift_store_def cache_store_ops_def app_now_def and_then_def lift_snd_def
        lift_fst_def)
  then obtain s' where s': "mdns_handle_service ?st (sample_service ''plant'')
      (?m, new_runner (), sample_store) = (Ret None, s')" by blast
  have "dom (am_devices ?m) = cached_uris sample_store"
    by (simp add: cached_uris_def sample_store_def nodes_of_def)
  from discovery_is_idempotent [OF mem.bbolt_docs_axioms visits_all_sorted sample_live this
      sample_service_announces(1) s' sample_service_announces(2)] s'
  show ?thesis by blast
qed

text \<open>
  C3. A restart restores the devices: after any sequence of operations on a store whose database
  mirrors it, a new store on the same database returns, has the same URIs with the same type,
  description and creation time, and leaves the database as it is, provided that no record takes
  the full 1024 bytes.
\<close>

theorem restart_restores_devices:
  assumes docs: "bbolt_docs B opened buckets txb" and order: "visits_all order"
    and "live opened cs" and "persisted (bucket_content buckets name (cs_db cs)) fmt1123 (nodes_of cs)"
    and "run_ops (cache_store_ops (bucket_db B name) fmt1123 order) ops cs = (Ret es, cs')"
    and short: "\<forall>u buf. bucket_content buckets name (cs_db cs') u = Some buf \<longrightarrow> length buf < ColferSizeMax"
  shows "\<exists>cs''. new_cache_store (bucket_db B name) fmt1123 params rs (cs_db cs') now monotonic = (Ret (), cs'') \<and>
     cs_db cs'' = cs_db cs' \<and> cached_uris cs'' = cached_uris cs' \<and>
     (\<forall>u n n'. nodes_of cs' u = Some n \<longrightarrow> nodes_of cs'' u = Some n' \<longrightarrow> same_device n n')"
proof -
  note p = bucket_persistent [OF docs order, of name]
  have l: "live opened cs'" "persisted (bucket_content buckets name (cs_db cs')) fmt1123 (nodes_of cs')"
    using persistent_devices.run_ops_persisted [OF p assms(3-5)] by simp_all
  have "opened (cs_db cs')" using l(1) by (simp add: live_def)
  from persistent_devices.restart [where params = params and rs = rs and now = now
      and monotonic = monotonic, OF p this l(2) short] show ?thesis
    unfolding cached_uris_def by blast
qed

theorem restart_restores_devices_witness:
  "\<exists>cs' cs''. run_ops (cache_store_ops (bucket_db mem_bbolt ''b'') (\<lambda>_. ''now'') sorted_list_of_set)
       [AddOp sample_uri ''bonsai'' ''plant''] sample_store = (Ret [None], cs') \<and>
     new_cache_store (bucket_db mem_bbolt ''b'') (\<lambda>_. ''now'') sample_params new_resolve_store
       (cs_db cs') 0 0 = (Ret (), cs'') \<and> cached_uris cs'' = {sample_uri}"
proof -
  let ?ops = "cache_store_ops (bucket_db mem_bbolt ''b'') (\<lambda>_. ''now'') sorted_list_of_set"
  obtain cs' where a: "cache_add (bucket_db mem_bbolt ''b'') (\<lambda>_. ''now'') sample_uri ''bonsai'' ''plant''
      sample_store = (Ret None, cs')" using sample_add by blast
  then have r: "run_ops ?ops [AddOp sample_uri ''bonsai'' ''plant''] sample_store = (Ret [None], cs')"
    by (simp add: cache_store_ops_def and_then_def)
  have n: "nodes_of sample_store = Map.empty" by (simp add: sample_store_def nodes_of_def)
  have "added (bucket_db mem_bbolt ''b'') (\<lambda>_. ''now'') sample_uri ''bonsai'' ''plant'' None sample_store cs'"
    using bucket_devices.cache_add_spec [OF sample_live, of sample_uri "''b''" "\<lambda>_. ''now''" "''bonsai''" "''plant''"]
      a n by simp
  then obtain node buf where ad: "nodes_of cs' = [sample_uri \<mapsto> node]"
    "MarshalBinary \<lparr>item_Desc = ''plant'', item_Timestamp = 1800000000, item_Type = ''bonsai''\<rparr> = Ret (Inr buf)"
    "db_Write (bucket_db mem_bbolt ''b'') sample_uri buf (cs_db sample_store) = (Ret None, cs_db cs')"
    by (auto simp: added_def Let_def n sample_store_def)
  have e: "bucket_content mem_view ''b'' (cs_db sample_store) = Map.empty"
    by (simp add: bucket_content_def mem_view_def sample_store_def)
  have c: "bucket_content mem_view ''b'' (cs_db cs') = [sample_uri \<mapsto> buf]"
    using mem.bucket.write_content [OF _ ad(3)] e by simp
  have "length buf < ColferSizeMax" using sample_marshal ad(2) by auto
  then have short: "\<forall>u b. bucket_content mem_view ''b'' (cs_db cs') u = Some b \<longrightarrow> length b < ColferSizeMax"
    using c by (auto split: if_splits)
  have p: "persisted (bucket_content mem_view ''b'' (cs_db sample_store)) (\<lambda>_. ''now'') (nodes_of sample_store)"
    by (simp add: persisted_def e n)
  have u: "cached_uris cs' = {sample_uri}" by (simp add: cached_uris_def ad(1))
  from restart_restores_devices [where params = sample_params and rs = new_resolve_store and now = 0
      and monotonic = 0, OF mem.bbolt_docs_axioms visits_all_sorted sample_live p r short]
  obtain cs'' where "new_cache_store (bucket_db mem_bbolt ''b'') (\<lambda>_. ''now'') sample_params
      new_resolve_store (cs_db cs') 0 0 = (Ret (), cs'')" "cached_uris cs'' = {sample_uri}"
    unfolding u by blast
  with r show ?thesis by blast
qed

text \<open>
  C13. The database mirrors the store: whatever is added and removed, and whichever of these
  operations fail, every device is kept under its own URI with a runner that was started exactly
  once, and the database has one record per device, from which a device with the same type,
  description and creation time can be restored.
\<close>

theorem database_mirrors_store:
  assumes "bbolt_docs B opened buckets txb" and "visits_all order"
    and "live opened cs" and "persisted (bucket_content buckets name (cs_db cs)) fmt1123 (nodes_of cs)"
    and "run_ops (cache_store_ops (bucket_db B name) fmt1123 order) ops cs = (Ret es, cs')"
  shows "live opened cs' \<and> persisted (bucket_content buckets name (cs_db cs')) fmt1123 (nodes_of cs')"
  by (rule persistent_devices.run_ops_persisted [OF bucket_persistent [OF assms(1,2)] assms(3-5)])

theorem database_mirrors_store_witness:
  "\<exists>cs'. run_ops (cache_store_ops (bucket_db mem_bbolt ''b'') (\<lambda>_. ''now'') sorted_list_of_set)
       [AddOp sample_uri ''bonsai'' ''plant''] sample_store = (Ret [None], cs') \<and>
     persisted (bucket_content mem_view ''b'' (cs_db cs')) (\<lambda>_. ''now'') (nodes_of cs')"
proof -
  obtain cs' where "cache_add (bucket_db mem_bbolt ''b'') (\<lambda>_. ''now'') sample_uri ''bonsai'' ''plant''
      sample_store = (Ret None, cs')" using sample_add by blast
  then have r: "run_ops (cache_store_ops (bucket_db mem_bbolt ''b'') (\<lambda>_. ''now'') sorted_list_of_set)
      [AddOp sample_uri ''bonsai'' ''plant''] sample_store = (Ret [None], cs')"
    by (simp add: cache_store_ops_def and_then_def)
  have p: "persisted (bucket_content mem_view ''b'' (cs_db sample_store)) (\<lambda>_. ''now'') (nodes_of sample_store)"
    by (simp add: persisted_def bucket_content_def mem_view_def sample_store_def nodes_of_def)
  from database_mirrors_store [OF mem.bbolt_docs_axioms visits_all_sorted sample_live p r] r
  show ?thesis by blast
qed

text \<open>
  C11. A run of the monitor never removes a device that was seen less than the maximum interval
  ago, and when it reports no error it has removed all the others: exactly the active devices
  are left, in whatever order the runtime visits them.
\<close>

theorem monitor_keeps_active_devices:
  assumes "bbolt_docs B opened buckets txb" and "visits_all order"
    and "live opened cs" and "dom (am_devices m) = cached_uris cs"
    and "distinct ord" and "set ord = cached_uris cs"
  shows "\<exists>e m' r' cs'. monitor_run app_now (app_awake_store (bucket_db B name) fmt1123 order) ord (m, r, cs) =
       (Ret e, (m', r', cs')) \<and>
     {u \<in> cached_uris cs. device_active (cs_mono cs) m u} \<subseteq> cached_uris cs' \<and>
     (e = None \<longrightarrow> cached_uris cs' = {u \<in> cached_uris cs. device_active (cs_mono cs) m u})"
proof -
  have "app_inv opened (m, r, cs)" using assms(3,4) by (simp add: app_inv_def)
  from cached_devices.app_run_spec [OF bucket_cached [OF assms(1,2)] this assms(5), of name fmt1123]
  obtain e m' r' cs' where
    "monitor_run app_now (app_awake_store (bucket_db B name) fmt1123 order) ord (m, r, cs) =
       (Ret e, (m', r', cs'))"
    "{u \<in> cached_uris cs. device_active (cs_mono cs) m u} \<subseteq> cached_uris cs'"
    "e = None \<longrightarrow> cached_uris cs' = {u \<in> cached_uris cs. u \<notin> set ord \<or> device_active (cs_mono cs) m u}"
    by blast
  moreover have "{u \<in> cached_uris cs. u \<notin> set ord \<or> device_active (cs_mono cs) m u} =
      {u \<in> cached_uris cs. device_active (cs_mono cs) m u}" using assms(6) by auto
  ultimately show ?thesis by (intro exI conjI) simp_all
qed

lemma mem_Remove: "\<exists>d'. db_Remove (bucket_db mem_bbolt name) u d = (Ret None, d')"
  by (cases "map_of d name") (simp_all add: bucket_db_def bucket_remove_def mem_bbolt_def)

text \<open>A removal from the bucket in memory succeeds when the device was started once.\<close>

lemma mem_remove:
  assumes "nodes_of cs u = Some n" "sn_starts n = 1"
  shows "\<exists>cs'. cache_remove (bucket_db mem_bbolt name) u cs = (Ret None, cs')"
proof -
  obtain d' where "db_Remove (bucket_db mem_bbolt name) u (cs_db cs) = (Ret None, d')"
    using mem_Remove by blast
  moreover obtain rs' where "node_stop n (cs_resolve cs) = (Ret None, rs')"
    using node_stop_once [OF assms(2)] by blast
  ultimately show ?thesis using assms(1) by (simp add: cache_remove_def)
qed

lemma sample_added:
  obtains cs' where "cache_add (bucket_db mem_bbolt name) fmt1123 sample_uri ''bonsai'' ''plant'' sample_store =
      (Ret None, cs')" "live (\<lambda>_. True) cs'" "cached_uris cs' = {sample_uri}" "cs_mono cs' = 7"
proof -
  obtain cs' where a: "cache_add (bucket_db mem_bbolt name) fmt1123 sample_uri ''bonsai'' ''plant''
      sample_store = (Ret None, cs')" using sample_add by blast
  have n: "nodes_of sample_store = Map.empty" "cs_mono sample_store = 7"
    by (simp_all add: sample_store_def nodes_of_def)
  have "live (\<lambda>_. True) cs' \<and> cs_mono cs' = cs_mono sample_store \<and>
      added (bucket_db mem_bbolt name) fmt1123 sample_uri ''bonsai'' ''plant'' None sample_store cs'"
    using bucket_devices.cache_add_spec [OF sample_live, of sample_uri name fmt1123 "''bonsai''" "''plant''"]
      a n by simp
  then show thesis using that a n added_uris [of "bucket_db mem_bbolt name" fmt1123 sample_uri]
    by (fastforce simp: cached_uris_def)
qed

theorem monitor_keeps_active_devices_witness:
  "\<exists>cs e m' r' cs'. cached_uris cs = {sample_uri} \<and>
     monitor_run app_now (app_awake_store (bucket_db mem_bbolt ''b'') (\<lambda>_. ''now'') sorted_list_of_set)
       [sample_uri] (\<lparr>am_maxInactiveInterval = 5, am_devices = [sample_uri \<mapsto> 4]\<rparr>, new_runner (), cs) =
       (Ret e, (m', r', cs')) \<and> {sample_uri} \<subseteq> cached_uris cs'"
proof -
  let ?m = "\<lparr>am_maxInactiveInterval = 5, am_devices = [sample_uri \<mapsto> 4]\<rparr>"
  obtain cs :: "mem_buckets cache_store" where cs: "live (\<lambda>_. True) cs" "cached_uris cs = {sample_uri}" "cs_mono cs = 7"
    by (rule sample_added [of "''b''" "\<lambda>_. ''now''"]) (rule that, assumption+)
  have act: "device_active 7 ?m sample_uri" by (simp add: device_active_def mono_sub_def)
  obtain e m' r' cs' where
    "monitor_run app_now (app_awake_store (bucket_db mem_bbolt ''b'') (\<lambda>_. ''now'') sorted_list_of_set)
       [sample_uri] (?m, new_runner (), cs) = (Ret e, (m', r', cs'))"
    "{u \<in> cached_uris cs. device_active (cs_mono cs) ?m u} \<subseteq> cached_uris cs'"
    using monitor_keeps_active_devices [OF mem.bbolt_docs_axioms visits_all_sorted cs(1),
        of ?m "[sample_uri]" "''b''" "\<lambda>_. ''now''" "new_runner ()"] cs(2) by auto
  moreover from this(2) act cs have "{sample_uri} \<subseteq> cached_uris cs'" by auto
  ultimately show ?thesis using cs(2) by blast
qed

text \<open>Starting a store that was just built and then told about the monitor.\<close>

lemma monitored_start:
  assumes "cached_devices db ok order" and "fresh cs" and "ok (cs_db cs)"
    and "distinct ord" and "set ord = cached_uris cs"
  shows "\<exists>cs'. cache_start ord (set_alive_monitor cs) = (Ret None, cs') \<and> live ok cs' \<and>
     cached_uris cs' = cached_uris cs \<and>
     (\<forall>u n. nodes_of cs' u = Some n \<longrightarrow> hd_notifier (sn_device n) = None)"
proof -
  have "\<exists>cs'. cache_start ord (set_alive_monitor cs) = (Ret None, cs') \<and> live ok cs' \<and>
     cs_db cs' = cs_db (set_alive_monitor cs) \<and> cached_uris cs' = cached_uris (set_alive_monitor cs) \<and>
     (\<forall>u. nodes_of cs' u = map_option (\<lambda>n. n\<lparr>sn_starts := 1\<rparr>) (nodes_of (set_alive_monitor cs) u))"
    by (rule cached_devices.start_live [OF assms(1)])
      (use assms(2-5) in \<open>auto simp: fresh_def cached_uris_def set_alive_monitor_def nodes_of_def\<close>)
  then show ?thesis using assms(2)
    by (auto simp: set_alive_monitor_def cached_uris_def nodes_of_def fresh_def)
qed

end
