(* ===== verification/GoJson.thy ===== *)
theory GoJson
  imports GoUrl NetAddr
begin

text \<open>
  What the device list uses of \<^verbatim>\<open>encoding/json\<close>: the encoding of a string as
  \<^verbatim>\<open>json.Marshal\<close> writes it (Go 1.23, HTML characters escaped, invalid UTF-8 replaced), and a
  reader of such strings, with the proof that every valid UTF-8 text is read back.
\<close>

section \<open>UTF-8\<close>

text \<open>
  The number of bytes of the first rune, 0 when \<^verbatim>\<open>utf8.DecodeRune\<close> reports an invalid one.
\<close>

definition in_range :: "nat \<Rightarrow> nat \<Rightarrow> char \<Rightarrow> bool" where
  "in_range lo hi c \<longleftrightarrow> lo \<le> char_code c \<and> char_code c \<le> hi"

definition all_ranges :: "(nat \<times> nat) list \<Rightarrow> string \<Rightarrow> nat" where
  "all_ranges rs s =
     (if length rs \<le> length s \<and> list_all2 (\<lambda>(lo, hi). in_range lo hi) rs (take (length rs) s)
      then Suc (length rs) else 0)"

fun utf8_size :: "string \<Rightarrow> nat" where
  "utf8_size [] = 0"
| "utf8_size (c # s) =
     (let n = char_code c in
      if n < 0x80 then 1
      else if n < 0xC2 then 0
      else if n \<le> 0xDF then all_ranges [(0x80, 0xBF)] s
      else if n = 0xE0 then all_ranges [(0xA0, 0xBF), (0x80, 0xBF)] s
      else if n = 0xED then all_ranges [(0x80, 0x9F), (0x80, 0xBF)] s
      else if n \<le> 0xEF then all_ranges [(0x80, 0xBF), (0x80, 0xBF)] s
      else if n = 0xF0 then all_ranges [(0x90, 0xBF), (0x80, 0xBF), (0x80, 0xBF)] s
      else if n \<le> 0xF3 then all_ranges [(0x80, 0xBF), (0x80, 0xBF), (0x80, 0xBF)] s
      else if n = 0xF4 then all_ranges [(0x80, 0x8F), (0x80, 0xBF), (0x80, 0xBF)] s
      else 0)"

fun utf8_valid :: "string \<Rightarrow> bool" where
  "utf8_valid [] = True"
| "utf8_valid (c # s) = (utf8_size (c # s) \<noteq> 0 \<and> utf8_valid (drop (utf8_size (c # s) - 1) s))"

section \<open>Strings\<close>

text \<open>The bytes of \<^verbatim>\<open>htmlSafeSet\<close> are written as they are.\<close>

definition html_safe :: "char \<Rightarrow> bool" where
  "html_safe c \<longleftrightarrow> 32 \<le> char_code c \<and> char_code c \<notin> {34, 38, 60, 62, 92}"

definition escape_ascii :: "char \<Rightarrow> string" where
  "escape_ascii c =
     (let n = char_code c in
      if html_safe c then [c]
      else if n = 34 \<or> n = 92 then [CHR 0x5C, c]
      else if n = 8 then [CHR 0x5C, CHR ''b'']
      else if n = 12 then [CHR 0x5C, CHR ''f'']
      else if n = 10 then [CHR 0x5C, CHR ''n'']
      else if n = 13 then [CHR 0x5C, CHR ''r'']
      else if n = 9 then [CHR 0x5C, CHR ''t'']
      else [CHR 0x5C, CHR ''u'', CHR ''0'', CHR ''0'', hex_digit (n div 16), hex_digit (n mod 16)])"

definition line_separator :: "nat \<Rightarrow> string" where
  "line_separator k = [char_of (0xE2 :: nat), char_of (0x80 :: nat), char_of (0xA8 + k)]"

fun json_escape :: "string \<Rightarrow> string" where
  "json_escape [] = []"
| "json_escape (c # s) =
     (if char_code c < 128 then escape_ascii c @ json_escape s
      else (let n = utf8_size (c # s); r = take n (c # s) in
        if n = 0 then CHR 0x5C # ''ufffd'' @ json_escape s
        else if r = line_separator 0 then CHR 0x5C # ''u2028'' @ json_escape (drop (n - 1) s)
        else if r = line_separator 1 then CHR 0x5C # ''u2029'' @ json_escape (drop (n - 1) s)
        else r @ json_escape (drop (n - 1) s)))"

definition json_quote :: "string \<Rightarrow> string" where
  "json_quote s = CHR 0x22 # json_escape s @ [CHR 0x22]"

section \<open>Reading strings back\<close>

definition utf8_encode :: "nat \<Rightarrow> string" where
  "utf8_encode n =
     (if n < 0x80 then [char_of n]
      else if n < 0x800 then [char_of (0xC0 + n div 64), char_of (0x80 + n mod 64)]
      else if n < 0x10000 then
        [char_of (0xE0 + n div 4096), char_of (0x80 + n div 64 mod 64), char_of (0x80 + n mod 64)]
      else [char_of (0xF0 + n div 262144), char_of (0x80 + n div 4096 mod 64),
            char_of (0x80 + n div 64 mod 64), char_of (0x80 + n mod 64)])"

definition simple_escape :: "char \<Rightarrow> char option" where
  "simple_escape e =
     (let n = char_code e in
      if n = 34 \<or> n = 92 \<or> n = 47 then Some e
      else if e = CHR ''b'' then Some CHR 0x08 else if e = CHR ''f'' then Some CHR 0x0C
      else if e = CHR ''n'' then Some CHR 0x0A else if e = CHR ''r'' then Some CHR 0x0D
      else if e = CHR ''t'' then Some CHR 0x09 else None)"

definition hex4 :: "char \<Rightarrow> char \<Rightarrow> char \<Rightarrow> char \<Rightarrow> nat option" where
  "hex4 a b c d =
     (case (unhex a, unhex b, unhex c, unhex d) of
        (Some w, Some x, Some y, Some z) \<Rightarrow> Some (w * 4096 + x * 256 + y * 16 + z)
      | _ \<Rightarrow> None)"

text \<open>\<^verbatim>\<open>utf8.RuneError\<close>, and the code point of two surrogates.\<close>

definition rune_error :: nat where
  "rune_error = 0xFFFD"

definition surrogate :: "nat \<Rightarrow> bool" where
  "surrogate n \<longleftrightarrow> 0xD800 \<le> n \<and> n < 0xE000"

definition surrogate_pair :: "nat \<Rightarrow> nat \<Rightarrow> nat option" where
  "surrogate_pair n m =
     (if 0xD800 \<le> n \<and> n < 0xDC00 \<and> 0xDC00 \<le> m \<and> m < 0xE000
      then Some ((n - 0xD800) * 0x400 + (m - 0xDC00) + 0x10000) else None)"

text \<open>
  What a \<^verbatim>\<open>\u\<close> escape with the code unit \<open>n\<close> stands for, in front of the rest: its code point, and
  how much of the rest belongs to it. A surrogate without its partner is replaced.
\<close>

definition escaped_rune :: "nat \<Rightarrow> string \<Rightarrow> nat \<times> string" where
  "escaped_rune n rest =
     (if \<not> surrogate n then (n, rest)
      else (case rest of
              b # u # w # x # y # z # rest' \<Rightarrow>
                (if char_code b = 92 \<and> u = CHR ''u''
                 then (case Option.bind (hex4 w x y z) (surrogate_pair n) of
                         Some r \<Rightarrow> (r, rest') | None \<Rightarrow> (rune_error, rest))
                 else (rune_error, rest))
            | _ \<Rightarrow> (rune_error, rest)))"

lemma escaped_rune_rest [termination_simp]:
  "escaped_rune n rest = (r, rest') \<Longrightarrow> length rest' \<le> length rest"
  by (auto simp: escaped_rune_def split: if_splits list.splits option.splits)

text \<open>
  The text up to the closing quote and what follows it. Control characters are not allowed, an
  invalid byte is replaced.
\<close>

definition before :: "string \<Rightarrow> (string \<times> 'r) option \<Rightarrow> (string \<times> 'r) option" where
  "before p = map_option (\<lambda>(t, r). (p @ t, r))"

function json_unquote :: "string \<Rightarrow> (string \<times> string) option" where
  "json_unquote [] = None"
| "json_unquote (c # s) =
     (if char_code c = 34 then Some ([], s)
      else if char_code c = 92 then
        (case s of
           [] \<Rightarrow> None
         | e # s' \<Rightarrow>
             (if e = CHR ''u'' then
                (case s' of
                   w # x # y # z # s'' \<Rightarrow>
                     (case hex4 w x y z of
                        None \<Rightarrow> None
                      | Some n \<Rightarrow>
                          (case escaped_rune n s'' of
                             (r, rest) \<Rightarrow> before (utf8_encode r) (json_unquote rest)))
                 | _ \<Rightarrow> None)
              else (case simple_escape e of
                      None \<Rightarrow> None
                    | Some x \<Rightarrow> before [x] (json_unquote s'))))
      else if char_code c < 32 then None
      else if char_code c < 128 then before [c] (json_unquote s)
      else (let n = utf8_size (c # s) in
        if n = 0 then before (utf8_encode rune_error) (json_unquote s)
        else before (take n (c # s)) (json_unquote (drop (n - 1) s))))"
  by pat_completeness auto
termination
  by (relation "measure length") (auto dest: escaped_rune_rest [OF sym])

lemma before_before [simp]: "before p (before q r) = before (p @ q) r"
  by (cases r) (auto simp: before_def)

lemma before_Some [simp]: "before p (Some (t, r)) = Some (p @ t, r)"
  by (simp add: before_def)

lemma unhex_hex_digit: "d < 16 \<Longrightarrow> unhex (hex_digit d) = Some d"
  unfolding unhex_def hex_digit_def char_code_def Let_def by (cases "d < 10") (auto simp: digit_char_def)

lemma char_of_code [simp]: "char_of (char_code c) = c"
  by (simp add: char_code_def)

lemma named_escapes:
  "escape_ascii CHR 0x22 = [CHR 0x5C, CHR 0x22]" "simple_escape (CHR 0x22) = Some CHR 0x22"
  "escape_ascii CHR 0x5C = [CHR 0x5C, CHR 0x5C]" "simple_escape (CHR 0x5C) = Some CHR 0x5C"
  "escape_ascii CHR 0x08 = [CHR 0x5C, CHR ''b'']" "simple_escape (CHR ''b'') = Some CHR 0x08"
  "escape_ascii CHR 0x09 = [CHR 0x5C, CHR ''t'']" "simple_escape (CHR ''t'') = Some CHR 0x09"
  "escape_ascii CHR 0x0A = [CHR 0x5C, CHR ''n'']" "simple_escape (CHR ''n'') = Some CHR 0x0A"
  "escape_ascii CHR 0x0C = [CHR 0x5C, CHR ''f'']" "simple_escape (CHR ''f'') = Some CHR 0x0C"
  "escape_ascii CHR 0x0D = [CHR 0x5C, CHR ''r'']" "simple_escape (CHR ''r'') = Some CHR 0x0D"
  by code_simp+

lemma char_of_control:
  "char_of (34 :: nat) = CHR 0x22" "char_of (92 :: nat) = CHR 0x5C"
  "char_of (8 :: nat) = CHR 0x08" "char_of (9 :: nat) = CHR 0x09" "char_of (10 :: nat) = CHR 0x0A"
  "char_of (12 :: nat) = CHR 0x0C" "char_of (13 :: nat) = CHR 0x0D"
  by code_simp+

lemma before_Nil [simp]: "before [] r = r"
  by (cases r) (auto simp: before_def)

text \<open>Each case of the encoder is undone by the reader.\<close>

lemma unquote_hex:
  "json_unquote (CHR 0x5C # CHR ''u'' # w # x # y # z # t) =
     (case hex4 w x y z of
        None \<Rightarrow> None
      | Some n \<Rightarrow> (case escaped_rune n t of
          (r, rest) \<Rightarrow> before (utf8_encode r) (json_unquote rest)))"
  by (simp add: char_code_def)

lemma unquote_simple:
  "simple_escape e = Some x \<Longrightarrow> e \<noteq> CHR ''u'' \<Longrightarrow>
   json_unquote (CHR 0x5C # e # t) = before [x] (json_unquote t)"
  by (simp add: char_code_def)

lemma unquote_plain:
  "32 \<le> char_code c \<Longrightarrow> char_code c < 128 \<Longrightarrow> char_code c \<noteq> 34 \<Longrightarrow> char_code c \<noteq> 92 \<Longrightarrow>
   json_unquote (c # t) = before [c] (json_unquote t)"
  by simp

lemma unquote_escape_ascii:
  assumes "char_code c < 128"
  shows "json_unquote (escape_ascii c @ t) = before [c] (json_unquote t)"
proof -
  let ?n = "char_code c"
  consider (safe) "html_safe c" | (named) "?n \<in> {34, 92, 8, 9, 10, 12, 13}"
    | (hex) "\<not> html_safe c" "?n \<notin> {34, 92, 8, 9, 10, 12, 13}" by blast
  then show ?thesis
  proof cases
    case safe
    then show ?thesis using assms
      by (simp add: escape_ascii_def html_safe_def unquote_plain del: json_unquote.simps)
  next
    case named
    then have "c \<in> char_of ` {34 :: nat, 92, 8, 9, 10, 12, 13}" by (metis char_of_code image_eqI)
    then have "c \<in> {CHR 0x22, CHR 0x5C, CHR 0x08, CHR 0x09, CHR 0x0A, CHR 0x0C, CHR 0x0D}"
      by (simp only: char_of_control image_insert image_empty)
    then have "\<exists>e. escape_ascii c = [CHR 0x5C, e] \<and> simple_escape e = Some c \<and> e \<noteq> CHR ''u''"
      by (elim insertE emptyE) (simp_all add: named_escapes)
    then show ?thesis by (auto simp: unquote_simple simp del: json_unquote.simps)
  next
    case hex
    have "unhex CHR ''0'' = Some 0" by (simp add: unhex_def char_code_def)
    moreover have "unhex (hex_digit (?n div 16)) = Some (?n div 16)"
      "unhex (hex_digit (?n mod 16)) = Some (?n mod 16)"
      using assms by (simp_all add: unhex_hex_digit)
    ultimately have "hex4 CHR ''0'' CHR ''0'' (hex_digit (?n div 16)) (hex_digit (?n mod 16)) = Some ?n"
      by (simp add: hex4_def)
    moreover have "utf8_encode ?n = [c]" using assms by (simp add: utf8_encode_def)
    moreover have "escaped_rune ?n t = (?n, t)" using assms by (simp add: escaped_rune_def surrogate_def)
    moreover have "escape_ascii c = CHR 0x5C # CHR ''u'' # CHR ''0'' # CHR ''0'' #
        hex_digit (?n div 16) # hex_digit (?n mod 16) # []"
      using hex by (simp add: escape_ascii_def Let_def)
    ultimately show ?thesis by (simp add: unquote_hex del: json_unquote.simps)
  qed
qed

lemma all_ranges_bytes:
  assumes "all_ranges rs s = Suc k" and "\<forall>(lo, hi) \<in> set rs. 128 \<le> lo"
  shows "k \<le> length s \<and> (\<forall>x \<in> set (take k s). 128 \<le> char_code x)"
proof -
  have k: "k = length rs" "k \<le> length s" and l: "list_all2 (\<lambda>(lo, hi). in_range lo hi) rs (take k s)"
    using assms(1) by (auto simp: all_ranges_def split: if_splits)
  have "128 \<le> char_code (take k s ! i)" if "i < k" for i
    using list_all2_nthD [OF l, of i] that k assms(2) nth_mem [of i rs]
    by (fastforce simp: in_range_def split: prod.splits)
  with k show ?thesis by (auto simp: in_set_conv_nth)
qed

lemma utf8_size_bytes:
  assumes "128 \<le> char_code c" and "utf8_size (c # s) = n" and "n \<noteq> 0"
  shows "n \<le> length (c # s) \<and> (\<forall>x \<in> set (take n (c # s)). 128 \<le> char_code x)"
proof -
  obtain k where k: "n = Suc k" using assms(3) by (cases n) auto
  obtain rs where "all_ranges rs s = Suc k" "\<forall>(lo, hi) \<in> set rs. 128 \<le> lo"
    using assms k by (auto simp: Let_def split: if_splits)
  from all_ranges_bytes [OF this] assms(1) k show ?thesis by simp
qed

lemma all_ranges_take:
  assumes "all_ranges rs s = Suc k"
  shows "all_ranges rs (take k s @ t) = Suc k"
  using assms by (auto simp: all_ranges_def split: if_splits)

lemma utf8_size_take:
  assumes "128 \<le> char_code c" and "utf8_size (c # s) = Suc k"
  shows "utf8_size (c # take k s @ t) = Suc k"
  using assms by (auto simp: Let_def all_ranges_take split: if_splits)

lemma unquote_rune:
  assumes "128 \<le> char_code c" and "utf8_size (c # s) = n" and "n \<noteq> 0"
  shows "json_unquote (take n (c # s) @ t) = before (take n (c # s)) (json_unquote t)"
proof -
  obtain k where k: "n = Suc k" using assms(3) by (cases n) auto
  have "length (take k s) = k" using utf8_size_bytes [OF assms] k by simp
  then show ?thesis
    using utf8_size_take [of c s k t] assms(1,2) k by (simp add: Let_def del: utf8_size.simps)
qed

lemma unquote_separator:
  "json_unquote (CHR 0x5C # ''u2028'' @ t) = before (line_separator 0) (json_unquote t)"
  "json_unquote (CHR 0x5C # ''u2029'' @ t) = before (line_separator 1) (json_unquote t)"
  by (simp_all add: hex4_def unhex_def char_code_def utf8_encode_def line_separator_def
      escaped_rune_def surrogate_def)

lemma json_unquote_escape:
  "utf8_valid s \<Longrightarrow> json_unquote (json_escape s @ CHR 0x22 # rest) = Some (s, rest)"
proof (induction s rule: json_escape.induct)
  case 1
  then show ?case by (simp add: char_code_def)
next
  case (2 c s)
  show ?case
  proof (cases "char_code c < 128")
    case True
    then have "utf8_size (c # s) = 1" by simp
    with 2 True show ?thesis by (simp add: unquote_escape_ascii del: utf8_size.simps)
  next
    case False
    let ?n = "utf8_size (c # s)" and ?r = "take (utf8_size (c # s)) (c # s)"
    have v: "?n \<noteq> 0" "utf8_valid (drop (?n - 1) s)" using "2.prems" by (simp_all del: utf8_size.simps)
    have split: "?r @ drop (?n - 1) s = c # s"
      using v(1) by (cases ?n) (simp_all del: utf8_size.simps)
    consider (ls) "?r = line_separator 0" | (ps) "?r = line_separator 1"
      | (other) "?r \<noteq> line_separator 0" "?r \<noteq> line_separator 1" by blast
    then show ?thesis
    proof cases
      case ls
      then have "json_unquote (json_escape (drop (?n - 1) s) @ CHR 0x22 # rest) = Some (drop (?n - 1) s, rest)"
        using "2.IH" False v by (simp del: utf8_size.simps)
      then show ?thesis using ls False v(1) split unquote_separator(1)
        by (simp add: Let_def del: utf8_size.simps)
    next
      case ps
      then have ne: "?r \<noteq> line_separator 0" by (simp add: line_separator_def del: utf8_size.simps)
      with ps have "json_unquote (json_escape (drop (?n - 1) s) @ CHR 0x22 # rest) = Some (drop (?n - 1) s, rest)"
        using "2.IH" False v by (simp del: utf8_size.simps)
      then show ?thesis using ps ne False v(1) split unquote_separator(2)
        by (simp add: Let_def del: utf8_size.simps)
    next
      case other
      then have "json_unquote (json_escape (drop (?n - 1) s) @ CHR 0x22 # rest) = Some (drop (?n - 1) s, rest)"
        using "2.IH" False v by (simp del: utf8_size.simps)
      then have "json_unquote (?r @ json_escape (drop (?n - 1) s) @ CHR 0x22 # rest) =
          Some (?r @ drop (?n - 1) s, rest)"
        using unquote_rune [of c s ?n, OF _ refl v(1)] False by (simp del: utf8_size.simps)
      then show ?thesis using other False v(1) split by (simp add: Let_def del: utf8_size.simps)
    qed
  qed
qed

end
