(* ===== verification/JsonText.thy ===== *)
theory JsonText
  imports GoJson Complex_Main
begin

text \<open>
  JSON documents as \<^verbatim>\<open>encoding/json\<close> reads and writes them: the grammar with its limit of nested
  values as a parser with fuel (which is shown to be enough), the compact writer, and the round
  trip. Strings are those of \<^theory_text>\<open>GoJson\<close>.
\<close>

section \<open>Grammar\<close>

text \<open>A document as it is written: numbers are exact, members are in order and may repeat.\<close>

datatype json_text =
    TNull
  | TBool bool
  | TNum rat
  | TStr string
  | TArr "json_text list"
  | TObj "(string \<times> json_text) list"

definition json_space :: "char \<Rightarrow> bool" where
  "json_space c \<longleftrightarrow> char_code c \<in> {9, 10, 13, 32}"

definition skip_space :: "string \<Rightarrow> string" where
  "skip_space = dropWhile json_space"

definition json_digit :: "char \<Rightarrow> bool" where
  "json_digit c \<longleftrightarrow> digit_val c \<noteq> None"

definition digits_val :: "string \<Rightarrow> nat" where
  "digits_val ds = foldl (\<lambda>x c. 10 * x + the (digit_val c)) 0 ds"

text \<open>The integer part: no leading zero. Fraction and exponent: a digit at least.\<close>

definition read_int :: "string \<Rightarrow> (nat \<times> string) option" where
  "read_int s =
     (case s of
        [] \<Rightarrow> None
      | c # r \<Rightarrow>
          (if c = CHR ''0'' then Some (0, r)
           else if json_digit c then Some (digits_val (takeWhile json_digit s), dropWhile json_digit s)
           else None))"

definition read_fraction :: "string \<Rightarrow> (rat \<times> string) option" where
  "read_fraction s =
     (case s of
        [] \<Rightarrow> Some (0, s)
      | c # r \<Rightarrow>
          (if c \<noteq> CHR ''.'' then Some (0, s)
           else (let ds = takeWhile json_digit r
                 in if ds = [] then None
                    else Some (of_nat (digits_val ds) / 10 ^ length ds, dropWhile json_digit r))))"

definition read_exponent :: "string \<Rightarrow> (int \<times> string) option" where
  "read_exponent s =
     (case s of
        [] \<Rightarrow> Some (0, s)
      | c # r \<Rightarrow>
          (if c \<noteq> CHR ''e'' \<and> c \<noteq> CHR ''E'' then Some (0, s)
           else (let neg = (r \<noteq> [] \<and> hd r = CHR ''-'');
                     r = (if r \<noteq> [] \<and> (hd r = CHR ''-'' \<or> hd r = CHR ''+'') then tl r else r);
                     ds = takeWhile json_digit r
                 in if ds = [] then None
                    else Some ((if neg then - 1 else 1) * int (digits_val ds), dropWhile json_digit r))))"

definition read_number :: "string \<Rightarrow> (rat \<times> string) option" where
  "read_number s =
     (let neg = (s \<noteq> [] \<and> hd s = CHR ''-''); s = (if neg then tl s else s)
      in do {
        (n, s) \<leftarrow> read_int s; (f, s) \<leftarrow> read_fraction s; (e, s) \<leftarrow> read_exponent s;
        Some ((if neg then - 1 else 1) * (of_nat n + f) * 10 powi e, s) })"

definition read_word :: "string \<Rightarrow> json_text \<Rightarrow> string \<Rightarrow> (json_text \<times> string) option" where
  "read_word w v s =
     (if take (length w) s = w then Some (v, drop (length w) s) else None)"

text \<open>The text behind the next character, when that is the one expected.\<close>

definition token :: "char \<Rightarrow> string \<Rightarrow> string option" where
  "token c s = (case skip_space s of [] \<Rightarrow> None | b # r \<Rightarrow> if b = c then Some r else None)"

definition quote_char :: char where
  "quote_char = CHR 0x22"

definition read_string :: "string \<Rightarrow> (string \<times> string) option" where
  "read_string s = Option.bind (token quote_char s) json_unquote"

definition read_scalar :: "string \<Rightarrow> (json_text \<times> string) option" where
  "read_scalar s =
     (case skip_space s of
        [] \<Rightarrow> None
      | c # r \<Rightarrow>
          (if c = quote_char then map_option (map_prod TStr id) (json_unquote r)
           else if c = CHR ''t'' then read_word ''rue'' (TBool True) r
           else if c = CHR ''f'' then read_word ''alse'' (TBool False) r
           else if c = CHR ''n'' then read_word ''ull'' TNull r
           else map_option (map_prod TNum id) (read_number (c # r))))"

text \<open>
  A value, the members of an object and the elements of an array behind their opening bracket.
  The first argument is fuel, the second how many brackets may still be opened.
\<close>

fun read_value :: "nat \<Rightarrow> nat \<Rightarrow> string \<Rightarrow> (json_text \<times> string) option"
  and read_members :: "nat \<Rightarrow> nat \<Rightarrow> string \<Rightarrow> ((string \<times> json_text) list \<times> string) option"
  and read_elements :: "nat \<Rightarrow> nat \<Rightarrow> string \<Rightarrow> (json_text list \<times> string) option" where
  "read_value 0 d s = None"
| "read_value (Suc n) d s =
     (case token CHR ''{'' s of
        Some r \<Rightarrow>
          (if d = 0 then None
           else (case token CHR ''}'' r of
                   Some r' \<Rightarrow> Some (TObj [], r')
                 | None \<Rightarrow> map_option (map_prod TObj id) (read_members n (d - 1) r)))
      | None \<Rightarrow>
          (case token CHR ''['' s of
             Some r \<Rightarrow>
               (if d = 0 then None
                else (case token CHR '']'' r of
                        Some r' \<Rightarrow> Some (TArr [], r')
                      | None \<Rightarrow> map_option (map_prod TArr id) (read_elements n (d - 1) r)))
           | None \<Rightarrow> read_scalar s))"
| "read_members 0 d s = None"
| "read_members (Suc n) d s =
     do {
       (k, r) \<leftarrow> read_string s; r \<leftarrow> token CHR '':'' r; (v, r) \<leftarrow> read_value n d r;
       (case token CHR '','' r of
          Some r \<Rightarrow> map_option (map_prod ((#) (k, v)) id) (read_members n d r)
        | None \<Rightarrow> map_option (Pair [(k, v)]) (token CHR ''}'' r)) }"
| "read_elements 0 d s = None"
| "read_elements (Suc n) d s =
     do {
       (v, r) \<leftarrow> read_value n d s;
       (case token CHR '','' r of
          Some r \<Rightarrow> map_option (map_prod ((#) v) id) (read_elements n d r)
        | None \<Rightarrow> map_option (Pair [v]) (token CHR '']'' r)) }"

definition max_nesting :: nat where
  "max_nesting = 10000"

definition read_document :: "string \<Rightarrow> json_text option" where
  "read_document s =
     (case read_value (2 * length s) max_nesting s of
        None \<Rightarrow> None
      | Some (v, r) \<Rightarrow> if skip_space r = [] then Some v else None)"

section \<open>The fuel of the parser\<close>

lemma skip_space_rest: "length (skip_space s) \<le> length s"
  by (simp add: skip_space_def length_dropWhile_le)

lemma token_rest: "token c s = Some r \<Longrightarrow> length r < length s"
  using skip_space_rest [of s] by (auto simp: token_def split: list.splits if_splits)

lemma before_SomeD: "before p x = Some (t, r) \<Longrightarrow> \<exists>t'. x = Some (t', r)"
  by (auto simp: before_def)

lemma json_unquote_rest: "json_unquote s = Some (t, r) \<Longrightarrow> length r < length s"
proof (induction s arbitrary: t rule: json_unquote.induct)
  case (2 c s)
  let ?n = "utf8_size (c # s)"
  consider (quote) "char_code c = 34" | (escape) "char_code c = 92"
    | (low) "32 \<le> char_code c" "char_code c < 128" "char_code c \<noteq> 34" "char_code c \<noteq> 92"
    | (bad) "128 \<le> char_code c" "?n = 0" | (rune) "128 \<le> char_code c" "?n \<noteq> 0"
    | (control) "char_code c < 32" by linarith
  then show ?case
  proof cases
    case escape
    obtain e s' where s: "s = e # s'" using escape "2.prems" by (cases s) simp_all
    show ?thesis
    proof (cases "e = CHR ''u''")
      case True
      obtain w x y z s'' n where h: "s' = w # x # y # z # s''" "hex4 w x y z = Some n"
        using escape True "2.prems"
        by (simp add: s del: utf8_size.simps split: list.splits option.splits)
      obtain u rest where e: "escaped_rune n s'' = (u, rest)" by fastforce
      obtain t' where "json_unquote rest = Some (t', r)"
        using "2.prems" escape True h e by (auto simp: s dest: before_SomeD simp del: utf8_size.simps)
      then have "length r < length rest"
        using "2.IH"(1) escape s True h e by simp
      also have "\<dots> \<le> length s''" by (rule escaped_rune_rest [OF e])
      finally show ?thesis by (simp add: s h)
    next
      case False
      obtain x t' where "simple_escape e = Some x" "json_unquote s' = Some (t', r)"
        using "2.prems" escape False
        by (auto simp: s dest: before_SomeD simp del: utf8_size.simps split: option.splits)
      then have "length r < length s'" using "2.IH"(2) escape s False by simp
      then show ?thesis by (simp add: s)
    qed
  next
    case low
    obtain t' where "json_unquote s = Some (t', r)"
      using "2.prems" low by (auto dest: before_SomeD simp del: utf8_size.simps)
    then show ?thesis using "2.IH"(3) low by fastforce
  next
    case bad
    obtain t' where "json_unquote s = Some (t', r)"
      using "2.prems" bad by (auto simp: Let_def dest: before_SomeD simp del: utf8_size.simps)
    then show ?thesis using "2.IH"(4) bad by fastforce
  next
    case rune
    obtain t' where "json_unquote (drop (?n - 1) s) = Some (t', r)"
      using "2.prems" rune by (auto simp: Let_def dest: before_SomeD simp del: utf8_size.simps)
    then have "length r < length (drop (?n - 1) s)" using "2.IH"(5) rune by fastforce
    then show ?thesis by simp
  qed (use "2.prems" in \<open>simp_all del: utf8_size.simps\<close>)
qed simp

lemma read_int_rest: "read_int s = Some (n, r) \<Longrightarrow> length r < length s"
  by (auto simp: read_int_def less_Suc_eq_le length_dropWhile_le split: list.splits if_splits)

lemma read_fraction_rest: "read_fraction s = Some (x, r) \<Longrightarrow> length r \<le> length s"
  by (auto simp: read_fraction_def Let_def le_SucI length_dropWhile_le split: list.splits if_splits)

lemma read_exponent_rest:
  assumes "read_exponent s = Some (x, r)"
  shows "length r \<le> length s"
proof -
  have tl: "length (dropWhile json_digit (tl q)) \<le> length q" for q :: string
    using length_dropWhile_le [of json_digit "tl q"] by simp
  show ?thesis using assms tl
    by (auto simp: read_exponent_def Let_def le_SucI length_dropWhile_le split: list.splits if_splits)
qed

lemma read_number_rest:
  assumes "read_number s = Some (x, r)"
  shows "length r < length s"
proof -
  define q where "q = (if s \<noteq> [] \<and> hd s = CHR ''-'' then tl s else s)"
  obtain n s1 f s2 e where "read_int q = Some (n, s1)" "read_fraction s1 = Some (f, s2)"
    "read_exponent s2 = Some (e, r)"
    using assms unfolding read_number_def Let_def q_def [symmetric] by (auto split: bind_splits)
  then have "length r < length q"
    using read_int_rest read_fraction_rest read_exponent_rest by fastforce
  also have "\<dots> \<le> length s" by (simp add: q_def)
  finally show ?thesis .
qed

lemma read_word_rest: "read_word w v s = Some (x, r) \<Longrightarrow> length r \<le> length s"
  by (auto simp: read_word_def split: if_splits)

lemma read_string_rest: "read_string s = Some (t, r) \<Longrightarrow> length r < length s"
  by (auto simp: read_string_def dest!: token_rest json_unquote_rest split: bind_splits)

lemma read_scalar_rest:
  assumes "read_scalar s = Some (v, r)"
  shows "length r < length s"
proof -
  obtain c q where q: "skip_space s = c # q" using assms by (cases "skip_space s") (simp_all add: read_scalar_def)
  have "length r < length (c # q)"
    using assms q json_unquote_rest [of q _ r] read_word_rest [of _ _ q v r] read_number_rest [of "c # q" _ r]
    by (fastforce simp: read_scalar_def less_Suc_eq_le split: if_splits)
  with skip_space_rest [of s] q show ?thesis by simp
qed

lemma read_rest:
  "read_value n d s = Some (v, r) \<Longrightarrow> length r < length s"
  "read_members n d s = Some (ms, r) \<Longrightarrow> length r < length s"
  "read_elements n d s = Some (vs, r) \<Longrightarrow> length r < length s"
proof (induction n d s and n d s and n d s arbitrary: v r and ms r and vs r
    rule: read_value_read_members_read_elements.induct)
  case (2 n d s)
  consider (obj) q where "token CHR ''{'' s = Some q"
    | (arr) q where "token CHR ''{'' s = None" "token CHR ''['' s = Some q"
    | (scalar) "token CHR ''{'' s = None" "token CHR ''['' s = None"
    by (cases "token CHR ''{'' s"; cases "token CHR ''['' s") auto
  then show ?case
  proof cases
    case obj
    then have "token CHR ''}'' q = Some r \<or>
        d \<noteq> 0 \<and> token CHR ''}'' q = None \<and> (\<exists>ms. read_members n (d - 1) q = Some (ms, r))"
      using "2.prems" by (auto split: option.splits if_splits)
    then have "length r < length q" using token_rest "2.IH"(2) [OF obj] by blast
    then show ?thesis using token_rest [OF obj] by simp
  next
    case arr
    then have "token CHR '']'' q = Some r \<or>
        d \<noteq> 0 \<and> token CHR '']'' q = None \<and> (\<exists>vs. read_elements n (d - 1) q = Some (vs, r))"
      using "2.prems" by (auto split: option.splits if_splits)
    then have "length r < length q" using token_rest "2.IH"(1) [OF arr] by blast
    then show ?thesis using token_rest [OF arr(2)] by simp
  next
    case scalar
    then show ?thesis using "2.prems" read_scalar_rest by simp
  qed
next
  case (4 n d s)
  obtain k r1 r2 v r3 where 1: "read_string s = Some (k, r1)" "token CHR '':'' r1 = Some r2"
    "read_value n d r2 = Some (v, r3)" and
    2: "token CHR ''}'' r3 = Some r \<or>
      (\<exists>r4 ms. token CHR '','' r3 = Some r4 \<and> read_members n d r4 = Some (ms, r))"
    using "4.prems" by (auto split: bind_splits option.splits)
  note 3 = read_string_rest [OF 1(1)] token_rest [OF 1(2)] "4.IH"(1) [OF 1(1) refl 1(2,3)]
  from 2 have "length r < length r3"
    using token_rest "4.IH"(2) [OF 1(1) refl 1(2,3) refl] by (meson less_trans)
  with 3 show ?case by simp
next
  case (6 n d s)
  obtain v r1 where 1: "read_value n d s = Some (v, r1)" and
    2: "token CHR '']'' r1 = Some r \<or>
      (\<exists>r2 vs. token CHR '','' r1 = Some r2 \<and> read_elements n d r2 = Some (vs, r))"
    using "6.prems" by (auto split: bind_splits option.splits)
  from 2 have "length r < length r1"
    using token_rest "6.IH"(2) [OF 1 refl] by (meson less_trans)
  with "6.IH"(1) [OF 1] show ?case by simp
qed simp_all

text \<open>Every call is on a shorter text, or on the same one behind a bracket.\<close>

lemma read_fuel:
  "2 * length s \<le> n \<Longrightarrow> 2 * length s \<le> m \<Longrightarrow> read_value n d s = read_value m d s"
  "2 * length s \<le> n \<Longrightarrow> 2 * length s \<le> m \<Longrightarrow> read_members n d s = read_members m d s"
  "2 * length s < n \<Longrightarrow> 2 * length s < m \<Longrightarrow> read_elements n d s = read_elements m d s"
proof (induction n d s and n d s and n d s arbitrary: m and m and m
    rule: read_value_read_members_read_elements.induct)
  case (1 d s)
  then show ?case by (cases m) (simp_all add: token_def skip_space_def read_scalar_def)
next
  case (2 n d s)
  show ?case
  proof (cases m)
    case 0
    then show ?thesis using "2.prems" by (simp add: token_def skip_space_def read_scalar_def)
  next
    case (Suc k)
    have o: "read_members n (d - 1) q = read_members k (d - 1) q"
      if "token CHR ''{'' s = Some q" "d \<noteq> 0" "token CHR ''}'' q = None" for q
      using "2.IH"(2) [OF that] token_rest [OF that(1)] "2.prems" Suc by simp
    have a: "read_elements n (d - 1) q = read_elements k (d - 1) q"
      if "token CHR ''{'' s = None" "token CHR ''['' s = Some q" "d \<noteq> 0" "token CHR '']'' q = None" for q
      using "2.IH"(1) [OF that] token_rest [OF that(2)] "2.prems" Suc by simp
    show ?thesis using o a by (simp add: Suc split: option.split)
  qed
next
  case (3 d s)
  then show ?case by (cases m) (simp_all add: read_string_def token_def skip_space_def)
next
  case (4 n d s)
  show ?case
  proof (cases m)
    case 0
    then show ?thesis using "4.prems" by (simp add: read_string_def token_def skip_space_def)
  next
    case (Suc k)
    have "read_value n d r2 = read_value k d r2"
      if "read_string s = Some (x, r1)" "token CHR '':'' r1 = Some r2" for x r1 r2
      using "4.IH"(1) [OF that(1) refl that(2)] read_string_rest [OF that(1)] token_rest [OF that(2)]
        "4.prems" Suc by simp
    moreover have "read_members n d r4 = read_members k d r4"
      if "read_string s = Some (x, r1)" "token CHR '':'' r1 = Some r2" "read_value n d r2 = Some (v, r3)"
        "token CHR '','' r3 = Some r4" for x r1 r2 v r3 r4
      using "4.IH"(2) [OF that(1) refl that(2,3) refl that(4)] read_string_rest [OF that(1)]
        token_rest [OF that(2)] read_rest(1) [OF that(3)] token_rest [OF that(4)] "4.prems" Suc by simp
    ultimately show ?thesis by (simp add: Suc split: bind_split option.split)
  qed
next
  case (6 n d s)
  obtain k where m: "m = Suc k" using "6.prems" by (cases m) simp_all
  have "read_value n d s = read_value k d s" using "6.IH"(1) "6.prems" m by simp
  moreover have "read_elements n d r2 = read_elements k d r2"
    if "read_value n d s = Some (v, r1)" "token CHR '','' r1 = Some r2" for v r1 r2
    using "6.IH"(2) [OF that(1) refl that(2)] read_rest(1) [OF that(1)] token_rest [OF that(2)]
      "6.prems" m by simp
  ultimately show ?case by (simp add: m split: bind_split option.split)
qed simp_all

section \<open>The writer\<close>

text \<open>
  Decimals of at most 17 digits behind the point; integers have none. \<^verbatim>\<open>encoding/json\<close> writes
  them like this between \<open>10\<^sup>-\<^sup>6\<close> and \<open>10\<^sup>2\<^sup>1\<close>.
\<close>

fun fraction_digits :: "nat \<Rightarrow> rat \<Rightarrow> string" where
  "fraction_digits 0 f = []"
| "fraction_digits (Suc k) f =
     (if f = 0 then []
      else (let d = \<lfloor>10 * f\<rfloor> in digit_char (nat d) # fraction_digits k (10 * f - of_int d)))"

definition number_text :: "rat \<Rightarrow> string" where
  "number_text x =
     (let n = nat \<lfloor>\<bar>x\<bar>\<rfloor>; f = \<bar>x\<bar> - of_nat n
      in (if x < 0 then ''-'' else '''') @ nat_str n @
         (if f = 0 then '''' else CHR ''.'' # fraction_digits 17 f))"

fun json_write :: "json_text \<Rightarrow> string" where
  "json_write TNull = ''null''"
| "json_write (TBool b) = (if b then ''true'' else ''false'')"
| "json_write (TNum x) = number_text x"
| "json_write (TStr t) = json_quote t"
| "json_write (TArr vs) = ''['' @ join_char CHR '','' (map json_write vs) @ '']''"
| "json_write (TObj ms) =
     ''{'' @ join_char CHR '','' (map (\<lambda>(k, v). json_quote k @ CHR '':'' # json_write v) ms) @ ''}''"

text \<open>The documents that are read back, and how deep they are nested.\<close>

definition short_decimal :: "rat \<Rightarrow> bool" where
  "short_decimal x \<longleftrightarrow> x * 10 ^ 17 \<in> \<int>"

fun writable :: "json_text \<Rightarrow> bool" where
  "writable (TNum x) = short_decimal x"
| "writable (TStr t) = utf8_valid t"
| "writable (TArr vs) = (\<forall>v \<in> set vs. writable v)"
| "writable (TObj ms) = (\<forall>(k, v) \<in> set ms. utf8_valid k \<and> writable v)"
| "writable _ = True"

fun nesting :: "json_text \<Rightarrow> nat" where
  "nesting (TArr vs) = Suc (Max (insert 0 (nesting ` set vs)))"
| "nesting (TObj ms) = Suc (Max (insert 0 ((\<lambda>(k, v). nesting v) ` set ms)))"
| "nesting _ = 0"

section \<open>Numbers are read back\<close>

lemma json_digit_digit_char [simp]: "d < 10 \<Longrightarrow> json_digit (digit_char d)"
  by (simp add: json_digit_def)

lemma nat_str_json_digits: "c \<in> set (nat_str n) \<Longrightarrow> json_digit c"
  using nat_str_digits [of c n] by auto

lemma digits_val_snoc: "d < 10 \<Longrightarrow> digits_val (xs @ [digit_char d]) = 10 * digits_val xs + d"
  by (simp add: digits_val_def)

lemma digits_val_nat_str: "digits_val (nat_str n) = n"
proof (induction n rule: nat_str.induct)
  case (1 n)
  show ?case
  proof (cases "n < 10")
    case True
    then show ?thesis using digits_val_snoc [of n "[]"] by (simp add: nat_str.simps [of n] digits_val_def)
  next
    case False
    then show ?thesis using 1 by (simp add: nat_str.simps [of n] digits_val_snoc)
  qed
qed

lemma nat_str_no_zero: "0 < n \<Longrightarrow> hd (nat_str n) \<noteq> CHR ''0''"
proof (induction n rule: nat_str.induct)
  case (1 n)
  have "digit_char d \<noteq> CHR ''0''" if "0 < d" "d < 10" for d
    using digit_val_digit_char [OF that(2)] that(1) by (auto simp: digit_val_def)
  then show ?case using 1 by (cases "n < 10") (simp_all add: nat_str.simps [of n])
qed

text \<open>What may follow a number without becoming a part of it.\<close>

definition ends_number :: "string \<Rightarrow> bool" where
  "ends_number r \<longleftrightarrow> (case r of [] \<Rightarrow> True | c # _ \<Rightarrow> \<not> json_digit c \<and> c \<notin> set ''.eE'')"

lemma take_digits:
  assumes "\<forall>c \<in> set ds. json_digit c" and "r = [] \<or> \<not> json_digit (hd r)"
  shows "takeWhile json_digit (ds @ r) = ds" "dropWhile json_digit (ds @ r) = r"
  using assms by (cases r; simp add: takeWhile_append dropWhile_append)+

lemma read_int_nat_str:
  assumes "r = [] \<or> \<not> json_digit (hd r)"
  shows "read_int (nat_str n @ r) = Some (n, r)"
proof (cases "n = 0")
  case True
  have "nat_str 0 = [CHR ''0'']" by code_simp
  with True show ?thesis by (simp add: read_int_def)
next
  case False
  obtain c cs where s: "nat_str n = c # cs" by (cases "nat_str n") auto
  have "c \<noteq> CHR ''0''" "json_digit c" using nat_str_no_zero [of n] nat_str_json_digits [of c n] s False by auto
  moreover have "takeWhile json_digit (c # cs @ r) = c # cs" "dropWhile json_digit (c # cs @ r) = r"
    using take_digits [OF _ assms, of "nat_str n"] nat_str_json_digits [of _ n] by (auto simp: s)
  ultimately show ?thesis using digits_val_nat_str [of n] by (simp add: read_int_def s)
qed

lemma digits_val_foldl:
  "foldl (\<lambda>x c. 10 * x + the (digit_val c)) n ds = n * 10 ^ length ds + digits_val ds"
proof (induction ds rule: rev_induct)
  case (snoc d ds)
  then show ?case by (simp add: digits_val_def algebra_simps)
qed (simp add: digits_val_def)

lemma digits_val_Cons:
  "digits_val (c # ds) = the (digit_val c) * 10 ^ length ds + digits_val ds"
  using digits_val_foldl [of "the (digit_val c)" ds] by (simp add: digits_val_def)

lemma Ints_unit: "(f :: rat) \<in> \<int> \<Longrightarrow> 0 \<le> f \<Longrightarrow> f < 1 \<Longrightarrow> f = 0"
  by (auto elim!: Ints_cases)

lemma fraction_digits_val:
  assumes "0 \<le> f" "f < 1" "f * 10 ^ k \<in> \<int>"
  shows "(\<forall>c \<in> set (fraction_digits k f). json_digit c) \<and>
     of_nat (digits_val (fraction_digits k f)) / 10 ^ length (fraction_digits k f) = f"
  using assms
proof (induction k f rule: fraction_digits.induct)
  case (1 f)
  then show ?case using Ints_unit [of f] by (simp add: digits_val_def)
next
  case (2 k f)
  show ?case
  proof (cases "f = 0")
    case False
    define d where "d = nat \<lfloor>10 * f\<rfloor>"
    define g where "g = 10 * f - of_nat d"
    have d: "\<lfloor>10 * f\<rfloor> = int d" "d < 10" using "2.prems" by (auto simp: d_def floor_less_iff nat_less_iff)
    have g: "0 \<le> g" "g < 1" unfolding g_def using d(1) by linarith+
    have "g * 10 ^ k = f * 10 ^ Suc k - of_nat (d * 10 ^ k)" by (simp add: g_def algebra_simps)
    then have "g * 10 ^ k \<in> \<int>" using "2.prems" by (metis Ints_diff Ints_of_nat)
    then have IH: "\<forall>c \<in> set (fraction_digits k g). json_digit c"
      "of_nat (digits_val (fraction_digits k g)) / 10 ^ length (fraction_digits k g) = g"
      using "2.IH" [OF False refl] g d by (simp_all add: g_def)
    have ds: "fraction_digits (Suc k) f = digit_char d # fraction_digits k g"
      using False d by (simp add: g_def d_def [symmetric])
    have "of_nat (digits_val (fraction_digits (Suc k) f)) / 10 ^ length (fraction_digits (Suc k) f) =
        (of_nat d + g) / 10"
      unfolding ds digits_val_Cons using IH(2) d(2) by (simp add: field_simps)
    then show ?thesis using IH(1) d(2) unfolding ds by (simp add: g_def)
  qed (simp add: digits_val_def)
qed

lemma read_number_text:
  assumes "short_decimal x" and "ends_number r"
  shows "read_number (number_text x @ r) = Some (x, r)"
proof -
  define n where "n = nat \<lfloor>\<bar>x\<bar>\<rfloor>"
  define f where "f = \<bar>x\<bar> - of_nat n"
  have n: "of_nat n = of_int \<lfloor>\<bar>x\<bar>\<rfloor>" by (simp add: n_def)
  have f: "0 \<le> f" "f < 1" unfolding f_def n by linarith+
  have "\<bar>x\<bar> * 10 ^ 17 \<in> \<int>" using assms(1) by (cases "0 \<le> x") (auto simp: short_decimal_def)
  then have fi: "f * 10 ^ 17 \<in> \<int>"
    unfolding f_def left_diff_distrib by (intro Ints_diff) auto
  let ?ds = "fraction_digits 17 f"
  let ?frac = "if f = 0 then '''' else CHR ''.'' # ?ds"
  have r: "r = [] \<or> \<not> json_digit (hd r)" "r = [] \<or> hd r \<notin> set ''.eE''"
    using assms(2) by (cases r; simp add: ends_number_def)+
  have dot: "\<not> json_digit CHR ''.''" by code_simp
  have i: "read_int (nat_str n @ ?frac @ r) = Some (n, ?frac @ r)"
    using r dot by (intro read_int_nat_str) auto
  have fr: "read_fraction (?frac @ r) = Some (f, r)"
  proof (cases "f = 0")
    case True
    then show ?thesis using r by (cases r) (auto simp: read_fraction_def)
  next
    case False
    then have "?ds \<noteq> []" by (simp add: numeral_eq_Suc Let_def)
    then show ?thesis
      using False fraction_digits_val [OF f fi] take_digits [OF _ r(1), of ?ds]
      by (simp add: read_fraction_def)
  qed
  have e: "read_exponent r = Some (0, r)" using r by (cases r) (auto simp: read_exponent_def)
  have hd: "hd (nat_str n @ q) \<noteq> CHR ''-''" for q
    using nat_str_hd [of n] by (cases "nat_str n") auto
  have t: "number_text x @ r = (if x < 0 then ''-'' else '''') @ nat_str n @ ?frac @ r"
    by (simp add: number_text_def n_def f_def Let_def)
  have "(if x < 0 then - 1 else 1) * (of_nat n + f) = x" by (simp add: f_def)
  then show ?thesis unfolding t read_number_def Let_def
    using i fr e hd by (cases "x < 0") auto
qed

section \<open>Documents are read back\<close>

lemma token_here [simp]:
  "\<not> json_space b \<Longrightarrow> token c (b # r) = (if b = c then Some r else None)"
  by (simp add: token_def skip_space_def)

lemma json_space_simps [simp]:
  "\<not> json_space CHR ''{''" "\<not> json_space CHR ''}''" "\<not> json_space CHR ''[''" "\<not> json_space CHR '']''"
  "\<not> json_space CHR '',''" "\<not> json_space CHR '':''" "\<not> json_space CHR 0x22" "\<not> json_space CHR ''-''"
  "\<not> json_space CHR ''t''" "\<not> json_space CHR ''f''" "\<not> json_space CHR ''n''"
  by code_simp+

lemma json_digit_plain:
  assumes "json_digit c"
  shows "\<not> json_space c \<and> c \<notin> set ''{[tfn}],:'' \<and> c \<noteq> CHR 0x22"
proof -
  have "48 \<le> (of_char c :: nat)" "(of_char c :: nat) \<le> 57"
    using assms by (auto simp: json_digit_def digit_val_def Let_def split: if_splits)
  then have "(of_char c :: nat) \<in> set [48..<58]" unfolding set_upt atLeastLessThan_iff by linarith
  then have "char_of (of_char c :: nat) \<in> char_of ` set [48..<58]" by (rule imageI)
  then have "c \<in> set (map char_of [48..<58 :: nat])" by simp
  moreover have "list_all (\<lambda>c. \<not> json_space c \<and> c \<notin> set ''{[tfn}],:'' \<and> c \<noteq> CHR 0x22)
      (map char_of [48..<58 :: nat])" by code_simp
  ultimately show ?thesis unfolding list_all_iff by blast
qed

lemma read_string_quote:
  "utf8_valid t \<Longrightarrow> read_string (json_quote t @ r) = Some (t, r)"
  by (simp add: read_string_def quote_char_def json_quote_def json_unquote_escape del: json_unquote.simps)

lemma number_text_hd:
  obtains c cs where "number_text x = c # cs" "\<not> json_space c" "c \<notin> set ''{[tfn]''" "c \<noteq> CHR 0x22"
proof (cases "x < 0")
  case True
  then show ?thesis using that by (simp add: number_text_def Let_def)
next
  case False
  obtain c cs where s: "nat_str (nat \<lfloor>\<bar>x\<bar>\<rfloor>) = c # cs" by (cases "nat_str (nat \<lfloor>\<bar>x\<bar>\<rfloor>)") auto
  then have "json_digit c" using nat_str_json_digits [of c "nat \<lfloor>\<bar>x\<bar>\<rfloor>"] by simp
  from json_digit_plain [OF this] s False show ?thesis
    by (intro that [of c]) (simp_all add: number_text_def Let_def)
qed

text \<open>A value that is no object and no array.\<close>

fun scalar :: "json_text \<Rightarrow> bool" where
  "scalar (TArr vs) = False"
| "scalar (TObj ms) = False"
| "scalar _ = True"

lemma read_scalar_write:
  assumes "scalar v" "writable v" "ends_number r"
  shows "read_value (Suc n) d (json_write v @ r) = Some (v, r)"
proof (cases v)
  case (TNum x)
  obtain c cs where c: "number_text x = c # cs" "\<not> json_space c" "c \<notin> set ''{[tfn]''" "c \<noteq> CHR 0x22"
    by (rule number_text_hd)
  have "read_number (c # cs @ r) = Some (x, r)"
    using read_number_text [of x r] assms TNum c(1) by simp
  then show ?thesis using c
    by (simp add: TNum read_scalar_def skip_space_def quote_char_def)
next
  case (TStr t)
  have "read_string (json_quote t @ r) = Some (t, r)" using assms TStr by (simp add: read_string_quote)
  then show ?thesis
    by (auto simp: TStr read_scalar_def skip_space_def json_quote_def read_string_def quote_char_def
        simp del: json_unquote.simps)
qed (use assms in \<open>simp_all add: read_scalar_def skip_space_def read_word_def quote_char_def\<close>)

lemma ends_number_simps [simp]:
  "ends_number []" "ends_number (CHR '','' # r)" "ends_number (CHR ''}'' # r)" "ends_number (CHR '']'' # r)"
  by (simp_all add: ends_number_def json_digit_def digit_val_def)

definition reads_back :: "nat \<Rightarrow> json_text \<Rightarrow> bool" where
  "reads_back d v \<longleftrightarrow> (\<forall>n r. ends_number r \<longrightarrow> 2 * length (json_write v @ r) \<le> n \<longrightarrow>
     read_value n d (json_write v @ r) = Some (v, r))"

definition member_text :: "string \<times> json_text \<Rightarrow> string" where
  "member_text = (\<lambda>(k, v). json_quote k @ CHR '':'' # json_write v)"

lemma read_members_write:
  assumes "\<forall>(k, v) \<in> set ms. utf8_valid k \<and> reads_back d v" and "ms \<noteq> []"
    and "2 * length (join_char CHR '','' (map member_text ms) @ CHR ''}'' # r) \<le> n"
  shows "read_members n d (join_char CHR '','' (map member_text ms) @ CHR ''}'' # r) = Some (ms, r)"
  using assms
proof (induction ms arbitrary: n)
  case (Cons m ms)
  obtain k v where m: "m = (k, v)" by (cases m)
  define q where "q = (if ms = [] then CHR ''}'' # r
    else CHR '','' # join_char CHR '','' (map member_text ms) @ CHR ''}'' # r)"
  have t: "join_char CHR '','' (map member_text (m # ms)) @ CHR ''}'' # r =
      json_quote k @ CHR '':'' # json_write v @ q"
    by (cases ms) (simp_all add: q_def m member_text_def)
  obtain j where n: "n = Suc j" using Cons.prems(3) by (cases n) (simp_all add: t)
  have v: "read_value j d (json_write v @ q) = Some (v, q)"
    using Cons.prems(1,3) unfolding t by (auto simp: m reads_back_def n q_def)
  show ?case
  proof (cases "ms = []")
    case True
    then show ?thesis using Cons.prems(1) v unfolding t n
      by (simp add: read_string_quote q_def m)
  next
    case False
    have "read_members j d (join_char CHR '','' (map member_text ms) @ CHR ''}'' # r) = Some (ms, r)"
      using Cons.prems False unfolding t by (intro Cons.IH) (auto simp: n q_def)
    then show ?thesis using Cons.prems(1) v False unfolding t n
      by (simp add: read_string_quote q_def m)
  qed
qed simp

lemma read_elements_write:
  assumes "\<forall>v \<in> set vs. reads_back d v" and "vs \<noteq> []"
    and "2 * length (join_char CHR '','' (map json_write vs) @ CHR '']'' # r) < n"
  shows "read_elements n d (join_char CHR '','' (map json_write vs) @ CHR '']'' # r) = Some (vs, r)"
  using assms
proof (induction vs arbitrary: n)
  case (Cons v vs)
  define q where "q = (if vs = [] then CHR '']'' # r
    else CHR '','' # join_char CHR '','' (map json_write vs) @ CHR '']'' # r)"
  have t: "join_char CHR '','' (map json_write (v # vs)) @ CHR '']'' # r = json_write v @ q"
    by (cases vs) (simp_all add: q_def)
  obtain j where n: "n = Suc j" using Cons.prems(3) by (cases n) simp_all
  have v: "read_value j d (json_write v @ q) = Some (v, q)"
    using Cons.prems(1,3) unfolding t by (auto simp: reads_back_def n q_def)
  show ?case
  proof (cases "vs = []")
    case True
    then show ?thesis using v unfolding t n by (simp add: q_def)
  next
    case False
    have "read_elements j d (join_char CHR '','' (map json_write vs) @ CHR '']'' # r) = Some (vs, r)"
      using Cons.prems False unfolding t by (intro Cons.IH) (auto simp: n q_def)
    then show ?thesis using v False unfolding t n by (simp add: q_def)
  qed
qed simp

lemma first_member: "ms \<noteq> [] \<Longrightarrow> \<exists>s. join_char CHR '','' (map member_text ms) = CHR 0x22 # s"
  by (cases ms; cases "tl ms") (auto simp: member_text_def json_quote_def)

lemma json_write_hd: "\<exists>c s. json_write v = c # s \<and> \<not> json_space c \<and> c \<noteq> CHR '']''"
proof (cases v)
  case (TNum x)
  obtain c cs where "number_text x = c # cs" "\<not> json_space c" "c \<notin> set ''{[tfn]''" "c \<noteq> CHR 0x22"
    by (rule number_text_hd)
  then show ?thesis by (simp add: TNum)
qed (simp_all add: json_quote_def)

lemma scalar_reads_back:
  assumes "scalar v" "writable v"
  shows "reads_back d v"
  unfolding reads_back_def
proof (intro allI impI)
  fix n r
  assume r: "ends_number r" and n: "2 * length (json_write v @ r) \<le> n"
  obtain c s where "json_write v = c # s" using json_write_hd by blast
  with n obtain k where "n = Suc k" by (cases n) simp_all
  then show "read_value n d (json_write v @ r) = Some (v, r)" using read_scalar_write [OF assms r] by simp
qed

lemma nesting_Max: "finite A \<Longrightarrow> x \<in> A \<Longrightarrow> Max (insert 0 A) \<le> d \<Longrightarrow> (x :: nat) \<le> d"
  by simp

lemma array_reads_back:
  assumes "\<forall>v \<in> set vs. reads_back d v"
  shows "reads_back (Suc d) (TArr vs)"
  unfolding reads_back_def
proof (intro allI impI)
  fix n r
  assume n: "2 * length (json_write (TArr vs) @ r) \<le> n"
  then obtain k where k: "n = Suc k" by (cases n) simp_all
  let ?t = "join_char CHR '','' (map json_write vs) @ CHR '']'' # r"
  show "read_value n (Suc d) (json_write (TArr vs) @ r) = Some (TArr vs, r)"
  proof (cases vs)
    case (Cons v ws)
    obtain c s where "json_write v = c # s" "\<not> json_space c" "c \<noteq> CHR '']''"
      using json_write_hd by blast
    then have "token CHR '']'' ?t = None" by (cases ws) (simp_all add: Cons)
    moreover have "read_elements k d ?t = Some (vs, r)"
      using n by (intro read_elements_write assms) (simp_all add: k Cons)
    ultimately show ?thesis by (simp add: k)
  qed (simp add: k)
qed

lemma object_reads_back:
  assumes "\<forall>(k, v) \<in> set ms. utf8_valid k \<and> reads_back d v"
  shows "reads_back (Suc d) (TObj ms)"
  unfolding reads_back_def
proof (intro allI impI)
  fix n r
  assume n: "2 * length (json_write (TObj ms) @ r) \<le> n"
  then obtain k where k: "n = Suc k" by (cases n) simp_all
  let ?t = "join_char CHR '','' (map member_text ms) @ CHR ''}'' # r"
  have w: "json_write (TObj ms) @ r = CHR ''{'' # ?t" by (simp add: member_text_def)
  show "read_value n (Suc d) (json_write (TObj ms) @ r) = Some (TObj ms, r)"
  proof (cases "ms = []")
    case False
    obtain s where "?t = CHR 0x22 # s" using first_member [OF False] by auto
    then have "token CHR ''}'' ?t = None" by simp
    moreover have "read_members k d ?t = Some (ms, r)"
      using n False unfolding w by (intro read_members_write assms) (simp_all add: k)
    ultimately show ?thesis unfolding w k by simp
  qed (simp add: k)
qed

lemma writable_reads_back: "writable v \<Longrightarrow> nesting v \<le> d \<Longrightarrow> reads_back d v"
proof (induction v arbitrary: d)
  case (TArr vs)
  obtain e where d: "d = Suc e" "Max (insert 0 (nesting ` set vs)) \<le> e"
    using TArr.prems(2) by (cases d) simp_all
  have "\<forall>v \<in> set vs. reads_back e v"
    using TArr.IH TArr.prems(1) nesting_Max [OF _ _ d(2)] by auto
  then show ?case unfolding d(1) by (rule array_reads_back)
next
  case (TObj ms)
  obtain e where d: "d = Suc e" "Max (insert 0 ((\<lambda>(k, v). nesting v) ` set ms)) \<le> e"
    using TObj.prems(2) by (cases d) simp_all
  have "utf8_valid k \<and> reads_back e v" if "(k, v) \<in> set ms" for k v
  proof -
    have "nesting v \<le> e" using that by (intro nesting_Max [OF _ _ d(2)]) force+
    then show ?thesis using TObj.IH [OF that] TObj.prems(1) that by auto
  qed
  then show ?case unfolding d(1) by (intro object_reads_back) blast
qed (auto intro: scalar_reads_back)

text \<open>What is written, also with the newline of an encoder, is read back.\<close>

lemma read_document_write:
  assumes "writable v" "nesting v \<le> max_nesting" "\<forall>c \<in> set r. json_space c"
  shows "read_document (json_write v @ r) = Some v"
proof -
  have "ends_number r"
  proof (cases r)
    case (Cons c s)
    then have c: "json_space c" using assms(3) by simp
    have "c \<notin> set ''.eE''" using c by (auto simp: json_space_def char_code_def)
    then show ?thesis using json_digit_plain [of c] c Cons by (auto simp: ends_number_def)
  qed simp
  then have "read_value (2 * length (json_write v @ r)) max_nesting (json_write v @ r) = Some (v, r)"
    using writable_reads_back [OF assms(1,2)] unfolding reads_back_def by blast
  moreover have "skip_space r = []" using assms(3) by (simp add: skip_space_def)
  ultimately show ?thesis unfolding read_document_def by simp
qed

end
