(* ===== verification/StoreHttp.thy ===== *)
theory StoreHttp
  imports JsonText Http Store
begin

text \<open>
  \<^verbatim>\<open>devstore.StoreHTTPHandler\<close>, the HTTP interface of a device store, with the routes that
  \<^verbatim>\<open>registerHTTPRoutes\<close> of \<^verbatim>\<open>projects/main/main.go\<close> gives its handlers. Over every store that
  keeps the contract of a store, a sequence of requests is a sequence of store operations, and
  the list that a request answers is read back as the descriptions of the store.
\<close>

section \<open>The list of devices\<close>

text \<open>\<^verbatim>\<open>json.Marshal\<close> of the descriptions; a nil slice is \<^verbatim>\<open>null\<close>.\<close>

definition json_field :: "string \<Rightarrow> string \<Rightarrow> string" where
  "json_field k v = json_quote k @ '':'' @ json_quote v"

definition json_item :: "store_item \<Rightarrow> string" where
  "json_item i =
     ''{'' @ json_field ''uri'' (si_URI i) @ '','' @ json_field ''type'' (si_Type i) @ '','' @
     json_field ''desc'' (si_Desc i) @ '','' @ json_field ''id'' (si_ID i) @ '','' @
     json_field ''created_at'' (si_CreatedAt i) @ ''}''"

definition json_items :: "store_item list \<Rightarrow> string" where
  "json_items items =
     (if items = [] then ''null'' else ''['' @ join_char CHR '','' (map json_item items) @ '']'')"

section \<open>The handlers\<close>

definition handle_add :: "'s store \<Rightarrow> 's http_handler" where
  "handle_add st r =
     (if req_method r \<noteq> ''GET'' then respond (http_error (Raw ''error: unsupported method'') 405)
      else let uri = query_get (req_query r) ''uri''
      in if uri = '''' then respond (http_error (Raw ''error: missed `uri` query parameter'') 400)
      else let desc = query_get (req_query r) ''desc''
      in if desc = '''' then respond (http_error (Raw ''error: missed `desc` query parameter'') 400)
      else let typ = query_get (req_query r) ''type''
      in if typ = '''' then respond (http_error (Raw ''error: missed `type` query parameter'') 400)
      else and_then (lift_snd (store_Add st uri typ desc)) (\<lambda>e. case e of
             Some e \<Rightarrow> respond (http_error
               (WithErr (''error: failed to add device with uri='' @ uri @ '': '') e) 400)
           | None \<Rightarrow> respond (write_text ''OK'')))"

definition handle_remove :: "'s store \<Rightarrow> 's http_handler" where
  "handle_remove st r =
     (if req_method r \<noteq> ''GET'' then respond (http_error (Raw ''error: unsupported method'') 405)
      else let uri = query_get (req_query r) ''uri''
      in if uri = '''' then respond (http_error (Raw ''error: missed `uri` query parameter'') 400)
      else and_then (lift_snd (store_Remove st uri)) (\<lambda>e. case e of
             Some e \<Rightarrow> respond (http_error
               (WithErr (''error: failed to remove device with uri='' @ uri @ '': '') e) 400)
           | None \<Rightarrow> respond (write_text ''OK'')))"

definition handle_list :: "'s store \<Rightarrow> 's http_handler" where
  "handle_list st r =
     (if req_method r \<noteq> ''GET'' then respond (http_error (Raw ''error: unsupported method'') 405)
      else and_then (lift_snd (store_GetDesc st)) (\<lambda>items. respond (write_json (json_items items))))"

definition register_http_routes :: "'s http_handler \<Rightarrow> 's store \<Rightarrow> string \<rightharpoonup> 's http_handler" where
  "register_http_routes time_handler st =
     [''/api/v1/system/time'' \<mapsto> time_handler,
      ''/api/v1/device/add'' \<mapsto> handle_add st,
      ''/api/v1/device/remove'' \<mapsto> handle_remove st,
      ''/api/v1/device/list'' \<mapsto> handle_list st]"

section \<open>Requests as operations\<close>

definition device_paths :: "string set" where
  "device_paths = {''/api/v1/device/add'', ''/api/v1/device/remove'', ''/api/v1/device/list''}"

text \<open>The operation a request asks for, if it is complete.\<close>

definition api_op :: "string \<times> request \<Rightarrow> store_op option" where
  "api_op = (\<lambda>(path, r).
     let q = query_get (req_query r) in
     if req_method r \<noteq> ''GET'' \<or> q ''uri'' = '''' then None
     else if path = ''/api/v1/device/add'' \<and> q ''desc'' \<noteq> '''' \<and> q ''type'' \<noteq> ''''
     then Some (AddOp (q ''uri'') (q ''type'') (q ''desc''))
     else if path = ''/api/v1/device/remove'' then Some (RemoveOp (q ''uri''))
     else None)"

definition rw_status :: "response_writer \<Rightarrow> nat" where
  "rw_status w = (case rw_sent w of Some (code, _) \<Rightarrow> code | None \<Rightarrow> 200)"

text \<open>The requests one after the other, each with a response of its own.\<close>

fun serve_all :: "(string \<rightharpoonup> 's http_handler) \<Rightarrow> (string \<times> request) list \<Rightarrow> ('s, response_writer list) action" where
  "serve_all routes [] s = (Ret [], s)"
| "serve_all routes ((path, r) # reqs) s =
     (case routes path of
        None \<Rightarrow> and_then (serve_all routes reqs)
          (\<lambda>ws s. (Ret (http_error (Raw ''404 page not found'') 404 new_response # ws), s)) s
      | Some h \<Rightarrow>
          (case h r (new_response, s) of
             (Ret _, (w, s)) \<Rightarrow> and_then (serve_all routes reqs) (\<lambda>ws s. (Ret (w # ws), s)) s
           | (Panic, (w, s)) \<Rightarrow> (Panic, s)
           | (Hang, (w, s)) \<Rightarrow> (Hang, s)))"

text \<open>A request with an operation is answered 200 when the operation succeeds and 400 otherwise.\<close>

fun answers :: "(string \<times> request) list \<Rightarrow> response_writer list \<Rightarrow> err option list \<Rightarrow> bool" where
  "answers [] [] [] = True"
| "answers (req # reqs) (w # ws) es =
     (if api_op req = None then rw_status w \<in> {200, 400, 405} \<and> answers reqs ws es
      else (case es of
              [] \<Rightarrow> False
            | e # es \<Rightarrow> rw_status w = (if e = None then 200 else 400) \<and> answers reqs ws es))"
| "answers _ _ _ = False"

lemma write_header_new: "rw_sent w = None \<Longrightarrow> rw_sent (write_header c w) = Some (c, rw_header w)"
  by (simp add: write_header_def)

lemma http_error_status [simp]: "rw_status (http_error p c new_response) = c"
  by (simp add: rw_status_def http_error_def write_body_def write_header_def set_header_def new_response_def)

lemma write_status [simp]:
  "rw_status (write_text t new_response) = 200" "rw_status (write_json t new_response) = 200"
  by (simp_all add: rw_status_def write_text_def write_json_def write_body_def write_header_def
      set_header_def new_response_def)

text \<open>A handler behind the crash handler that returns is that handler.\<close>

lemma crash_handler_Ret: "h r ws = (Ret u, ws') \<Longrightarrow> crash_handler recovered h r ws = (Ret u, ws')"
  by (simp add: crash_handler_def)

context device_store
begin

lemma handler_op:
  assumes "inv s" and "path \<in> device_paths" and "register_http_routes time_handler st path = Some h"
  shows "\<exists>w s'. h r (new_response, s) = (Ret (), (w, s')) \<and> inv s' \<and>
     (case api_op (path, r) of
        None \<Rightarrow> s' = s \<and> rw_status w \<in> {200, 400, 405}
      | Some op \<Rightarrow> \<exists>e. run_op st op s = (Ret e, s') \<and> rw_status w = (if e = None then 200 else 400))"
proof -
  let ?q = "query_get (req_query r)"
  obtain ea sa where a: "store_Add st (?q ''uri'') (?q ''type'') (?q ''desc'') s = (Ret ea, sa)" "inv sa"
    using add_returns [OF assms(1)] by blast
  obtain er sr where r: "store_Remove st (?q ''uri'') s = (Ret er, sr)" "inv sr"
    using remove_returns [OF assms(1)] by blast
  obtain items where l: "store_GetDesc st s = (Ret items, s)" using get_desc [OF assms(1)] by blast
  note defs = register_http_routes_def api_op_def Let_def respond_def outcome_simps
  consider (add) "path = ''/api/v1/device/add''" | (remove) "path = ''/api/v1/device/remove''"
    | (list) "path = ''/api/v1/device/list''" using assms(2) by (auto simp: device_paths_def)
  then show ?thesis
  proof cases
    case add
    then have "h = handle_add st" using assms(3) by (simp add: register_http_routes_def)
    then show ?thesis using a assms(1) add
      by (cases ea) (auto simp: handle_add_def defs)
  next
    case remove
    then have "h = handle_remove st" using assms(3) by (simp add: register_http_routes_def)
    then show ?thesis using r assms(1) remove
      by (cases er) (auto simp: handle_remove_def defs)
  next
    case list
    then have "h = handle_list st" using assms(3) by (simp add: register_http_routes_def)
    then show ?thesis using l assms(1) list by (auto simp: handle_list_def defs)
  qed
qed

lemma serve_all_ops:
  assumes "inv s" and "\<forall>(path, r) \<in> set reqs. path \<in> device_paths"
  shows "\<exists>ws es s'.
     serve_all (\<lambda>p. map_option (crash_handler recovered) (register_http_routes time_handler st p)) reqs s =
       (Ret ws, s') \<and> inv s' \<and>
     run_ops st (List.map_filter api_op reqs) s = (Ret es, s') \<and> answers reqs ws es"
  using assms
proof (induction reqs arbitrary: s)
  case Nil
  then show ?case by (simp add: map_filter_simps)
next
  case (Cons req reqs)
  obtain path r where req: "req = (path, r)" by (cases req)
  have p: "path \<in> device_paths" using Cons.prems(2) by (simp add: req)
  then obtain h where h: "register_http_routes time_handler st path = Some h"
    by (auto simp: device_paths_def register_http_routes_def)
  obtain w s1 where 1: "h r (new_response, s) = (Ret (), (w, s1))" "inv s1"
    "case api_op (path, r) of
        None \<Rightarrow> s1 = s \<and> rw_status w \<in> {200, 400, 405}
      | Some op \<Rightarrow> \<exists>e. run_op st op s = (Ret e, s1) \<and> rw_status w = (if e = None then 200 else 400)"
    using handler_op [OF Cons.prems(1) p h] by blast
  obtain ws es s' where 2: "serve_all (\<lambda>p. map_option (crash_handler recovered)
        (register_http_routes time_handler st p)) reqs s1 = (Ret ws, s')" "inv s'"
    "run_ops st (List.map_filter api_op reqs) s1 = (Ret es, s')" "answers reqs ws es"
    using Cons.IH [OF 1(2)] Cons.prems(2) by auto
  have s: "serve_all (\<lambda>p. map_option (crash_handler recovered)
        (register_http_routes time_handler st p)) (req # reqs) s = (Ret (w # ws), s')"
    using crash_handler_Ret [of h r "(new_response, s)" _ "(w, s1)" recovered] 1(1) h 2(1)
    by (simp add: req and_then_def)
  show ?case
  proof (cases "api_op (path, r)")
    case None
    then show ?thesis using s 1 2 by (auto simp: req map_filter_simps)
  next
    case (Some op)
    then obtain e where e: "run_op st op s = (Ret e, s1)" "rw_status w = (if e = None then 200 else 400)"
      using 1(3) by auto
    then have "run_ops st (List.map_filter api_op (req # reqs)) s = (Ret (e # es), s')"
      using 2(3) Some by (simp add: req map_filter_simps and_then_def)
    moreover have "answers (req # reqs) (w # ws) (e # es)" using e(2) 2(4) Some by (simp add: req)
    ultimately show ?thesis using s 2(2) by blast
  qed
qed

end

section \<open>Reading the list\<close>

text \<open>The list as a document, and what a reader of the document makes of it.\<close>

definition item_text :: "store_item \<Rightarrow> json_text" where
  "item_text i =
     TObj [(''uri'', TStr (si_URI i)), (''type'', TStr (si_Type i)), (''desc'', TStr (si_Desc i)),
           (''id'', TStr (si_ID i)), (''created_at'', TStr (si_CreatedAt i))]"

fun item_of_text :: "json_text \<Rightarrow> store_item option" where
  "item_of_text (TObj ms) =
     (let m = map_of ms
      in case (m ''uri'', m ''type'', m ''desc'', m ''id'', m ''created_at'') of
           (Some (TStr u), Some (TStr t), Some (TStr d), Some (TStr i), Some (TStr c)) \<Rightarrow>
             Some \<lparr>si_URI = u, si_Type = t, si_Desc = d, si_ID = i, si_CreatedAt = c\<rparr>
         | _ \<Rightarrow> None)"
| "item_of_text _ = None"

definition read_items :: "string \<Rightarrow> store_item list option" where
  "read_items s =
     (case read_document s of
        Some TNull \<Rightarrow> Some []
      | Some (TArr vs) \<Rightarrow> those (map item_of_text vs)
      | _ \<Rightarrow> None)"

definition valid_item :: "store_item \<Rightarrow> bool" where
  "valid_item i \<longleftrightarrow> list_all utf8_valid [si_URI i, si_Type i, si_Desc i, si_ID i, si_CreatedAt i]"

lemma item_of_text_text [simp]: "item_of_text (item_text i) = Some i"
  by (simp add: item_text_def)

lemma json_item_text: "json_write (item_text i) = json_item i"
  by (simp add: item_text_def json_item_def json_field_def)

lemma json_items_text:
  "json_items items = json_write (if items = [] then TNull else TArr (map item_text items))"
  by (simp add: json_items_def json_item_text comp_def)

lemma those_map_Some: "(\<And>x. f (g x) = Some x) \<Longrightarrow> those (map f (map g xs)) = Some xs"
  by (induction xs) simp_all

lemma item_text_writable: "writable (item_text i) \<longleftrightarrow> valid_item i"
proof -
  have "list_all utf8_valid [''uri'', ''type'', ''desc'', ''id'', ''created_at'']" by code_simp
  then show ?thesis by (simp add: item_text_def valid_item_def del: utf8_valid.simps)
qed

lemma read_items_json:
  assumes "list_all valid_item items"
  shows "read_items (json_items items) = Some items"
proof -
  let ?v = "if items = [] then TNull else TArr (map item_text items)"
  have "writable ?v" using assms by (simp add: item_text_writable list_all_iff)
  moreover have "nesting (item_text i) = 1" for i by (simp add: item_text_def)
  then have "nesting ?v \<le> max_nesting" by (simp add: image_image max_nesting_def)
  ultimately have "read_document (json_write ?v @ []) = Some ?v" by (rule read_document_write) simp
  then have "read_document (json_items items) = Some ?v" unfolding json_items_text by simp
  then show ?thesis
    by (simp add: read_items_def those_map_Some [of item_of_text item_text items, simplified])
qed

end
