(* ===== verification/Api.thy ===== *)
theory Api
  imports Devices StoreHttp
begin

text \<open>
  The HTTP interface of the application: the routes of \<^verbatim>\<open>registerHTTPRoutes\<close> behind the crash
  handler, on the device store of the application (the cache store with both decorators).
\<close>

section \<open>Requests change the set of devices\<close>

definition app_routes :: "(response_writer \<times> 's \<Rightarrow> panic_value) \<Rightarrow> 's http_handler \<Rightarrow> 's store
    \<Rightarrow> string \<rightharpoonup> 's http_handler" where
  "app_routes recovered time_handler st path =
     map_option (crash_handler recovered) (register_http_routes time_handler st path)"

text \<open>
  C4. The HTTP interface refines the set of devices: any sequence of requests to its three paths
  is answered, a complete addition or removal with 200 when the store did it and with 400 when it
  was refused, every other request with 200, 400 or 405 and without touching the store; the set
  of devices afterwards is the one the successful operations leave.
\<close>

theorem device_api_refines_store:
  assumes "bbolt_docs B opened buckets txb" and "visits_all order"
    and "live opened cs" and "dom (am_devices m) = cached_uris cs"
    and "\<forall>(path, r) \<in> set reqs. path \<in> device_paths"
  shows "\<exists>ws es s'. serve_all (app_routes recovered time_handler
       (app_store (bucket_db B name) fmt1123 order)) reqs (m, r, cs) = (Ret ws, s') \<and>
     answers reqs ws es \<and> ops_allowed (List.map_filter api_op reqs) es (cached_uris cs) \<and>
     app_uris s' = ops_set (List.map_filter api_op reqs) es (cached_uris cs)"
proof -
  let ?st = "app_store (bucket_db B name) fmt1123 order"
  note st = cached_devices.app_store_is_store [OF bucket_cached [OF assms(1,2)], of name fmt1123]
  have inv: "app_inv opened (m, r, cs)" using assms(3,4) by (simp add: app_inv_def)
  obtain ws es s' where 1: "serve_all (app_routes recovered time_handler ?st) reqs (m, r, cs) = (Ret ws, s')"
    "run_ops ?st (List.map_filter api_op reqs) (m, r, cs) = (Ret es, s')" "answers reqs ws es"
    using device_store.serve_all_ops [OF st inv assms(5), of recovered time_handler]
    unfolding app_routes_def [abs_def] by blast
  have "ops_allowed (List.map_filter api_op reqs) es (cached_uris cs) \<and>
      app_uris s' = ops_set (List.map_filter api_op reqs) es (cached_uris cs)"
    using device_store.run_ops_spec [OF st inv, of "List.map_filter api_op reqs"] 1(2) by auto
  with 1 show ?thesis by (intro exI [of _ ws] exI [of _ es] exI [of _ s']) simp
qed

definition get :: "string \<Rightarrow> request" where
  "get q = \<lparr>req_method = ''GET'', req_query = q\<rparr>"

text \<open>
  An addition whose URI arrives escaped, the same one without its type, a list, and a removal of
  a device that is not there.
\<close>

definition sample_requests :: "(string \<times> request) list" where
  "sample_requests =
     [(''/api/v1/device/add'', get ''uri=http%3A//10.0.0.7:80&type=bonsai&desc=plant''),
      (''/api/v1/device/add'', get ''uri=http://10.0.0.7:80&desc=plant''),
      (''/api/v1/device/list'', get ''''),
      (''/api/v1/device/remove'', get ''uri=http://10.0.0.8:80'')]"

lemma sample_requests_ops:
  "List.map_filter api_op sample_requests = [AddOp sample_uri ''bonsai'' ''plant'', RemoveOp other_uri]"
proof -
  have "query_get ''uri=http%3A//10.0.0.7:80&type=bonsai&desc=plant'' ''uri'' = sample_uri"
    "query_get ''uri=http%3A//10.0.0.7:80&type=bonsai&desc=plant'' ''type'' = ''bonsai''"
    "query_get ''uri=http%3A//10.0.0.7:80&type=bonsai&desc=plant'' ''desc'' = ''plant''"
    "query_get ''uri=http://10.0.0.7:80&desc=plant'' ''type'' = ''''"
    "query_get ''uri=http://10.0.0.8:80'' ''uri'' = other_uri"
    unfolding sample_uri_def other_uri_def by code_simp+
  then show ?thesis
    by (simp add: sample_requests_def map_filter_simps api_op_def get_def Let_def
        sample_uri_def other_uri_def)
qed

theorem device_api_refines_store_witness:
  "\<exists>ws es s'. serve_all (app_routes (\<lambda>_. ErrAbortHandler) (\<lambda>_. respond (write_text ''1''))
       (app_store (bucket_db mem_bbolt ''b'') (\<lambda>_. ''now'') sorted_list_of_set)) sample_requests
       (\<lparr>am_maxInactiveInterval = 5, am_devices = Map.empty\<rparr>, new_runner (), sample_store) = (Ret ws, s') \<and>
     answers sample_requests ws es \<and>
     app_uris s' = ops_set [AddOp sample_uri ''bonsai'' ''plant'', RemoveOp other_uri] es {}"
proof -
  have u: "cached_uris sample_store = {}"
    by (simp add: cached_uris_def sample_store_def nodes_of_def)
  have "\<forall>(path, r) \<in> set sample_requests. path \<in> device_paths"
    by (simp add: sample_requests_def device_paths_def)
  from device_api_refines_store [OF mem.bbolt_docs_axioms visits_all_sorted sample_live _ this,
      of "\<lparr>am_maxInactiveInterval = 5, am_devices = Map.empty\<rparr>" "\<lambda>_. ErrAbortHandler"
      "\<lambda>_. respond (write_text ''1'')" "''b''" "\<lambda>_. ''now''" "new_runner ()"]
  show ?thesis unfolding sample_requests_ops u by fastforce
qed

section \<open>The list\<close>

lemma write_json_new: "rw_body (write_json b new_response) = [Raw b]"
  by (simp add: write_json_def write_body_def write_header_def set_header_def new_response_def)

lemma cache_get_desc_items:
  assumes "set ord = dom (nodes_of cs)"
  shows "set (map item_of (List.map_filter (nodes_of cs) ord)) = item_of ` ran (nodes_of cs)"
proof -
  have "set (List.map_filter (nodes_of cs) ord) = ran (nodes_of cs)"
    using assms by (force simp: List.map_filter_def ran_def image_iff)
  then show ?thesis by simp
qed

text \<open>
  C21. The list of devices tells exactly what the store knows: the answer to a GET request is one
  JSON text that is read back as one entry per device, with the URI, type, description,
  identifier and creation time of its node, as long as these are valid UTF-8; nothing changes.
\<close>

theorem device_list_describes_store:
  assumes "visits_all order" and "live opened cs"
    and "\<forall>n \<in> ran (nodes_of cs). valid_item (item_of n)"
  shows "\<exists>w b items. handle_list (app_store db fmt1123 order) (get q) (new_response, (m, r, cs)) =
       (Ret (), (w, (m, r, cs))) \<and> rw_status w = 200 \<and> rw_body w = [Raw b] \<and>
     read_items b = Some items \<and> distinct (map si_URI items) \<and> set items = item_of ` ran (nodes_of cs)"
proof -
  let ?items = "map item_of (List.map_filter (nodes_of cs) (order (dom (nodes_of cs))))"
  have fin: "finite (dom (nodes_of cs))" and key: "\<And>u n. nodes_of cs u = Some n \<Longrightarrow> sn_uri n = u"
    using assms(2) by (auto simp: live_def)
  have ord: "set (order (dom (nodes_of cs))) = dom (nodes_of cs)" "distinct (order (dom (nodes_of cs)))"
    using assms(1) fin by (auto simp: visits_all_def)
  note set = cache_get_desc_items [OF ord(1)]
  have "list_all valid_item ?items" using assms(3) unfolding list_all_iff set by simp
  then have "read_items (json_items ?items) = Some ?items" by (rule read_items_json)
  moreover have "handle_list (app_store db fmt1123 order) (get q) (new_response, (m, r, cs)) =
      (Ret (), (write_json (json_items ?items) new_response, (m, r, cs)))"
    by (simp add: handle_list_def get_def app_store_def monitor_store_def monitor_get_desc_def
        app_awake_store_def awake_store_def lift_store_def cache_store_ops_def cache_get_desc_def
        lift_snd_def and_then_def respond_def)
  moreover have "distinct (map si_URI ?items)" using map_item_uris [where cs = cs and us = "order (dom (nodes_of cs))", OF key] ord by simp
  ultimately show ?thesis using set write_json_new by fastforce
qed

definition sample_monitor :: alive_monitor where
  "sample_monitor = \<lparr>am_maxInactiveInterval = 5, am_devices = Map.empty\<rparr>"

definition listed_node :: store_node where
  "listed_node =
     \<lparr>sn_uri = sample_uri, sn_typ = ''bonsai'', sn_desc = ''fern <2m'', sn_createdAt = ''now'',
      sn_cancelled = False, sn_stopper = [(''fern <2m'', StopRunner)], sn_holder = ''0xABCD'',
      sn_device = fst (new_http_device sample_params True sample_uri ''fern <2m'' ''10.0.0.7''
        ([], new_resolve_store)), sn_interval = 5000000000, sn_starts = 1\<rparr>"

theorem device_list_describes_store_witness:
  "\<exists>w b. handle_list (app_store noop_db (\<lambda>_. ''now'') sorted_list_of_set) (get '''')
       (new_response, (sample_monitor, new_runner (), sample_store\<lparr>cs_nodes := Some [sample_uri \<mapsto> listed_node]\<rparr>)) =
       (Ret (), (w, (sample_monitor, new_runner (), sample_store\<lparr>cs_nodes := Some [sample_uri \<mapsto> listed_node]\<rparr>))) \<and>
     rw_body w = [Raw b] \<and> read_items b = Some [item_of listed_node]"
proof -
  let ?cs = "sample_store\<lparr>cs_nodes := Some [sample_uri \<mapsto> listed_node]\<rparr>"
  have l: "live (\<lambda>_. True) ?cs" by (simp add: live_def listed_node_def)
  have v: "\<forall>n \<in> ran (nodes_of ?cs). valid_item (item_of n)"
    by (simp add: item_of_def listed_node_def valid_item_def sample_uri_def char_code_def)
  obtain w b items where w: "handle_list (app_store noop_db (\<lambda>_. ''now'') sorted_list_of_set) (get '''')
      (new_response, (sample_monitor, new_runner (), ?cs)) = (Ret (), (w, (sample_monitor, new_runner (), ?cs)))" "rw_body w = [Raw b]"
    "read_items b = Some items" "distinct (map si_URI items)" "set items = {item_of listed_node}"
    using device_list_describes_store [OF visits_all_sorted l v, of noop_db "\<lambda>_. ''now''" "''''" 
        sample_monitor "new_runner ()"] by auto
  from w(4,5) have "items = [item_of listed_node]"
    by (cases items; cases "tl items") auto
  with w(1-3) show ?thesis by blast
qed

text \<open>
  The example of \<^verbatim>\<open>docs/features.md\<close> adds a device without a type, which the handler refuses.
\<close>

theorem documented_addition_is_refused:
  "handle_add st (get ''uri=http://bonsai-growlab.local:8081/api/v1&desc=home-plant'') (new_response, s) =
     (Ret (), (http_error (Raw ''error: missed `type` query parameter'') 400 new_response, s))"
proof -
  let ?q = "''uri=http://bonsai-growlab.local:8081/api/v1&desc=home-plant''"
  have "query_get ?q ''uri'' \<noteq> ''''" "query_get ?q ''desc'' \<noteq> ''''" "query_get ?q ''type'' = ''''"
    by code_simp+
  then show ?thesis by (simp add: handle_add_def get_def Let_def respond_def)
qed

end
