(* ===== verification/Lifecycle.thy ===== *)
theory Lifecycle
  imports Devices
begin

text \<open>
  What the device stores do outside the life-cycle they are written for: a device added before
  the store is started, whose runner has two goroutines, a device added after the store was stopped, and two devices that share
  a host name when one of them is removed.
\<close>

section \<open>A device added before the store is started\<close>

text \<open>
  The starters of the application run in the order they were added: the runner of the mDNS
  browser, whose discoveries add devices, comes before the cache store.
\<close>

text \<open>The runner of a node is its last stopper.\<close>

definition stops_runner :: "store_node \<Rightarrow> bool" where
  "stops_runner n \<longleftrightarrow> (\<exists>xs uri h. sn_stopper n = xs @ [(sn_desc n, StopRunner)] \<and> resolve_stops uri h xs)"

lemma node_stop_started:
  assumes "stops_runner n" and "0 < sn_starts n"
  shows "\<exists>rs'. node_stop n rs = (Ret None, rs')"
  using assms node_stop_resolvers [of n] by (fastforce simp: stops_runner_def)

lemma cache_add_node:
  assumes "cache_add db fmt1123 u t d cs = (Ret None, cs')"
  shows "\<exists>p xs n m. url_parse u = Inr p \<and> cs_nodes cs = Some m \<and> cs_nodes cs' = Some (m(u \<mapsto> n)) \<and>
     m u = None \<and> sn_desc n = d \<and> sn_stopper n = xs @ [(d, StopRunner)] \<and>
     resolve_stops u (url_hostname p) xs \<and> sn_starts n = 1 \<and>
     sn_interval n = csp_FetchInterval (cs_params cs) \<and>
     (contains u ''.local'' \<longrightarrow> ep_client (hd_registration (sn_device n)) = ResolveClient)"
proof -
  obtain q cs1 where q: "make_node fmt1123 u t d (cs_now cs) cs = (q, cs1)" by fastforce
  from assms q obtain n where n: "q = Inr n"
    by (auto simp: cache_add_def split: if_splits sum.splits)
  from make_node_parses [OF q [unfolded n]] obtain p where p: "url_parse u = Inr p" by blast
  from make_node_stopper [OF q [unfolded n] p] obtain xs where xs:
    "sn_stopper n = xs @ [(d, StopRunner)]" "resolve_stops u (url_hostname p) xs" "sn_starts n = 0"
    "cs_nodes cs1 = cs_nodes cs"
    "contains u ''.local'' \<longrightarrow> ep_client (hd_registration (sn_device n)) = ResolveClient" by blast
  have desc: "sn_desc n = d" "sn_interval n = csp_FetchInterval (cs_params cs)" using q n
    by (auto simp: make_node_def make_node_http_def split: sum.splits device_type.splits if_splits prod.splits)
  let ?n = "n\<lparr>sn_starts := 1\<rparr>"
  from assms q n xs(3,4) obtain m where "cs_nodes cs = Some m" "cs_nodes cs' = Some (m(u \<mapsto> ?n))" "m u = None"
    by (auto simp: cache_add_def node_start_def split: if_splits outcome.splits sum.splits option.splits prod.splits)
  then show ?thesis using p xs desc
    by (intro exI [of _ p] exI [of _ xs] exI [of _ ?n] exI [of _ m]) simp
qed

text \<open>The runner of a node returns from every run of its task, if the task does.\<close>

abbreviation node_run_task :: "store_node \<Rightarrow> 's task \<Rightarrow> ('s, bool) action" where
  "node_run_task n task \<equiv>
     run_task (node_runner_params n) (runner_task (node_runner_params n) task) (Some (\<lambda>e s. (Ret (), s)))"

lemma node_run_task_returns:
  assumes "\<forall>w. fst (task w) \<noteq> Hang"
  shows "\<forall>w. \<exists>b w'. node_run_task n task w = (Ret b, w')"
proof
  fix w
  obtain out w1 where t: "task w = (out, w1)" by (cases "task w")
  with assms have "out \<noteq> Hang" by (metis fst_conv)
  then show "\<exists>b w'. node_run_task n task w = (Ret b, w')"
    by (cases out) (auto simp: run_task_def runner_task_def node_runner_params_def crash_task_run_def and_then_def t
        split: option.split)
qed

text \<open>
  C33. A device that is added before the store is started, as a discovery may do while the
  starters of the application run, is started twice. Its removal still cancels the context of the
  runner and returns, but the runner cannot end any more without ending the process: in every
  execution of a runner that was started as often as that of the device, once it is cancelled, a
  goroutine is left as long as the process has not crashed, and at most six steps lead to the
  crash, the second \<^verbatim>\<open>close\<close> of its channel in a goroutine of its own that nothing recovers.
\<close>

theorem device_added_before_start_crashes:
  assumes "cache_add (bucket_db B name) fmt1123 u t d cs = (Ret None, cs1)"
    and "cache_start ord cs1 = (Ret None, cs2)" and "distinct ord" and "set ord = cached_uris cs1"
    and "db_Remove (bucket_db B name) u (cs_db cs2) = (Ret None, db')"
    and interval: "0 < sint (csp_FetchInterval (cs_params cs))" and task: "\<forall>w. fst (task w) \<noteq> Hang"
  shows "\<exists>n cs3. nodes_of cs2 u = Some n \<and> sn_starts n = 2 \<and>
     cache_remove (bucket_db B name) u cs2 = (Ret None, cs3) \<and>
     (\<forall>ls r. runner_steps (node_runner_params n) (node_run_task n task) (new_runner w) ls r \<and>
        count_list ls Start = sn_starts n \<and> rn_ctx_done r \<longrightarrow>
        (rn_crashed r \<or> (\<exists>g \<in> set (rn_gs r). g \<noteq> Gone)) \<and>
        (\<exists>ls' r'. length ls' \<le> 6 \<and> runner_steps (node_runner_params n) (node_run_task n task) r ls' r' \<and>
           rn_crashed r'))"
proof -
  obtain p xs n m where n: "cs_nodes cs1 = Some (m(u \<mapsto> n))" "sn_desc n = d"
    "sn_stopper n = xs @ [(d, StopRunner)]" "resolve_stops u (url_hostname p) xs" "sn_starts n = 1"
    "sn_interval n = csp_FetchInterval (cs_params cs)"
    using cache_add_node [OF assms(1)] by blast
  let ?n = "n\<lparr>sn_starts := 2\<rparr>"
  have u: "u \<in> set ord" "set ord \<subseteq> dom (m(u \<mapsto> n))"
    using assms(4) n(1) by (auto simp: cached_uris_def)
  have node: "nodes_of cs2 u = Some ?n"
    using assms(2) start_loop_spec [OF assms(3) u(2)] u(1) n(1,5) by (auto simp: cache_start_def)
  have "stops_runner ?n" using n(2-4) by (auto simp: stops_runner_def)
  then obtain cs3 where remove: "cache_remove (bucket_db B name) u cs2 = (Ret None, cs3)"
    using node_stop_started [of ?n "cs_resolve cs2"] assms(5) node by (auto simp: cache_remove_def)
  have pos: "0 < sint (UpdateInterval (node_runner_params ?n))"
    using interval n(6) by (simp add: node_runner_params_def)
  have "(rn_crashed r \<or> (\<exists>g \<in> set (rn_gs r). g \<noteq> Gone)) \<and>
      (\<exists>ls' r'. length ls' \<le> 6 \<and> runner_steps (node_runner_params ?n) (node_run_task ?n task) r ls' r' \<and> rn_crashed r')"
    if "runner_steps (node_runner_params ?n) (node_run_task ?n task) (new_runner w) ls r"
      "count_list ls Start = sn_starts ?n" "rn_ctx_done r" for ls r
    using restarted_runner_crashes [OF that(1) _ that(3) pos node_run_task_returns [OF task]] that(2)
    by (simp del: length_0_conv)
  moreover have "sn_starts ?n = 2" by simp
  ultimately show ?thesis using node remove by blast
qed

text \<open>The shortest way there: both goroutines leave the loop and close the channel.\<close>

theorem device_added_before_start_crashes_witness:
  "\<exists>cs1 cs2 cs3 :: mem_buckets cache_store. \<exists>n r ls' r'.
     cache_add (bucket_db mem_bbolt ''b'') (\<lambda>_. ''now'') sample_uri ''bonsai'' ''plant'' sample_store =
       (Ret None, cs1) \<and> cache_start [sample_uri] cs1 = (Ret None, cs2) \<and>
     cache_remove (bucket_db mem_bbolt ''b'') sample_uri cs2 = (Ret None, cs3) \<and>
     nodes_of cs2 sample_uri = Some n \<and>
     runner_steps (node_runner_params n) (node_run_task n (\<lambda>k. (Ret None, Suc k))) (new_runner 0)
       [Start, Start, Cancel] r \<and> \<not> rn_crashed r \<and>
     runner_steps (node_runner_params n) (node_run_task n (\<lambda>k. (Ret None, Suc k))) r ls' r' \<and> rn_crashed r'"
proof -
  obtain cs1 where a: "cache_add (bucket_db mem_bbolt ''b'') (\<lambda>_. ''now'') sample_uri ''bonsai'' ''plant''
      sample_store = (Ret None, cs1)" "cached_uris cs1 = {sample_uri}" by (rule sample_added) blast
  obtain cs2 where s: "cache_start [sample_uri] cs1 = (Ret None, cs2)"
    using start_loop_spec [of "[sample_uri]"] a(2)
    by (auto simp: cache_start_def cached_uris_def nodes_of_def split: option.splits)
  obtain d where d: "db_Remove (bucket_db mem_bbolt ''b'') sample_uri (cs_db cs2) = (Ret None, d)"
    using mem_Remove by blast
  let ?task = "\<lambda>k :: nat. (Ret None, Suc k) :: err option outcome \<times> nat"
  have i: "0 < sint (csp_FetchInterval (cs_params sample_store))"
    by (simp add: sample_store_def sample_params_def)
  have "distinct [sample_uri]" "set [sample_uri] = cached_uris cs1" "\<forall>k. fst (?task k) \<noteq> Hang" using a(2) by simp_all
  from device_added_before_start_crashes [OF a(1) s this(1,2) d i this(3), of 0]
  obtain n cs3 where n: "nodes_of cs2 sample_uri = Some n" "sn_starts n = 2"
    "cache_remove (bucket_db mem_bbolt ''b'') sample_uri cs2 = (Ret None, cs3)"
    "\<forall>ls r. runner_steps (node_runner_params n) (node_run_task n ?task) (new_runner 0) ls r \<and>
        count_list ls Start = sn_starts n \<and> rn_ctx_done r \<longrightarrow>
        (\<exists>ls' r'. length ls' \<le> 6 \<and> runner_steps (node_runner_params n) (node_run_task n ?task) r ls' r' \<and> rn_crashed r')"
    by blast
  let ?r = "(runner_start (runner_start (new_runner (0 :: nat))))\<lparr>rn_ctx_done := True\<rparr>"
  have "exec_labels (node_runner_params n) (node_run_task n ?task) [Start, Start, Cancel] (new_runner 0) = Some ?r"
    by (simp add: new_runner_def runner_start_def)
  then have r: "runner_steps (node_runner_params n) (node_run_task n ?task) (new_runner 0) [Start, Start, Cancel] ?r"
    by (rule exec_labels_steps)
  moreover have "count_list [Start, Start, Cancel] Start = sn_starts n" "rn_ctx_done ?r" using n(2) by simp_all
  ultimately obtain ls' r' where
    "runner_steps (node_runner_params n) (node_run_task n ?task) ?r ls' r'" "rn_crashed r'"
    using n(4) by blast
  moreover have "\<not> rn_crashed ?r" by (simp add: new_runner_def runner_start_def)
  ultimately show ?thesis using a(1) s n(1,3) r by blast
qed

section \<open>A device added after the store was stopped\<close>



section \<open>Two devices on one host\<close>

text \<open>An unknown host stays without an address, whatever is reported.\<close>

lemma unknown_host_ignored:
  "h \<notin> rs_known rs \<Longrightarrow> handle_resolve h a rs = rs"
  by (simp add: handle_resolve_def)

lemma cache_remove_host:
  assumes "cache_remove db u cs = (Ret None, cs')" and "nodes_of cs u = Some n"
    and "sn_stopper n = xs @ [(d, StopRunner)]" and "resolve_stops u h xs" and "contains u ''.local''"
  shows "h \<notin> rs_known (cs_resolve cs') \<and> rs_addrs (cs_resolve cs') h = None \<and>
     nodes_of cs' = (nodes_of cs)(u := None)"
proof -
  obtain r rs where s: "node_stop n (cs_resolve cs) = (r, rs)"
    "h \<notin> rs_known rs \<and> rs_addrs rs h = None"
    using node_stop_resolvers [OF assms(3,4), of "cs_resolve cs"] assms(5) by auto
  have "nodes_of cs' = (nodes_of cs)(u := None) \<and> cs_resolve cs' = rs"
    using assms(1,2) s(1)
    by (auto simp: cache_remove_def nodes_of_def split: outcome.splits prod.splits option.splits)
  with s(2) show ?thesis by simp
qed

text \<open>
  C32. Two devices on the same host of the local domain, one of which is removed: the other one
  is still in the store and still resolves its host through the resolve store, which has
  forgotten the host and ignores every later report of its address.
\<close>

theorem removal_forgets_shared_host:
  assumes "cache_add db fmt1123 u t d cs = (Ret None, cs1)"
    and "cache_add db fmt1123 u' t' d' cs1 = (Ret None, cs2)"
    and "cache_remove db u cs2 = (Ret None, cs3)"
    and "url_parse u = Inr p" and "url_parse u' = Inr p'" and "url_hostname p' = url_hostname p"
    and "contains u ''.local''" and "contains u' ''.local''"
  shows "\<exists>n. nodes_of cs3 u' = Some n \<and> ep_client (hd_registration (sn_device n)) = ResolveClient \<and>
     handle_resolve (url_hostname p') a (cs_resolve cs3) = cs_resolve cs3 \<and>
     get_addr (url_hostname p') (cs_resolve cs3) = Inl (Status StatusNoData)"
proof -
  obtain xs n m where n: "cs_nodes cs1 = Some (m(u \<mapsto> n))" "sn_stopper n = xs @ [(d, StopRunner)]"
    "resolve_stops u (url_hostname p) xs"
    using cache_add_node [OF assms(1)] assms(4) by auto
  obtain n' where n': "cs_nodes cs2 = Some (m(u \<mapsto> n, u' \<mapsto> n'))" "(m(u \<mapsto> n)) u' = None"
    "ep_client (hd_registration (sn_device n')) = ResolveClient"
    using cache_add_node [OF assms(2)] assms(5,8) n(1) by auto
  have ne: "u' \<noteq> u" using n'(2) by auto
  have "nodes_of cs2 u = Some n" using n'(1) ne by simp
  from cache_remove_host [OF assms(3) this n(2,3) assms(7)] show ?thesis
    using n'(1,3) ne assms(6) by (auto simp: unknown_host_ignored get_addr_def)
qed

definition local_uri :: "string \<Rightarrow> string" where
  "local_uri path = ''http://plant.local:80/'' @ path"

lemma local_uri_parse:
  "url_parse (local_uri ''a'') = Inr \<lparr>url_Scheme = ''http'', url_Host = ''plant.local:80''\<rparr>"
  "url_parse (local_uri ''b'') = Inr \<lparr>url_Scheme = ''http'', url_Host = ''plant.local:80''\<rparr>"
  unfolding local_uri_def by code_simp+

lemma local_uri_restorable: "restorable (local_uri ''a'')" "restorable (local_uri ''b'')"
proof -
  have "url_port \<lparr>url_Scheme = ''http'', url_Host = ''plant.local:80''\<rparr> = ''80''" by code_simp
  then show "restorable (local_uri ''a'')" "restorable (local_uri ''b'')"
    by (simp_all add: restorable_def local_uri_parse parse_device_type_def)
qed

theorem removal_forgets_shared_host_witness:
  "\<exists>cs1 cs2 cs3 :: mem_buckets cache_store. \<exists>n.
     cache_add (bucket_db mem_bbolt ''b'') (\<lambda>_. ''now'') (local_uri ''a'') ''bonsai'' ''plant'' sample_store =
       (Ret None, cs1) \<and>
     cache_add (bucket_db mem_bbolt ''b'') (\<lambda>_. ''now'') (local_uri ''b'') ''bonsai'' ''plant'' cs1 =
       (Ret None, cs2) \<and>
     cache_remove (bucket_db mem_bbolt ''b'') (local_uri ''a'') cs2 = (Ret None, cs3) \<and>
     nodes_of cs3 (local_uri ''b'') = Some n \<and>
     get_addr ''plant.local'' (cs_resolve cs3) = Inl (Status StatusNoData)"
proof -
  let ?db = "bucket_db mem_bbolt ''b''" and ?f = "\<lambda>_. ''now''" and ?a = "local_uri ''a''" and ?b = "local_uri ''b''"
  have ne: "?a \<noteq> ''''" "?b \<noteq> ''''" "?a \<noteq> ?b" by (simp_all add: local_uri_def)
  obtain buf where m: "MarshalBinary \<lparr>item_Desc = ''plant'', item_Timestamp = cs_now sample_store,
      item_Type = ''bonsai''\<rparr> = Ret (Inr buf)"
    using sample_marshal by (auto simp: sample_store_def)
  have e: "nodes_of sample_store = Map.empty" "cs_nodes sample_store = Some Map.empty"
    by (simp_all add: sample_store_def nodes_of_def)
  obtain cs1 where a: "cache_add ?db ?f ?a ''bonsai'' ''plant'' sample_store = (Ret None, cs1)"
    using mem_add [OF local_uri_restorable(1) ne(1) _ _ m] e by auto
  have 1: "live (\<lambda>_. True) cs1" "cs_now cs1 = cs_now sample_store"
    using bucket_devices.cache_add_spec [OF sample_live, of ?a "''b''" ?f "''bonsai''" "''plant''"] a e(1)
    by auto
  obtain n1 where n1: "cs_nodes cs1 = Some [?a \<mapsto> n1]" "sn_starts n1 = 1"
    using cache_add_node [OF a] e(2) by auto
  obtain cs2 where b: "cache_add ?db ?f ?b ''bonsai'' ''plant'' cs1 = (Ret None, cs2)"
    using mem_add [OF local_uri_restorable(2) ne(2) _ _ m [folded 1(2)]] n1(1) ne(3) by fastforce
  obtain n2 where "cs_nodes cs2 = Some ([?a \<mapsto> n1, ?b \<mapsto> n2])"
    using cache_add_node [OF b] n1(1) by auto
  then have "nodes_of cs2 ?a = Some n1" using ne(3) by simp
  from mem_remove [OF this n1(2)] obtain cs3 where c: "cache_remove ?db ?a cs2 = (Ret None, cs3)" by blast
  have h: "url_hostname \<lparr>url_Scheme = ''http'', url_Host = ''plant.local:80''\<rparr> = ''plant.local''" by code_simp
  have "contains ?a ''.local''" "contains ?b ''.local''" by (simp_all add: local_uri_def has_prefix_def)
  from removal_forgets_shared_host [OF a b c local_uri_parse refl this] a b c h show ?thesis by auto
qed

end
