(* ===== verification/GoTime.thy ===== *)
theory GoTime
  imports GoLib Durations NetAddr
begin

text \<open>
  \<^verbatim>\<open>time.ParseDuration\<close>, with which \<^verbatim>\<open>projects/main/main.go\<close> reads its interval options: the
  loops over the text with their overflow checks on \<^verbatim>\<open>uint64\<close> values (here natural numbers;
  the one addition that can pass \<open>2\<^sup>6\<^sup>4\<close> wraps) and the \<^verbatim>\<open>float64\<close> arithmetic of fractions.
\<close>

section \<open>The parser\<close>

text \<open>\<^verbatim>\<open>leadingInt\<close>; \<^const>\<open>None\<close> is its overflow error.\<close>

fun leading_int :: "nat \<Rightarrow> string \<Rightarrow> (nat \<times> string) option" where
  "leading_int x [] = Some (x, [])"
| "leading_int x (c # s) =
     (case digit_val c of
        None \<Rightarrow> Some (x, c # s)
      | Some d \<Rightarrow>
          (if 2 ^ 63 div 10 < x then None
           else if 2 ^ 63 < x * 10 + d then None
           else leading_int (x * 10 + d) s))"

text \<open>\<^verbatim>\<open>leadingFraction\<close>: digits that overflow are skipped.\<close>

fun leading_fraction :: "nat \<Rightarrow> rat \<Rightarrow> bool \<Rightarrow> string \<Rightarrow> nat \<times> rat \<times> string" where
  "leading_fraction x scale overflow [] = (x, scale, [])"
| "leading_fraction x scale overflow (c # s) =
     (case digit_val c of
        None \<Rightarrow> (x, scale, c # s)
      | Some d \<Rightarrow>
          (if overflow then leading_fraction x scale overflow s
           else if (2 ^ 63 - 1) div 10 < x then leading_fraction x scale True s
           else if 2 ^ 63 < x * 10 + d then leading_fraction x scale True s
           else leading_fraction (x * 10 + d) (float64 (scale * 10)) False s))"

definition unit_map :: "string \<rightharpoonup> nat" where
  "unit_map =
     [''ns'' \<mapsto> 1, ''us'' \<mapsto> 1000, [CHR 0xC2, CHR 0xB5, CHR ''s''] \<mapsto> 1000,
      [CHR 0xCE, CHR 0xBC, CHR ''s''] \<mapsto> 1000, ''ms'' \<mapsto> 1000000, ''s'' \<mapsto> 1000000000,
      ''m'' \<mapsto> 60000000000, ''h'' \<mapsto> 3600000000000]"

definition number_char :: "char \<Rightarrow> bool" where
  "number_char c \<longleftrightarrow> c = CHR ''.'' \<or> digit_val c \<noteq> None"

text \<open>\<^verbatim>\<open>quote\<close> of the errors: byte by byte, as each byte of a rune is escaped on its own.\<close>

fun duration_quote :: "string \<Rightarrow> string" where
  "duration_quote [] = []"
| "duration_quote (c # s) =
     (let n = of_char c in
      if 128 \<le> n \<or> n < 32
      then CHR 0x5C # CHR ''x'' # hex_digit (n div 16) # hex_digit (n mod 16) # duration_quote s
      else if n = 34 \<or> n = (92 :: nat) then CHR 0x5C # c # duration_quote s
      else c # duration_quote s)"

definition invalid_duration :: "string \<Rightarrow> err" where
  "invalid_duration orig =
     ExtErr (''time: invalid duration '' @ CHR 0x22 # duration_quote orig @ [CHR 0x22])"

text \<open>One round of the loop: a number with its unit, in nanoseconds, and the rest of the text.\<close>

definition duration_term :: "string \<Rightarrow> string \<Rightarrow> err + (nat \<times> string)" where
  "duration_term orig s =
     (if s = [] \<or> \<not> number_char (hd s) then Inl (invalid_duration orig)
      else case leading_int 0 s of
        None \<Rightarrow> Inl (invalid_duration orig)
      | Some (v, s1) \<Rightarrow>
          (let pre = (length s1 \<noteq> length s);
               (f, scale, post, s2) =
                 (case s1 of
                    c # s' \<Rightarrow>
                      (if c = CHR ''.''
                       then (case leading_fraction 0 1 False s' of
                               (f, scale, s2) \<Rightarrow> (f, scale, length s2 \<noteq> length s', s2))
                       else (0, 1, False, s1))
                  | [] \<Rightarrow> (0, 1, False, s1));
               u = takeWhile (\<lambda>c. \<not> number_char c) s2;
               s3 = drop (length u) s2
           in if \<not> pre \<and> \<not> post then Inl (invalid_duration orig)
              else if u = [] then Inl (ExtErr (''time: missing unit in duration '' @
                     CHR 0x22 # duration_quote orig @ [CHR 0x22]))
              else case unit_map u of
                None \<Rightarrow> Inl (ExtErr (''time: unknown unit '' @ CHR 0x22 # duration_quote u @ CHR 0x22 #
                     '' in duration '' @ CHR 0x22 # duration_quote orig @ [CHR 0x22]))
              | Some unit \<Rightarrow>
                  (if 2 ^ 63 div unit < v then Inl (invalid_duration orig)
                   else let v = v * unit;
                            v = (if 0 < f
                                 then v + nat \<lfloor>float64 (float64 (of_nat f) * float64 (of_nat unit / scale))\<rfloor>
                                 else v)
                        in if 2 ^ 63 < v then Inl (invalid_duration orig) else Inr (v, s3))))"

text \<open>
  The loop; every round consumes a byte at least, so the length of the text is enough fuel
  (\<open>duration_loop_fuel\<close>).
\<close>

fun duration_loop :: "nat \<Rightarrow> string \<Rightarrow> nat \<Rightarrow> string \<Rightarrow> err + nat" where
  "duration_loop n orig d [] = Inr d"
| "duration_loop 0 orig d (c # s) = Inl (invalid_duration orig)"
| "duration_loop (Suc n) orig d (c # s) =
     (case duration_term orig (c # s) of
        Inl e \<Rightarrow> Inl e
      | Inr (v, s') \<Rightarrow>
          (let d = (d + v) mod 2 ^ 64
           in if 2 ^ 63 < d then Inl (invalid_duration orig) else duration_loop n orig d s'))"

definition parse_duration :: "string \<Rightarrow> err + i64" where
  "parse_duration orig =
     (let neg = (orig \<noteq> [] \<and> hd orig = CHR ''-'');
          s = (if orig \<noteq> [] \<and> (hd orig = CHR ''-'' \<or> hd orig = CHR ''+'') then tl orig else orig)
      in if s = ''0'' then Inr 0
         else if s = [] then Inl (invalid_duration orig)
         else case duration_loop (length s) orig 0 s of
           Inl e \<Rightarrow> Inl e
         | Inr d \<Rightarrow>
             (if neg then Inr (word_of_int (- int d))
              else if 2 ^ 63 - 1 < d then Inl (invalid_duration orig)
              else Inr (word_of_int (int d))))"

section \<open>A number with a unit\<close>

lemma digit_val_digit: "digit_val c = Some d \<Longrightarrow> number_char c"
  by (simp add: number_char_def)

lemma leading_int_append:
  "\<forall>c \<in> set xs. digit_val c \<noteq> None \<Longrightarrow>
   leading_int x (xs @ ys) = (case leading_int x xs of None \<Rightarrow> None | Some (k, _) \<Rightarrow> leading_int k ys)"
  by (induction x xs rule: leading_int.induct) (auto split: option.splits)

lemma nat_str_digit_val: "c \<in> set (nat_str n) \<Longrightarrow> digit_val c \<noteq> None"
  using nat_str_digits [of c n] by auto

text \<open>The two checks of a digit are one.\<close>

lemma digit_bound:
  assumes "r < (10 :: nat)"
  shows "(if q \<le> 2 ^ 63 then if 2 ^ 63 div 10 < q then None
          else if 2 ^ 63 < q * 10 + r then None else Some x else None) =
     (if q * 10 + r \<le> 2 ^ 63 then Some x else None)"
proof -
  have "\<not> q * 10 + r \<le> 9223372036854775808" if "922337203685477580 < q" using that by linarith
  moreover have "q \<le> 9223372036854775808" if "q * 10 + r \<le> 9223372036854775808" using that by linarith
  ultimately show ?thesis by auto
qed

lemma leading_int_nat_str:
  "leading_int 0 (nat_str n) = (if n \<le> 2 ^ 63 then Some (n, []) else None)"
proof (induction n rule: nat_str.induct)
  case (1 n)
  show ?case
  proof (cases "n < 10")
    case True
    then show ?thesis by (simp add: nat_str.simps [of n])
  next
    case False
    have split: "n div 10 * 10 + n mod 10 = n" by simp
    have "leading_int 0 (nat_str n) =
        (if n div 10 \<le> 2 ^ 63 then leading_int (n div 10) [digit_char (n mod 10)] else None)"
      using False 1 nat_str_digit_val [of _ "n div 10"]
      by (simp add: nat_str.simps [of n] leading_int_append)
    also have "leading_int (n div 10) [digit_char (n mod 10)] =
        (if 2 ^ 63 div 10 < n div 10 then None
         else if 2 ^ 63 < n div 10 * 10 + n mod 10 then None else Some (n div 10 * 10 + n mod 10, []))"
      by (simp only: leading_int.simps digit_val_digit_char [of "n mod 10"] mod_less_divisor zero_less_numeral
          option.case)
    also note digit_bound [of "n mod 10" "n div 10" "(n div 10 * 10 + n mod 10, [])"]
    also note split
    finally show ?thesis by simp
  qed
qed

lemma leading_int_nat_str_rest:
  assumes "u \<noteq> []" and "digit_val (hd u) = None"
  shows "leading_int 0 (nat_str n @ u) = (if n \<le> 2 ^ 63 then Some (n, u) else None)"
  using assms by (cases u)
    (auto simp: leading_int_append nat_str_digit_val leading_int_nat_str)

text \<open>The units, and that they have no character of a number.\<close>

lemma unit_map_cases:
  assumes "unit_map u = Some k"
  shows "0 < k \<and> u \<noteq> [] \<and> list_all (\<lambda>c. \<not> number_char c) u"
proof -
  have "u \<in> dom unit_map" using assms by blast
  then have "u \<in> {''ns'', ''us'', [CHR 0xC2, CHR 0xB5, CHR ''s''], [CHR 0xCE, CHR 0xBC, CHR ''s''],
      ''ms'', ''s'', ''m'', ''h''}"
    by (auto simp: unit_map_def split: if_splits)
  moreover have "0 < k" using assms by (auto simp: unit_map_def split: if_splits)
  ultimately show ?thesis by (auto simp: number_char_def digit_val_def)
qed

lemma duration_term_unit:
  assumes "unit_map u = Some k"
  shows "duration_term orig (nat_str n @ u) =
     (if n * k \<le> 2 ^ 63 then Inr (n * k, []) else Inl (invalid_duration orig))"
proof -
  let ?s = "nat_str n @ u"
  note u = unit_map_cases [OF assms]
  obtain v vs where v: "u = v # vs" using u by (cases u) auto
  have hd: "digit_val v = None" "v \<noteq> CHR ''.''" using u v by (auto simp: number_char_def)
  have c: "?s \<noteq> []" "number_char (hd ?s)"
    using nat_str_digit_val [of "hd (nat_str n)" n] by (simp_all add: number_char_def)
  have tw: "takeWhile (\<lambda>c. \<not> number_char c) u = u"
    using u by (simp add: list_all_iff takeWhile_eq_all_conv)
  have li: "leading_int 0 ?s = (if n \<le> 2 ^ 63 then Some (n, u) else None)"
    using leading_int_nat_str_rest [of u n] hd(1) v by simp
  have le: "n \<le> 2 ^ 63 div k \<longleftrightarrow> n * k \<le> 2 ^ 63" using u by (simp add: less_eq_div_iff_mult_less_eq)
  have "n * 1 \<le> n * k" using u by (intro mult_le_mono2) simp
  then have over: "\<not> n * k \<le> 2 ^ 63" if "\<not> n \<le> 2 ^ 63" using that by linarith
  show ?thesis
  proof (cases "n \<le> 2 ^ 63")
    case True
    have "duration_term orig ?s =
        (if 2 ^ 63 div k < n then Inl (invalid_duration orig)
         else if 2 ^ 63 < n * k then Inl (invalid_duration orig) else Inr (n * k, []))"
      using True c li tw hd(2) assms unfolding duration_term_def by (simp add: v Let_def)
    then show ?thesis using le by (simp add: not_le [symmetric])
  next
    case False
    then show ?thesis using c li over unfolding duration_term_def by simp
  qed
qed

text \<open>A whole number with one unit is exact, and is refused as soon as it does not fit.\<close>

lemma parse_duration_unit:
  assumes "unit_map u = Some k"
  shows "parse_duration (nat_str n @ u) =
     (if n * k < 2 ^ 63 then Inr (word_of_int (int (n * k)))
      else Inl (invalid_duration (nat_str n @ u)))"
proof -
  let ?s = "nat_str n @ u"
  obtain c cs where s: "?s = c # cs" by (cases ?s) (simp_all add: unit_map_cases)
  have "c \<in> set (nat_str n)" using s nat_str_nonempty [of n] by (cases "nat_str n") auto
  then have sign: "c \<noteq> CHR ''-'' \<and> c \<noteq> CHR ''+''"
    using nat_str_digits [of c n] digit_char_not_sign by auto
  have zero: "?s \<noteq> ''0''"
    using unit_map_cases [OF assms] by (cases "nat_str n") auto
  have "duration_loop (length ?s) ?s 0 ?s =
      (if n * k \<le> 2 ^ 63 then Inr (n * k) else Inl (invalid_duration ?s))"
    using duration_term_unit [OF assms, of ?s n] by (simp add: s Let_def)
  moreover have "hd ?s \<noteq> CHR ''-''" "hd ?s \<noteq> CHR ''+''" using sign unfolding s by simp_all
  moreover have "n * k \<le> 2 ^ 63 - 1 \<longleftrightarrow> n * k < 2 ^ 63"
    using less_Suc_eq_le [of "n * k" "2 ^ 63 - 1"] by simp
  ultimately show ?thesis using zero s unfolding parse_duration_def Let_def
    by (simp only: if_False if_True simp_thms list.distinct sum.case split: if_split)
      (simp add: not_less [symmetric])
qed

section \<open>Enough fuel\<close>

lemma leading_int_rest: "leading_int x s = Some (v, s1) \<Longrightarrow> length s1 \<le> length s"
  by (induction x s rule: leading_int.induct) (auto split: option.splits if_splits)

lemma leading_fraction_rest:
  "leading_fraction x scale overflow s = (f, scale', s2) \<Longrightarrow> length s2 \<le> length s"
  by (induction x scale overflow s rule: leading_fraction.induct) (auto split: option.splits if_splits)

lemma fraction_rest:
  assumes "(case s1 of
      c # r \<Rightarrow> (if c = CHR ''.''
        then (case leading_fraction 0 1 False r of (f, scale, s2) \<Rightarrow> (f, scale, length s2 \<noteq> length r, s2))
        else (0, 1, False, s1))
    | [] \<Rightarrow> (0, 1, False, s1)) = (f, scale, post, s2)"
  shows "length s2 \<le> length s1"
proof (cases s1)
  case (Cons c r)
  obtain g sc s3 where l: "leading_fraction 0 1 False r = (g, sc, s3)" by (metis surj_pair)
  show ?thesis using assms leading_fraction_rest [OF l] by (auto simp: Cons l split: if_splits)
qed (use assms in simp)

lemma term_rest:
  assumes "(if b then Inl e0 else if p then Inl e1 else if u = [] then Inl e2 else
     case um of None \<Rightarrow> Inl e3
     | Some k \<Rightarrow> (if q k then Inl e4 else if r k then Inl e5 else Inr (x k, t))) = Inr (v, s')"
  shows "u \<noteq> [] \<and> s' = t"
  using assms by (simp split: if_splits option.splits)

lemma duration_term_shorter:
  assumes "duration_term orig s = Inr (v, s')"
  shows "length s' < length s"
proof -
  have "leading_int 0 s \<noteq> None"
  proof
    assume n: "leading_int 0 s = None"
    show False using assms unfolding duration_term_def n option.case by (simp split: if_splits)
  qed
  then obtain n s1 where s1: "leading_int 0 s = Some (n, s1)" by auto
  obtain f scale post s2 where s2: "(case s1 of
      c # r \<Rightarrow> (if c = CHR ''.''
        then (case leading_fraction 0 1 False r of (f, scale, s2) \<Rightarrow> (f, scale, length s2 \<noteq> length r, s2))
        else (0, 1, False, s1))
    | [] \<Rightarrow> (0, 1, False, s1)) = (f, scale, post, s2)" by (rule prod_cases4)
  have l: "length s2 \<le> length s"
    using fraction_rest [OF s2] leading_int_rest [OF s1] by simp
  let ?u = "takeWhile (\<lambda>c. \<not> number_char c) s2"
  define t where "t = drop (length ?u) s2"
  have "?u \<noteq> [] \<and> s' = t"
    using assms unfolding duration_term_def s1 option.case prod.case s2 Let_def t_def [symmetric]
    by (rule term_rest)
  then have "s' = drop (length ?u) s2" "0 < length ?u" "length ?u \<le> length s2"
    by (simp_all add: t_def length_takeWhile_le)
  then have "length s' < length s2" by (simp only: length_drop)
  with l show ?thesis by simp
qed

lemma duration_loop_fuel:
  "length s \<le> n \<Longrightarrow> duration_loop n orig d s = duration_loop (length s) orig d s"
proof (induction "length s" arbitrary: n d s rule: less_induct)
  case less
  show ?case
  proof (cases s)
    case (Cons c r)
    then obtain k where n: "n = Suc k" using less.prems by (cases n) auto
    have "duration_loop k orig d' s' = duration_loop (length r) orig d' s'"
      if "duration_term orig (c # r) = Inr (v, s')" for d' v s'
    proof -
      have "length s' < length s" using duration_term_shorter [OF that] Cons by simp
      moreover have "length s' \<le> k" "length s' \<le> length r"
        using calculation less.prems n Cons by auto
      ultimately show ?thesis using less.hyps by metis
    qed
    then show ?thesis by (auto simp: Cons n Let_def split: sum.split)
  qed simp
qed

end
