(* ===== verification/Influx.thy ===== *)
theory Influx
  imports Poll Sched
begin

text \<open>
  \<^verbatim>\<open>components/storage/stinfluxdb\<close>: the handler that writes the data of a device and records
  its time, the reader of the most recent persisted time, and the pipeline that runs the restoring
  task until it succeeds. The client library is an argument: the write of a point and the query
  are actions in a world, and the iterator of a query is what the code asks of it.
\<close>

section \<open>DataHandler\<close>

text \<open>What is handed to \<^verbatim>\<open>WritePoint\<close>; the time is the UNIX time of the point.\<close>

record point =
  pt_measurement :: string
  pt_tags :: "(string \<times> string) list"
  pt_fields :: JSON
  pt_time :: i64

definition handle_data :: "(rat \<Rightarrow> i64) \<Rightarrow> (point \<Rightarrow> ('s, err option) action) \<Rightarrow> 's system_clock
    \<Rightarrow> string \<Rightarrow> string \<Rightarrow> JSON \<Rightarrow> ('s, err option) action" where
  "handle_data out_of_range write_point clock dataID deviceID js =
     (case js ''timestamp'' of
        None \<Rightarrow> (\<lambda>s. (Ret (Some (Errorf ''influxdb-data-handler: missed timestamp field'' None)), s))
      | Some (JNum timestamp) \<Rightarrow>
          (let unixTimestamp = int64_of_float out_of_range timestamp;
               point = \<lparr>pt_measurement = dataID, pt_tags = [(''device_id'', deviceID)],
                        pt_fields = js, pt_time = unixTimestamp\<rparr>
           in and_then (write_point point) (\<lambda>e. case e of
                Some e \<Rightarrow>
                  (\<lambda>s. (Ret (Some (Errorf ''influxdb-data-handler: failed to write to DB: '' (Some e))), s))
              | None \<Rightarrow> clock_set clock unixTimestamp))
      | Some _ \<Rightarrow>
          (\<lambda>s. (Ret (Some (Errorf ''influxdb-data-handler: invalid type for timestamp'' None)), s)))"

definition influx_handler :: "(rat \<Rightarrow> i64) \<Rightarrow> (point \<Rightarrow> ('s, err option) action) \<Rightarrow> 's system_clock
    \<Rightarrow> 's data_handler" where
  "influx_handler out_of_range write_point clock =
     \<lparr>HandleTelemetry = handle_data out_of_range write_point clock ''telemetry'',
      HandleRegistration = handle_data out_of_range write_point clock ''registration''\<rparr>"

section \<open>SystemClockReader\<close>

text \<open>
  A query answers the text of its error, or an iterator: the error it carries before and after
  \<^verbatim>\<open>Next\<close>, whether there is a record, and the UNIX time of the record (nil is \<^const>\<open>None\<close>).
\<close>

record query_result =
  qr_err :: "err option"
  qr_next :: bool
  qr_next_err :: "err option"
  qr_record :: "i64 option"

definition query_line :: "string \<Rightarrow> string" where
  "query_line l = CHR 0x0A # CHR 0x09 # l"

definition quoted :: "string \<Rightarrow> string" where
  "quoted s = CHR 0x22 # s @ [CHR 0x22]"

definition timestamp_query :: "string \<Rightarrow> string" where
  "timestamp_query bucket =
     query_line (''from(bucket: '' @ quoted bucket @ '')'') @
     query_line ''  |> range(start: -30d)'' @
     query_line (''  |> filter(fn: (r) => r['' @ quoted ''_measurement'' @ ''] == '' @ quoted ''telemetry'' @ '')'') @
     query_line ''  |> aggregateWindow(every: 10m, fn: last, createEmpty: false)'' @
     query_line (''  |> keep(columns: ['' @ quoted ''_time'' @ ''])'') @
     query_line (''  |> sort(columns: ['' @ quoted ''_time'' @ ''], desc: true)'') @
     query_line ''  |> limit(n: 1)''"

definition read_timestamp :: "(string \<Rightarrow> ('s, string + query_result) action) \<Rightarrow> string
    \<Rightarrow> ('s, i64 \<times> err option) action" where
  "read_timestamp query bucket =
     and_then (query (timestamp_query bucket)) (\<lambda>r s. (Ret
       (case r of
          Inl txt \<Rightarrow>
            (if contains txt ''unauthorized'' then (- 1, Some (Status StatusInvalidState))
             else if contains txt ''not found'' then (- 1, Some (Status StatusNoData))
             else (- 1, Some (Errorf ''influxdb: query failed: '' (Some (ExtErr txt)))))
        | Inr result \<Rightarrow>
            (if qr_err result \<noteq> None then (- 1, qr_err result)
             else if \<not> qr_next result
             then (if qr_next_err result \<noteq> None
                   then (- 1, Some (Errorf ''influxdb: query error: '' (qr_next_err result)))
                   else (- 1, Some (Status StatusNoData)))
             else (case qr_record result of
                     None \<Rightarrow> (- 1, Some (Errorf ''influxdb: no valid record returned'' None))
                   | Some t \<Rightarrow> (t, None)))), s))"

section \<open>Pipeline\<close>

record db_params =
  db_URL :: string
  db_Org :: string
  db_Token :: string
  db_Bucket :: string

text \<open>The parameters of the runner, and what it runs: the restorer over the reader.\<close>

definition pipeline_params :: runner_params where
  "pipeline_params =
     \<lparr>UpdateInterval = 5000000000, ExitOnSuccess = True, DisableRecoverOnPanic = False\<rparr>"

definition restoring_task :: "('s, i64 \<times> err option) action \<Rightarrow> (clock_restorer \<times> 's) task" where
  "restoring_task reader = and_then (lift_snd reader) (\<lambda>rd. lift_fst (restorer_run rd))"

definition pipeline_run :: "('s, i64 \<times> err option) action \<Rightarrow> (clock_restorer \<times> 's, bool) action" where
  "pipeline_run reader =
     run_task pipeline_params (runner_task pipeline_params (restoring_task reader))
       (Some (\<lambda>e s. (Ret (), s)))"

text \<open>
  A client of the library for a URL and a token: the blocking writes for an organization and a
  bucket, the queries for an organization, and \<^verbatim>\<open>Close\<close>.
\<close>

record 'w influx_client =
  ic_WritePoint :: "string \<Rightarrow> string \<Rightarrow> point \<Rightarrow> ('w, err option) action"
  ic_Query :: "string \<Rightarrow> string \<Rightarrow> ('w, string + query_result) action"
  ic_Close :: "('w, unit) action"

text \<open>\<open>pl_runner\<close> is one run of the task of the runner, and whether it is the last one.\<close>

record 'w pipeline =
  pl_dbClient :: "'w influx_client"
  pl_restorer :: "(clock_restorer \<times> 'w) system_clock"
  pl_runner :: "(clock_restorer \<times> 'w, bool) action"
  pl_handler :: "(clock_restorer \<times> 'w) data_handler"

definition new_pipeline :: "(rat \<Rightarrow> i64) \<Rightarrow> (string \<Rightarrow> string \<Rightarrow> 'w influx_client) \<Rightarrow> db_params \<Rightarrow> 'w pipeline" where
  "new_pipeline out_of_range new_client params =
     (let dbClient = new_client (db_URL params) (db_Token params);
          write_point = ic_WritePoint dbClient (db_Org params) (db_Bucket params);
          query = ic_Query dbClient (db_Org params);
          reader = read_timestamp query (db_Bucket params);
          restorer = clock_fst restorer_clock
      in \<lparr>pl_dbClient = dbClient, pl_restorer = restorer, pl_runner = pipeline_run reader,
          pl_handler = influx_handler out_of_range (\<lambda>p. lift_snd (write_point p)) restorer\<rparr>)"

definition pipeline_data_handler :: "'w pipeline \<Rightarrow> (clock_restorer \<times> 'w) data_handler" where
  "pipeline_data_handler p = pl_handler p"

definition pipeline_system_clock :: "'w pipeline \<Rightarrow> (clock_restorer \<times> 'w) system_clock" where
  "pipeline_system_clock p = pl_restorer p"

text \<open>\<^verbatim>\<open>Start\<close> starts the runner.\<close>

definition pipeline_start :: "'s runner \<Rightarrow> err option \<times> 's runner" where
  "pipeline_start r = (None, runner_start r)"

text \<open>\<^verbatim>\<open>Stop\<close> closes the client, then waits for the runner, whose error it returns.\<close>

definition pipeline_stop :: "(clock_restorer \<times> 'w) task \<Rightarrow> 'w pipeline \<Rightarrow> (clock_restorer \<times> 'w) task" where
  "pipeline_stop stop_runner p = and_then (lift_snd (ic_Close (pl_dbClient p))) (\<lambda>_. stop_runner)"

lemma new_pipeline_parts:
  "pipeline_data_handler (new_pipeline oor new_client params) =
     influx_handler oor (\<lambda>p. lift_snd (ic_WritePoint (new_client (db_URL params) (db_Token params))
       (db_Org params) (db_Bucket params) p)) (clock_fst restorer_clock)"
  "pipeline_system_clock (new_pipeline oor new_client params) = clock_fst restorer_clock"
  by (simp_all add: pipeline_data_handler_def pipeline_system_clock_def new_pipeline_def Let_def)

section \<open>Data and clock together\<close>

text \<open>The point that is written for a document.\<close>

definition data_point :: "(rat \<Rightarrow> i64) \<Rightarrow> string \<Rightarrow> string \<Rightarrow> JSON \<Rightarrow> point" where
  "data_point out_of_range dataID deviceID js =
     \<lparr>pt_measurement = dataID, pt_tags = [(''device_id'', deviceID)], pt_fields = js,
      pt_time = (case js ''timestamp'' of Some (JNum t) \<Rightarrow> int64_of_float out_of_range t | _ \<Rightarrow> 0)\<rparr>"

lemma handle_data_OkD:
  assumes "handle_data oor (\<lambda>p. lift_snd (write p)) (clock_fst restorer_clock) dataID i js (r, w) =
     (Ret None, (r', w'))"
  shows "write (data_point oor dataID i js) w = (Ret None, w') \<and>
     r' = snd (restorer_set (pt_time (data_point oor dataID i js)) r)"
proof -
  obtain t where t: "js ''timestamp'' = Some (JNum t)"
    using assms by (auto simp: handle_data_def split: option.splits json.splits)
  let ?t = "int64_of_float oor t"
  let ?p = "\<lparr>pt_measurement = dataID, pt_tags = [(''device_id'', i)], pt_fields = js, pt_time = ?t\<rparr>"
  have p: "data_point oor dataID i js = ?p" by (simp add: data_point_def t)
  have "and_then (lift_snd (write ?p)) (\<lambda>e. case e of
      Some e \<Rightarrow> (\<lambda>s. (Ret (Some (Errorf ''influxdb-data-handler: failed to write to DB: '' (Some e))), s))
    | None \<Rightarrow> clock_set (clock_fst restorer_clock) ?t) (r, w) = (Ret None, (r', w'))"
    using assms t by (simp add: handle_data_def Let_def)
  then obtain e r1 w1 where a: "lift_snd (write ?p) (r, w) = (Ret e, (r1, w1))"
    "(case e of
        Some e \<Rightarrow> (\<lambda>s. (Ret (Some (Errorf ''influxdb-data-handler: failed to write to DB: '' (Some e))), s))
      | None \<Rightarrow> clock_set (clock_fst restorer_clock) ?t) (r1, w1) = (Ret None, (r', w'))"
    unfolding and_then_Ret_iff by auto
  then show ?thesis unfolding p
    by (cases e) (auto simp: lift_snd_pair clock_fst_def restorer_clock_def lift_fst_def
        restorer_set_def Let_def)
qed

section \<open>Properties\<close>

text \<open>
  C10. A successful run of a device whose data goes to the pipeline of the database has written the
  registration and the telemetry, in this order and under the identifier of the device, to the
  bucket of the organization that was configured, and every later synchronization that succeeds
  with the clock of the pipeline, whatever has been recorded in between, sets the device to a time
  that is no earlier than the times of both points: the device never produces data again for a
  time that is already stored.
\<close>

theorem stored_data_is_never_overtaken:
  assumes "pd_dataHandler d = pipeline_data_handler (new_pipeline oor new_client params)"
    and "poll_run lib (d, (r, w)) = (Ret None, (d', (r', w')))"
    and "sync_time (clock_snd local) (pipeline_system_clock (new_pipeline oor new_client params)) (clock_snd device)
      (fold (\<lambda>t r. snd (restorer_set t r)) ts r', v) = (Ret None, (r'', v'))"
    and "write = ic_WritePoint (new_client (db_URL params) (db_Token params)) (db_Org params) (db_Bucket params)"
  shows "\<exists>reg tel w1 w2 l v1 v2.
     write (data_point oor ''registration'' (pd_deviceID d') reg) w1 = (Ret None, w2) \<and>
     write (data_point oor ''telemetry'' (pd_deviceID d') tel) w2 = (Ret None, w') \<and>
     clock_get local v = (Ret (Inr l), v1) \<and> clock_set device l v2 = (Ret None, v') \<and>
     sint (pt_time (data_point oor ''registration'' (pd_deviceID d') reg)) \<le> sint l \<and>
     sint (pt_time (data_point oor ''telemetry'' (pd_deviceID d') tel)) \<le> sint l"
proof -
  obtain reg tel r1 w1 r2 w2 where h:
    "HandleRegistration (pd_dataHandler d) (pd_deviceID d') reg (r1, w1) = (Ret None, (r2, w2))"
    "HandleTelemetry (pd_dataHandler d) (pd_deviceID d') tel (r2, w2) = (Ret None, (r', w'))"
    using assms(2) by (rule poll_run_OkE) auto
  let ?reg = "data_point oor ''registration'' (pd_deviceID d') reg"
  let ?tel = "data_point oor ''telemetry'' (pd_deviceID d') tel"
  have d: "pd_dataHandler d = influx_handler oor (\<lambda>p. lift_snd (write p)) (clock_fst restorer_clock)"
    by (simp add: assms(1,4) new_pipeline_parts)
  have reg: "write ?reg w1 = (Ret None, w2)" "r2 = snd (restorer_set (pt_time ?reg) r1)"
    using handle_data_OkD [of oor "write" "''registration''" "pd_deviceID d'" reg r1 w1 r2 w2] h(1) d
    by (simp_all add: influx_handler_def)
  have tel: "write ?tel w2 = (Ret None, w')" "r' = snd (restorer_set (pt_time ?tel) r2)"
    using handle_data_OkD [of oor "write" "''telemetry''" "pd_deviceID d'" tel r2 w2 r' w'] h(2) d
    by (simp_all add: influx_handler_def)
  let ?ts = "pt_time ?reg # pt_time ?tel # ts"
  have sync: "sync_time (clock_snd local) (clock_fst \<lparr>clock_set = restorer_set, clock_get = restorer_get\<rparr>)
      (clock_snd device) (restorer.record_all ?ts r1, v) = (Ret None, (r'', v'))"
    using assms(3) reg(2) tel(2) by (simp add: restorer.record_all_def restorer_clock_def new_pipeline_parts)
  from restorer.sync_after_record [OF _ sync, of "pt_time ?reg"]
    restorer.sync_after_record [OF _ sync, of "pt_time ?tel"]
  obtain l v1 v2 where "clock_get local v = (Ret (Inr l), v1)" "clock_set device l v2 = (Ret None, v')"
    "sint (pt_time ?reg) \<le> sint l" "sint (pt_time ?tel) \<le> sint l" by auto
  with reg(1) tel(1) show ?thesis by blast
qed

text \<open>The world of the sample is the points of a bucket and the clock of a device.\<close>

definition point_writer :: "point \<Rightarrow> (point list, err option) action" where
  "point_writer p ps = (Ret None, ps @ [p])"

definition sample_client :: "string \<Rightarrow> string \<Rightarrow> (point list \<times> i64) influx_client" where
  "sample_client url token =
     \<lparr>ic_WritePoint = (\<lambda>org bucket p. lift_fst (point_writer p)),
      ic_Query = (\<lambda>org query s. (Ret (Inl ''not found''), s)), ic_Close = (\<lambda>s. (Ret (), s))\<rparr>"

definition sample_db :: db_params where
  "sample_db = \<lparr>db_URL = ''http://db'', db_Org = ''o'', db_Token = ''t'', db_Bucket = ''b''\<rparr>"

definition stored_device :: "(clock_restorer \<times> point list \<times> i64) poll_device" where
  "stored_device =
     new_poll_device (\<lambda>s. (Ret (Inr [0]), s)) (\<lambda>s. (Ret (Inr [1]), s))
       (pipeline_data_handler (new_pipeline (\<lambda>_. 0) sample_client sample_db))
       (\<lambda>s. (Ret None, s)) basic_verify_time"

definition fixed_clock :: "i64 \<Rightarrow> (point list \<times> i64) system_clock" where
  "fixed_clock t = \<lparr>clock_set = (\<lambda>u v. (Ret None, v)), clock_get = (\<lambda>v. (Ret (Inr t), v))\<rparr>"

definition device_clock :: "(point list \<times> i64) system_clock" where
  "device_clock = clock_snd \<lparr>clock_set = (\<lambda>u v. (Ret None, u)), clock_get = (\<lambda>v. (Ret (Inr v), v))\<rparr>"

lemmas stored_device_defs = stored_device_def point_writer_def sample_lib_def new_poll_device_def
  basic_verify_time_def influx_handler_def handle_data_def poll_run_def fetch_registration_def
  fetch_telemetry_def handle_fetched_def parse_device_id_def validate_timestamp_def and_then_def
  lift_snd_def lift_fst_def int64_of_float_def clock_fst_def restorer_clock_def restorer_set_def
  new_pipeline_parts sample_client_def sample_db_def

theorem stored_data_is_never_overtaken_witness:
  "\<exists>d' r' ps' r'' v'. poll_run sample_lib (stored_device, (new_clock_restorer, ([], 5))) = (Ret None, (d', (r', (ps', 5)))) \<and>
     length ps' = 2 \<and>
     sync_time (clock_snd (fixed_clock 100)) (pipeline_system_clock (new_pipeline (\<lambda>_. 0) sample_client sample_db))
       (clock_snd device_clock) (fold (\<lambda>t r. snd (restorer_set t r)) [9] r', (ps', 5)) = (Ret None, (r'', (ps', v'))) \<and>
     sint (pt_time (ps' ! 1)) \<le> sint v'"
proof -
  let ?d = "stored_device\<lparr>pd_deviceID := ''0xAB''\<rparr>"
  let ?reg = "\<lparr>pt_measurement = ''registration'', pt_tags = [(''device_id'', ''0xAB'')],
      pt_fields = [''timestamp'' \<mapsto> JNum 7, ''device_id'' \<mapsto> JStr ''0xAB''], pt_time = 7\<rparr>"
  let ?tel = "\<lparr>pt_measurement = ''telemetry'', pt_tags = [(''device_id'', ''0xAB'')],
      pt_fields = [''timestamp'' \<mapsto> JNum 8, ''temp'' \<mapsto> JNum 21], pt_time = 8\<rparr>"
  let ?r = "\<lparr>cr_restored = True, cr_timestamp = 8\<rparr>" and ?pl = "new_pipeline (\<lambda>_. 0) sample_client sample_db"
  have run: "poll_run sample_lib (stored_device, (new_clock_restorer, ([], 5))) =
      (Ret None, (?d, (?r, ([?reg, ?tel], 5))))"
    by (simp add: stored_device_defs new_clock_restorer_def)
  have sync: "sync_time (clock_snd (fixed_clock 100)) (pipeline_system_clock ?pl) (clock_snd device_clock)
       (fold (\<lambda>t r. snd (restorer_set t r)) [9] ?r, ([?reg, ?tel], 5)) =
       (Ret None, (\<lparr>cr_restored = True, cr_timestamp = 9\<rparr>, ([?reg, ?tel], 100)))"
    by (simp add: new_pipeline_parts sync_time_def and_then_def clock_snd_def clock_fst_def fixed_clock_def
        device_clock_def restorer_clock_def restorer_get_def restorer_set_def lift_fst_def lift_snd_def)
  have h: "pd_dataHandler stored_device = pipeline_data_handler ?pl"
    by (simp add: stored_device_def new_poll_device_def)
  from stored_data_is_never_overtaken [OF h run sync refl]
  obtain tel w2 l v2 where
    "ic_WritePoint (sample_client (db_URL sample_db) (db_Token sample_db)) (db_Org sample_db) (db_Bucket sample_db)
      (data_point (\<lambda>_. 0) ''telemetry'' (pd_deviceID ?d) tel) w2 = (Ret None, ([?reg, ?tel], 5))"
    "clock_set device_clock l v2 = (Ret None, ([?reg, ?tel], 100))"
    "sint (pt_time (data_point (\<lambda>_. 0) ''telemetry'' (pd_deviceID ?d) tel)) \<le> sint l" by blast
  then have "sint (pt_time ([?reg, ?tel] ! 1)) \<le> sint (100 :: i64)"
    by (cases w2; cases v2)
      (auto simp: sample_client_def lift_fst_def point_writer_def device_clock_def clock_snd_def lift_snd_def)
  with run sync show ?thesis by (intro exI conjI) (assumption | simp)+
qed

text \<open>
  The runs of the runner's task, one for each element of the list, until one is the last; the
  elements are the times that handlers record on the restorer before that run.
\<close>

fun restoring_runs ::
  "('s, i64 \<times> err option) action \<Rightarrow> i64 list list \<Rightarrow> (clock_restorer \<times> 's, bool) action" where
  "restoring_runs reader [] s = (Ret False, s)"
| "restoring_runs reader (ts # tss) (r, w) =
     and_then (pipeline_run reader) (\<lambda>ends. if ends then (\<lambda>s. (Ret True, s)) else restoring_runs reader tss)
       (fold restorer_op_run (map SetTimestamp ts) r, w)"

text \<open>Reads of the storage that return errors, other than that there is no data.\<close>

fun failed_reads :: "('s, i64 \<times> err option) action \<Rightarrow> nat \<Rightarrow> 's \<Rightarrow> 's \<Rightarrow> bool" where
  "failed_reads reader 0 w w' \<longleftrightarrow> w' = w"
| "failed_reads reader (Suc n) w w' \<longleftrightarrow>
     (\<exists>t e w1. reader w = (Ret (t, Some e), w1) \<and> e \<noteq> Status StatusNoData \<and> failed_reads reader n w1 w')"

text \<open>What one run does, by the outcome of its read.\<close>

lemma pipeline_run_outcome:
  "pipeline_run reader (r, w) =
     (case reader w of
        (Ret (t, e), w') \<Rightarrow>
          if failed_restoring (RestorerRun (t, e)) then (Ret False, (r, w'))
          else (Ret True, (restorer_op_run (RestorerRun (t, e)) r, w'))
      | (Panic, w') \<Rightarrow> (Ret True, (r, w'))
      | (Hang, w') \<Rightarrow> (Hang, (r, w')))"
  by (auto simp: pipeline_run_def run_task_def runner_task_def pipeline_params_def crash_task_run_def
      restoring_task_def restorer_run_def and_then_def lift_snd_def lift_fst_def
      split: prod.splits outcome.splits option.splits if_splits)

text \<open>
  C36. When the restoring ends. The runner stops after a run exactly when all reads before returned
  errors and this one did not, and then one of two things has happened. The read succeeded, or found
  no data: then the clock is restored, to the time that was read unless a handler has recorded a
  time before. Or the read panicked: the crash counts as a success, so the runner stops too, without
  a time in the clock unless a handler has recorded one, and nothing reads the storage again.
\<close>

theorem restoring_ends:
  "restoring_runs reader tss (r, w) = (Ret True, (r', w')) \<longleftrightarrow>
     (\<exists>n < length tss. \<exists>v.
        let recorded = fold restorer_op_run (map SetTimestamp (concat (take (Suc n) tss))) r
        in failed_reads reader n w v \<and>
           ((\<exists>t e. reader v = (Ret (t, e), w') \<and> e \<in> {None, Some (Status StatusNoData)} \<and>
                 r' = (if cr_restored recorded then recorded
                       else recorded\<lparr>cr_restored := True, cr_timestamp := t\<rparr>)) \<or>
            (reader v = (Panic, w') \<and> r' = recorded)))"
  (is "_ \<longleftrightarrow> (\<exists>n < length tss. \<exists>v. ?ends tss r w n v)")
proof (induction tss arbitrary: r w)
  case (Cons ts tss)
  let ?r = "fold restorer_op_run (map SetTimestamp ts) r"
  have first: "?ends (ts # tss) r w 0 v \<longleftrightarrow> v = w \<and>
      ((\<exists>t e. reader w = (Ret (t, e), w') \<and> \<not> failed_restoring (RestorerRun (t, e)) \<and>
            r' = restorer_op_run (RestorerRun (t, e)) ?r) \<or> (reader w = (Panic, w') \<and> r' = ?r))" for v
    by (auto simp: Let_def restorer_run_def)
  have later: "?ends (ts # tss) r w (Suc n) v \<longleftrightarrow>
      (\<exists>t e w1. reader w = (Ret (t, Some e), w1) \<and> e \<noteq> Status StatusNoData \<and> ?ends tss ?r w1 n v)" for n v
    by (auto simp: Let_def)
  have "(\<exists>n < length (ts # tss). \<exists>v. ?ends (ts # tss) r w n v) \<longleftrightarrow>
      (\<exists>v. ?ends (ts # tss) r w 0 v) \<or> (\<exists>n < length tss. \<exists>v. ?ends (ts # tss) r w (Suc n) v)"
    by (simp only: length_Cons Ex_less_Suc2)
  also have "\<dots> \<longleftrightarrow> restoring_runs reader (ts # tss) (r, w) = (Ret True, (r', w'))"
    unfolding first later
    by (cases "reader w") (auto simp: pipeline_run_outcome and_then_def Cons.IH split: outcome.splits)
  finally show ?case by simp
qed simp

end
