(* ===== verification/Zeroconf.thy ===== *)
theory Zeroconf
  imports Resolve Sched
begin

text \<open>
  \<^verbatim>\<open>sysmdns.ZeroconfBrowser\<close> and \<^verbatim>\<open>sysmdns.ZeroconfServer\<close>: the wrappers of the zeroconf
  library that turn what the library finds into services for a handler, and that register the
  services of the program. What the library answers is an argument.
\<close>

section \<open>The browser\<close>

record service_entry =
  se_Instance :: string
  se_Service :: string
  se_HostName :: string
  se_Port :: i64
  se_Text :: "string list"
  se_AddrIPv4 :: "ip list"
  se_AddrIPv6 :: "ip list"

definition entry_service :: "service_entry \<Rightarrow> service" where
  "entry_service entry =
     \<lparr>svc_Instance = se_Instance entry, svc_Name = se_Service entry, svc_Hostname = se_HostName entry,
      svc_Port = se_Port entry, svc_TxtRecords = se_Text entry, svc_AddrsIPv4 = se_AddrIPv4 entry,
      svc_AddrsIPv6 = se_AddrIPv6 entry\<rparr>"

text \<open>A nil entry, which a closed channel delivers, is dereferenced.\<close>

definition handle_entry :: "'s service_handler \<Rightarrow> service_entry option \<Rightarrow> ('s, unit) action" where
  "handle_entry handler entry =
     (case entry of
        None \<Rightarrow> (\<lambda>s. (Panic, s))
      | Some entry \<Rightarrow> and_then (handler (entry_service entry)) (\<lambda>_ s. (Ret (), s)))"

text \<open>
  What the \<^verbatim>\<open>select\<close> of the loop takes, one after the other; when nothing more comes it waits.
\<close>

datatype browse_event = Received "service_entry option" | ContextDone

fun browse_loop :: "'s service_handler \<Rightarrow> browse_event list \<Rightarrow> 's task" where
  "browse_loop handler [] s = (Hang, s)"
| "browse_loop handler (Received entry # events) s =
     and_then (handle_entry handler entry) (\<lambda>_. browse_loop handler events) s"
| "browse_loop handler (ContextDone # events) s = (Ret None, s)"

text \<open>
  The options of a lookup; \<open>'o\<close> are the configuration options of the library.
\<close>

record 'o browser_params =
  bp_Service :: string
  bp_Domain :: string
  bp_Timeout :: i64
  bp_Opts :: "'o list"

record ('o, 's) zeroconf_browser =
  zb_params :: "'o browser_params"
  zb_handler :: "'s service_handler"

definition new_zeroconf_browser :: "'s service_handler \<Rightarrow> 'o browser_params \<Rightarrow> ('o, 's) zeroconf_browser" where
  "new_zeroconf_browser handler params = \<lparr>zb_params = params, zb_handler = handler\<rparr>"

text \<open>
  The library: whether there is a resolver for the options, and what a lookup under a context
  with a timeout delivers for a service and a domain.
\<close>

record ('o, 'r) zeroconf_lib =
  zl_NewResolver :: "'o list \<Rightarrow> err + 'r"
  zl_Browse :: "'r \<Rightarrow> i64 \<Rightarrow> string \<Rightarrow> string \<Rightarrow> err + browse_event list"

definition browser_run :: "('o, 'r) zeroconf_lib \<Rightarrow> ('o, 's) zeroconf_browser \<Rightarrow> 's task" where
  "browser_run lib b =
     (case zl_NewResolver lib (bp_Opts (zb_params b)) of
        Inl e \<Rightarrow> (\<lambda>s. (Ret (Some e), s))
      | Inr resolver \<Rightarrow>
          (case zl_Browse lib resolver (bp_Timeout (zb_params b)) (bp_Service (zb_params b))
                  (bp_Domain (zb_params b)) of
             Inl e \<Rightarrow> (\<lambda>s. (Ret (Some e), s))
           | Inr events \<Rightarrow> browse_loop (zb_handler b) events))"

definition browser_stop :: "'s task" where
  "browser_stop s = (Ret None, s)"

section \<open>The server\<close>

text \<open>
  The registered servers are appended to what the component has; \<open>register\<close> is
  \<^verbatim>\<open>zeroconf.RegisterProxy\<close> for a service, \<open>shutdown\<close> that of a registered server.
\<close>

fun zeroconf_start :: "(service \<Rightarrow> ('s, err + 'h) action) \<Rightarrow> service list \<Rightarrow> ('h list \<times> 's) task" where
  "zeroconf_start register [] hs = (Ret None, hs)"
| "zeroconf_start register (service # services) hs =
     and_then (lift_snd (register service)) (\<lambda>r. case r of
        Inl e \<Rightarrow> (\<lambda>hs. (Ret (Some e), hs))
      | Inr h \<Rightarrow> (\<lambda>(servers, s). zeroconf_start register services (servers @ [h], s))) hs"

fun zeroconf_stop :: "('h \<Rightarrow> ('s, unit) action) \<Rightarrow> 'h list \<Rightarrow> 's task" where
  "zeroconf_stop shutdown [] s = (Ret None, s)"
| "zeroconf_stop shutdown (h # servers) s =
     and_then (shutdown h) (\<lambda>_. zeroconf_stop shutdown servers) s"

section \<open>What a lookup does\<close>

lemma handle_entry_Ret:
  "handler (entry_service e) s = (Ret r, s') \<Longrightarrow> handle_entry handler (Some e) s = (Ret (), s')"
  by (simp add: handle_entry_def outcome_simps)

lemma browse_loop_entries:
  assumes "\<And>svc s. \<exists>e s'. handler svc s = (Ret e, s')"
  shows "browse_loop handler (map (\<lambda>e. Received (Some e)) entries @ ContextDone # rest) s =
     (Ret None, fold (\<lambda>e s. snd (handler (entry_service e) s)) entries s)"
proof (induction entries arbitrary: s)
  case (Cons e es)
  obtain r s' where "handler (entry_service e) s = (Ret r, s')" using assms by blast
  with Cons handle_entry_Ret [of handler e s r s'] show ?case by (simp add: outcome_simps)
qed simp

text \<open>The library finds these entries before the timeout of the lookup.\<close>

definition finds :: "('o, 'r) zeroconf_lib \<Rightarrow> 'o browser_params \<Rightarrow> service_entry list \<Rightarrow> bool" where
  "finds lib params entries \<longleftrightarrow>
     (\<exists>resolver. zl_NewResolver lib (bp_Opts params) = Inr resolver \<and>
        zl_Browse lib resolver (bp_Timeout params) (bp_Service params) (bp_Domain params) =
          Inr (map (\<lambda>e. Received (Some e)) entries @ [ContextDone]))"

lemma browser_run_finds:
  "finds lib params entries \<Longrightarrow>
   browser_run lib (new_zeroconf_browser handler params) =
   browse_loop handler (map (\<lambda>e. Received (Some e)) entries @ [ContextDone])"
  by (auto simp: finds_def browser_run_def new_zeroconf_browser_def)

text \<open>
  A lookup passes every entry it receives before its timeout to every handler, in the order
  of the entries and then of the handlers, whatever errors the handlers report, and then returns
  without an error.
\<close>

theorem lookup_reaches_every_handler:
  assumes "\<forall>h \<in> set handlers. \<forall>svc s. \<exists>e s'. h svc s = (Ret e, s')" and "finds lib params entries"
  shows "browser_run lib (new_zeroconf_browser (fanout_handle_service handlers) params) s =
     (Ret None, fold (\<lambda>e s. fold (\<lambda>h s. snd (h (entry_service e) s)) handlers s) entries s)"
proof -
  have h: "fanout_handle_service handlers svc s = (Ret None, fold (\<lambda>h s. snd (h svc s)) handlers s)" for svc s
    using assms(1) by (intro fanout_handle_service_runs_all) blast
  then show ?thesis by (simp add: browser_run_finds [OF assms(2)] browse_loop_entries)
qed

definition found_entry :: service_entry where
  "found_entry = \<lparr>se_Instance = ''b'', se_Service = ''_http._tcp'', se_HostName = ''plant.local.'',
     se_Port = 80, se_Text = [], se_AddrIPv4 = [[10, 0, 0, 7]], se_AddrIPv6 = []\<rparr>"

text \<open>A library that finds the same entries in every lookup for HTTP services.\<close>

definition sample_browse_params :: "unit browser_params" where
  "sample_browse_params = \<lparr>bp_Service = ''_http._tcp'', bp_Domain = ''local'', bp_Timeout = 10, bp_Opts = []\<rparr>"

definition sample_zeroconf :: "service_entry list \<Rightarrow> (unit, unit) zeroconf_lib" where
  "sample_zeroconf entries =
     \<lparr>zl_NewResolver = (\<lambda>_. Inr ()),
      zl_Browse = (\<lambda>_ timeout service domain. Inr
        (if service = ''_http._tcp'' \<and> domain = ''local'' then map (\<lambda>e. Received (Some e)) entries @ [ContextDone]
         else [ContextDone]))\<rparr>"

lemma sample_finds: "finds (sample_zeroconf entries) sample_browse_params entries"
  by (simp add: finds_def sample_zeroconf_def sample_browse_params_def)

theorem lookup_reaches_every_handler_witness:
  "\<exists>s. browser_run (sample_zeroconf [found_entry]) (new_zeroconf_browser
       (fanout_handle_service [\<lambda>svc s. (Ret (Some IoEOF), s), resolve_handle_service]) sample_browse_params)
       (resolve_add ''plant.local'' new_resolve_store) = (Ret None, s) \<and>
     get_addr ''plant.local'' s = Inr (IPAddr [10, 0, 0, 7])"
proof -
  let ?hs = "[\<lambda>svc s. (Ret (Some IoEOF), s), resolve_handle_service]"
  let ?s = "resolve_add ''plant.local'' new_resolve_store"
  have "\<exists>e s'. resolve_handle_service svc s = (Ret e, s')" for svc s
    by (simp add: resolve_handle_service_def Let_def)
  then have "\<forall>h \<in> set ?hs. \<forall>svc s. \<exists>e s'. h svc s = (Ret e, s')" by simp
  from lookup_reaches_every_handler [OF this sample_finds, of "[found_entry]" ?s]
  have "browser_run (sample_zeroconf [found_entry]) (new_zeroconf_browser (fanout_handle_service ?hs)
      sample_browse_params) ?s = (Ret None, snd (resolve_handle_service (entry_service found_entry) ?s))"
    by simp
  then show ?thesis
    by (simp add: resolve_handle_service_def entry_service_def found_entry_def trim_suffix_def
        has_suffix_def handle_resolve_def resolve_add_def new_resolve_store_def get_addr_def Let_def)
qed

text \<open>A nil entry panics; the runner of the browser recovers and takes the lookup for a success.\<close>

lemma nil_entry_panics: "browse_loop handler (Received None # rest) s = (Panic, s)"
  by (simp add: handle_entry_def and_then_def)

end
