(* ===== verification/Log.thy ===== *)
theory Log
  imports Prelude
begin

text \<open>
  \<^verbatim>\<open>components/system/syscore/log.go\<close>: the three loggers and \<^verbatim>\<open>SetLogFile\<close>. The texts that are
  logged are no part of the model: nothing in the program reads them.
\<close>

datatype log_output = Stderr | LogFile string

record logger =
  lg_prefix :: string
  lg_output :: log_output
  lg_flags :: nat

text \<open>The flags of the package \<^verbatim>\<open>log\<close>.\<close>

definition Ldate :: nat where "Ldate = 1"

definition Ltime :: nat where "Ltime = 2"

definition Lmicroseconds :: nat where "Lmicroseconds = 4"

definition Lshortfile :: nat where "Lshortfile = 16"

definition LUTC :: nat where "LUTC = 32"

definition LstdFlags :: nat where "LstdFlags = Ldate + Ltime"

definition default_loggers :: "logger list" where
  "default_loggers =
     [\<lparr>lg_prefix = ''inf: '', lg_output = Stderr, lg_flags = LstdFlags\<rparr>,
      \<lparr>lg_prefix = ''wrn: '', lg_output = Stderr, lg_flags = LstdFlags\<rparr>,
      \<lparr>lg_prefix = ''err: '', lg_output = Stderr, lg_flags = LstdFlags\<rparr>]"

text \<open>The system opens the file, creating it, to append to it; it may fail.\<close>

definition set_log_file :: "(string \<Rightarrow> err option) \<Rightarrow> string \<Rightarrow> (logger list, err option) action" where
  "set_log_file open_file path ls =
     (case open_file path of
        Some e \<Rightarrow> (Ret (Some e), ls)
      | None \<Rightarrow>
          (Ret None, map (\<lambda>l. l\<lparr>lg_output := LogFile path,
             lg_flags := LUTC + Ldate + Ltime + Lmicroseconds + Lshortfile\<rparr>) ls))"

lemma set_log_file_outputs:
  "set_log_file open_file path ls = (Ret e, ls') \<Longrightarrow>
   map lg_prefix ls' = map lg_prefix ls \<and>
   (if e = None then \<forall>l \<in> set ls'. lg_output l = LogFile path else ls' = ls)"
  by (auto simp: set_log_file_def split: option.splits)

end
