(* ===== verification/App.thy ===== *)
theory App
  imports GoTime CacheStore StoreHttp Influx Zeroconf Log
begin

text \<open>
  \<^verbatim>\<open>projects/main/main.go\<close>: the options, the validation before the start, and the wiring of
  the parts into the two fan-outs, in the order of the code. What the process asks the system is
  a record of answers (\<open>env\<close>): whether a path is a directory, the network interfaces, whether
  the database opens, the listening socket. The parts themselves are modelled in the other
  theories; here they are names, with the intervals their runners are given.
\<close>

section \<open>Options\<close>

record app_options =
  ao_logDir :: string
  ao_cacheDir :: string
  ao_port :: i64
  ao_influxdb :: db_params
  ao_fetchTimeout :: string
  ao_fetchInterval :: string
  ao_inactive_disable :: bool
  ao_inactive_maxInterval :: string
  ao_inactive_updateInterval :: string
  ao_timeSync_disable :: bool
  ao_maxDriftInterval :: string
  ao_browse_interval :: string
  ao_browse_timeout :: string
  ao_browse_iface :: string
  ao_autodiscovery_disable :: bool
  ao_server_disable :: bool
  ao_server_hostname :: string
  ao_server_iface :: string

text \<open>The options of a command line without flags.\<close>

definition default_options :: app_options where
  "default_options =
     \<lparr>ao_logDir = '''', ao_cacheDir = '''', ao_port = 0,
      ao_influxdb = \<lparr>db_URL = '''', db_Org = '''', db_Token = '''', db_Bucket = ''''\<rparr>,
      ao_fetchTimeout = ''5s'', ao_fetchInterval = ''5s'', ao_inactive_disable = False,
      ao_inactive_maxInterval = ''2m'', ao_inactive_updateInterval = ''10s'',
      ao_timeSync_disable = False, ao_maxDriftInterval = ''5s'', ao_browse_interval = ''40s'',
      ao_browse_timeout = ''10s'', ao_browse_iface = '''', ao_autodiscovery_disable = False,
      ao_server_disable = False, ao_server_hostname = ''device-hub'', ao_server_iface = ''''\<rparr>"

section \<open>The system\<close>

record iface =
  if_Name :: string
  if_Flags :: u64

definition FlagUp :: u64 where "FlagUp = 1"

definition FlagLoopback :: u64 where "FlagLoopback = 4"

definition FlagMulticast :: u64 where "FlagMulticast = 16"

text \<open>
  \<open>env_Stat\<close> tells whether a path is a directory; \<open>env_OpenFile\<close> opens a file for appending; \<open>env_Listen\<close> resolves an address and binds
  it, and answers the text and the port of the bound address.
\<close>

record env =
  env_Stat :: "string \<Rightarrow> err + bool"
  env_OpenFile :: "string \<Rightarrow> err option"
  env_Interfaces :: "err + iface list"
  env_OpenDB :: "string \<Rightarrow> err option"
  env_Listen :: "string \<Rightarrow> err + (string \<times> i64)"

text \<open>\<^verbatim>\<open>path.Join\<close> of a directory and a name: the joined path, cleaned.\<close>

definition clean_step :: "bool \<Rightarrow> string list \<Rightarrow> string \<Rightarrow> string list" where
  "clean_step rooted stack c =
     (if c = '''' \<or> c = ''.'' then stack
      else if c = ''..'' then
        (if stack \<noteq> [] \<and> last stack \<noteq> ''..'' then butlast stack
         else if rooted then stack else stack @ [c])
      else stack @ [c])"

definition path_clean :: "string \<Rightarrow> string" where
  "path_clean p =
     (let rooted = has_prefix p ''/'';
          text = (if rooted then ''/'' else '''') @
                 join_char CHR ''/'' (foldl (clean_step rooted) [] (split_char CHR ''/'' p))
      in if text = '''' then ''.'' else text)"

definition path_join :: "string \<Rightarrow> string \<Rightarrow> string" where
  "path_join dir name = (if dir = '''' then path_clean name else path_clean (dir @ ''/'' @ name))"

section \<open>Network interfaces\<close>

fun filter_loop :: "(iface \<Rightarrow> bool) \<Rightarrow> iface list \<Rightarrow> iface list" where
  "filter_loop fn [] = []"
| "filter_loop fn (i # is) =
     (if if_Flags i AND FlagLoopback \<noteq> 0 \<or> if_Flags i AND FlagUp = 0 then filter_loop fn is
      else if \<not> fn i then filter_loop fn is
      else i # filter_loop fn is)"

definition filter_interfaces :: "env \<Rightarrow> (iface \<Rightarrow> bool) \<Rightarrow> err + iface list" where
  "filter_interfaces env fn =
     (case env_Interfaces env of Inl e \<Rightarrow> Inl e | Inr interfaces \<Rightarrow> Inr (filter_loop fn interfaces))"

text \<open>The predicate of \<^verbatim>\<open>parseIfaceOption\<close>; \<^const>\<open>None\<close> is the nil slice of allowed names.\<close>

definition iface_allowed :: "string list option \<Rightarrow> iface \<Rightarrow> bool" where
  "iface_allowed allowed iface =
     (if if_Flags iface AND FlagMulticast = 0 then False
      else case allowed of
        None \<Rightarrow> True
      | Some names \<Rightarrow> list_ex (\<lambda>name. name = if_Name iface) names)"

definition parse_iface_option :: "env \<Rightarrow> string \<Rightarrow> err + iface list" where
  "parse_iface_option env opt =
     (let allowed = (if opt \<noteq> '''' then Some (split_char CHR '','' opt) else None)
      in if allowed = Some [] then Inl (Errorf ''mDNS network interface list has invalid format'' None)
         else filter_interfaces env (iface_allowed allowed))"

section \<open>Validation\<close>

text \<open>The state of the validation is the loggers, which the last step but one redirects.\<close>

definition require :: "bool \<Rightarrow> string \<Rightarrow> 's task \<Rightarrow> 's task" where
  "require ok msg rest = (if ok then rest else (\<lambda>s. (Ret (Some (Errorf msg None)), s)))"

definition require_dir :: "env \<Rightarrow> string \<Rightarrow> string \<Rightarrow> 's task \<Rightarrow> 's task" where
  "require_dir env path msg rest =
     (case env_Stat env path of
        Inl e \<Rightarrow> (\<lambda>s. (Ret (Some e), s))
      | Inr is_dir \<Rightarrow> require is_dir msg rest)"

definition prepare_environment :: "env \<Rightarrow> app_options \<Rightarrow> logger list task" where
  "prepare_environment env opts =
     require (db_URL (ao_influxdb opts) \<noteq> '''') ''influxdb URL is required'' (
     require (db_Org (ao_influxdb opts) \<noteq> '''') ''influxdb org is required'' (
     require (db_Bucket (ao_influxdb opts) \<noteq> '''') ''influxdb bucket is required'' (
     require (db_Token (ao_influxdb opts) \<noteq> '''') ''influxdb token is required'' (
     (\<lambda>rest. if ao_cacheDir opts \<noteq> ''''
             then require_dir env (ao_cacheDir opts) ''cache path should be a directory'' rest
             else rest) (
     require (ao_logDir opts \<noteq> '''') ''log directory is required'' (
     require_dir env (ao_logDir opts) ''log path should be a directory'' (
     and_then (set_log_file (env_OpenFile env) (path_join (ao_logDir opts) ''app.log'')) (\<lambda>e. case e of
        Some e \<Rightarrow> (\<lambda>s. (Ret (Some e), s))
      | None \<Rightarrow>
          (if \<not> ao_server_disable opts
           then require (ao_server_hostname opts \<noteq> '''') ''mDNS server hostname can't be empty''
                  (\<lambda>s. (Ret None, s))
           else (\<lambda>s. (Ret None, s)))))))))))"

section \<open>The HTTP server\<close>

record http_server =
  hs_url :: string
  hs_port :: i64

definition new_server :: "env \<Rightarrow> string \<Rightarrow> i64 \<Rightarrow> err + http_server" where
  "new_server env host port =
     (let host = (if host = '''' then ''0.0.0.0'' else host)
      in case env_Listen env (host @ '':'' @ format_int port) of
           Inl e \<Rightarrow> Inl e
         | Inr (text, bound) \<Rightarrow>
             Inr \<lparr>hs_url = ''http://'' @ text, hs_port = (if port = 0 then bound else port)\<rparr>)"

section \<open>Wiring\<close>

text \<open>The option \<^verbatim>\<open>zeroconf.SelectIfaces\<close>, and the parameters of the browser.\<close>

datatype client_option = SelectIfaces "iface list"

definition browse_params :: "i64 \<Rightarrow> iface list \<Rightarrow> client_option browser_params" where
  "browse_params timeout ifaces =
     \<lparr>bp_Service = service_name 0 0, bp_Domain = ''local'', bp_Timeout = timeout, bp_Opts = [SelectIfaces ifaces]\<rparr>"

text \<open>
  The parts of the application; a runner with its interval, the cache store with its parameters,
  the browser with its parameters, the mDNS server with its service and interfaces.
\<close>

datatype part =
    MdnsBrowser "client_option browser_params"
  | MdnsBrowserRunner i64
  | BboltDatabase string
  | InfluxPipeline db_params
  | DeviceCacheStore cache_store_params
  | AliveMonitorRunner i64
  | HttpServer http_server
  | MdnsServer service "iface list"

record app_pipeline =
  ap_stopper :: "(string \<times> part) list"
  ap_starter :: "part list"

definition new_app_pipeline :: app_pipeline where
  "new_app_pipeline = \<lparr>ap_stopper = [], ap_starter = []\<rparr>"

text \<open>\<^verbatim>\<open>p.stopper.Add(name, x)\<close> and \<^verbatim>\<open>p.starter.Add(x)\<close>.\<close>

definition add_stopper :: "string \<Rightarrow> part \<Rightarrow> app_pipeline \<Rightarrow> app_pipeline" where
  "add_stopper name x p = p\<lparr>ap_stopper := ap_stopper p @ [(name, x)]\<rparr>"

definition add_starter :: "part \<Rightarrow> app_pipeline \<Rightarrow> app_pipeline" where
  "add_starter x p = p\<lparr>ap_starter := ap_starter p @ [x]\<rparr>"

text \<open>A step of the wiring: an error or a value, and the pipeline. The first error ends it.\<close>

type_synonym 'a wire = "app_pipeline \<Rightarrow> (err + 'a) \<times> app_pipeline"

definition ok_then :: "'a wire \<Rightarrow> ('a \<Rightarrow> 'b wire) \<Rightarrow> 'b wire" where
  "ok_then m f p = (case m p of (Inl e, p) \<Rightarrow> (Inl e, p) | (Inr a, p) \<Rightarrow> f a p)"

definition result :: "err + 'a \<Rightarrow> 'a wire" where
  "result r p = (r, p)"

definition modify :: "(app_pipeline \<Rightarrow> app_pipeline) \<Rightarrow> unit wire" where
  "modify f p = (Inr (), f p)"

text \<open>\<^verbatim>\<open>time.ParseDuration\<close> of an option with the lower bound that follows it.\<close>

definition parse_interval :: "string \<Rightarrow> i64 \<Rightarrow> string \<Rightarrow> err + i64" where
  "parse_interval opt least msg =
     (case parse_duration opt of
        Inl e \<Rightarrow> Inl e
      | Inr d \<Rightarrow> if i64_less d least then Inl (Errorf msg None) else Inr d)"

definition Millisecond :: i64 where "Millisecond = 1000000"

definition Second :: i64 where "Second = 1000000000"

definition create_mdns_browser :: "env \<Rightarrow> app_options \<Rightarrow> unit wire" where
  "create_mdns_browser env opts =
     ok_then (result (parse_interval (ao_browse_interval opts) Second
       ''mDNS browse interval can't be less than 1s'')) (\<lambda>interval.
     ok_then (result (parse_interval (ao_browse_timeout opts) Second
       ''mDNS browse timeout can't be less than 1s'')) (\<lambda>timeout.
     ok_then (result (parse_iface_option env (ao_browse_iface opts))) (\<lambda>ifaces.
     ok_then (modify (add_stopper ''mdns-zeroconf-browser'' (MdnsBrowser (browse_params timeout ifaces)))) (\<lambda>_.
     ok_then (modify (add_stopper ''mdns-zeroconf-browser-runner'' (MdnsBrowserRunner interval))) (\<lambda>_.
     modify (add_starter (MdnsBrowserRunner interval)))))))"

text \<open>\<^verbatim>\<open>createDB\<close>: whether there is a database, besides the no-op one.\<close>

definition create_db :: "env \<Rightarrow> app_options \<Rightarrow> string option wire" where
  "create_db env opts =
     (if ao_cacheDir opts = '''' then result (Inr None)
      else (let path = path_join (ao_cacheDir opts) ''bbolt.db''
            in ok_then (result (case env_OpenDB env path of Some e \<Rightarrow> Inl e | None \<Rightarrow> Inr ())) (\<lambda>_.
               ok_then (modify (add_stopper ''bbolt-database'' (BboltDatabase path))) (\<lambda>_.
               result (Inr (Some ''device_bucket''))))))"

definition create_cache_store :: "env \<Rightarrow> app_options \<Rightarrow> unit wire" where
  "create_cache_store env opts =
     ok_then (result (parse_interval (ao_fetchInterval opts) Millisecond
       ''HTTP device fetch interval can't be less than 1ms'')) (\<lambda>fetch_interval.
     ok_then (result (parse_interval (ao_fetchTimeout opts) Millisecond
       ''HTTP device fetch timeout can't be less than 1ms'')) (\<lambda>fetch_timeout.
     ok_then (result (if ao_maxDriftInterval opts \<noteq> ''''
       then parse_interval (ao_maxDriftInterval opts) Second
              ''--device-time-sync-drift-interval can't be less than 1s''
       else Inr 0)) (\<lambda>max_drift_interval.
     (let params = \<lparr>csp_FetchInterval = fetch_interval, csp_FetchTimeout = fetch_timeout,
                    csp_TimeSyncDisable = ao_timeSync_disable opts,
                    csp_MaxDriftInterval = max_drift_interval\<rparr>
      in ok_then (create_db env opts) (\<lambda>db.
         ok_then (modify (add_stopper ''storage-influxdb-pipeline'' (InfluxPipeline (ao_influxdb opts)))) (\<lambda>_.
         ok_then (modify (add_starter (InfluxPipeline (ao_influxdb opts)))) (\<lambda>_.
         ok_then (modify (add_stopper ''device-cache-store'' (DeviceCacheStore params))) (\<lambda>_.
         modify (add_starter (DeviceCacheStore params))))))))))"

text \<open>The result is the interval of the monitor, if there is one.\<close>

definition create_device_store :: "env \<Rightarrow> app_options \<Rightarrow> i64 option wire" where
  "create_device_store env opts =
     ok_then (create_cache_store env opts) (\<lambda>_.
     if ao_inactive_disable opts then result (Inr None)
     else
       ok_then (result (parse_interval (ao_inactive_maxInterval opts) Millisecond
         ''device-monitor-inactive-max-interval can't be less than 1ms'')) (\<lambda>max_interval.
       ok_then (result (parse_interval (ao_inactive_updateInterval opts) Millisecond
         ''device-monitor-inactive-update-interval can't be less than 1ms'')) (\<lambda>update_interval.
       ok_then (modify (add_stopper ''device-alive-monitor-runner'' (AliveMonitorRunner update_interval))) (\<lambda>_.
       ok_then (modify (add_starter (AliveMonitorRunner update_interval))) (\<lambda>_.
       result (Inr (Some max_interval)))))))"

definition configure_mdns_server :: "env \<Rightarrow> http_server \<Rightarrow> app_options \<Rightarrow> unit wire" where
  "configure_mdns_server env server opts =
     (let service = \<lparr>svc_Instance = ''Device Hub HTTP Service'', svc_Name = service_name 0 0,
                     svc_Hostname = ao_server_hostname opts, svc_Port = hs_port server,
                     svc_TxtRecords = [''api=/api/v1''], svc_AddrsIPv4 = [], svc_AddrsIPv6 = []\<rparr>
      in ok_then (result (parse_iface_option env (ao_server_iface opts))) (\<lambda>ifaces.
         ok_then (modify (add_stopper ''mdns-server'' (MdnsServer service ifaces))) (\<lambda>_.
         modify (add_starter (MdnsServer service ifaces)))))"

text \<open>
  The part of \<^verbatim>\<open>start\<close> before the starters: the result is whether discovered services reach
  the device store, and the interval of the monitor.
\<close>

definition wire_app :: "env \<Rightarrow> app_options \<Rightarrow> (bool \<times> i64 option) wire" where
  "wire_app env opts =
     ok_then (create_mdns_browser env opts) (\<lambda>_.
     ok_then (create_device_store env opts) (\<lambda>monitor.
     ok_then (result (new_server env '''' (ao_port opts))) (\<lambda>server.
     ok_then (modify (add_stopper ''http-server'' (HttpServer server))) (\<lambda>_.
     ok_then (modify (add_starter (HttpServer server))) (\<lambda>_.
     ok_then (if \<not> ao_server_disable opts then configure_mdns_server env server opts
              else result (Inr ())) (\<lambda>_.
     result (Inr (\<not> ao_autodiscovery_disable opts, monitor))))))))"

text \<open>
  The two methods of the pipeline: the wiring and the starters, then the wait for the signal; and
  the stoppers. \<open>start_part\<close> and \<open>stop_part\<close> are what the parts do in a world.
\<close>

definition app_start :: "env \<Rightarrow> (part \<Rightarrow> 's task) \<Rightarrow> app_options \<Rightarrow> (app_pipeline \<times> 's) task" where
  "app_start env start_part opts = (\<lambda>(p, s).
     (case wire_app env opts p of
        (Inl e, p) \<Rightarrow> (Ret (Some e), (p, s))
      | (Inr _, p) \<Rightarrow> lift_snd (fanout_start (map start_part (ap_starter p))) (p, s)))"

definition app_stop :: "(part \<Rightarrow> 's task) \<Rightarrow> (app_pipeline \<times> 's) task" where
  "app_stop stop_part = (\<lambda>(p, s).
     lift_snd (fanout_stop (map (\<lambda>(name, x). (name, stop_part x)) (ap_stopper p))) (p, s))"

text \<open>
  The process: \<^verbatim>\<open>prepareEnvironment\<close> and the two methods; an error ends it without a stop.
\<close>

definition run_app :: "env \<Rightarrow> (part \<Rightarrow> 's task) \<Rightarrow> (part \<Rightarrow> 's task) \<Rightarrow> app_options
    \<Rightarrow> (logger list \<times> app_pipeline \<times> 's) task" where
  "run_app env start_part stop_part opts =
     and_then (lift_fst (prepare_environment env opts)) (\<lambda>e. case e of
        Some e \<Rightarrow> (\<lambda>s. (Ret (Some e), s))
      | None \<Rightarrow>
          lift_snd (and_then (app_start env start_part opts) (\<lambda>e. case e of
             Some e \<Rightarrow> (\<lambda>ps. (Ret (Some e), ps))
           | None \<Rightarrow> app_stop stop_part)))"

section \<open>What a wiring that succeeds has done\<close>

lemma ok_then_Ok:
  "ok_then m f p = (Inr b, p') \<longleftrightarrow> (\<exists>a p1. m p = (Inr a, p1) \<and> f a p1 = (Inr b, p'))"
  by (auto simp: ok_then_def split: prod.splits sum.splits)

lemma result_Ok: "result r p = (Inr a, p') \<longleftrightarrow> r = Inr a \<and> p' = p"
  by (auto simp: result_def)

lemma modify_Ok: "modify f p = (Inr a, p') \<longleftrightarrow> p' = f p"
  by (auto simp: modify_def)

lemmas wire_Ok = ok_then_Ok result_Ok modify_Ok

lemma parse_interval_least:
  "parse_interval opt least msg = Inr d \<Longrightarrow> sint least \<le> sint d"
  by (auto simp: parse_interval_def split: sum.splits if_splits)

lemma create_mdns_browser_Ok:
  assumes "create_mdns_browser env opts p = (Inr u, p')"
  shows "\<exists>interval timeout ifaces. sint Second \<le> sint interval \<and> sint Second \<le> sint timeout \<and>
     p' = p\<lparr>ap_stopper := ap_stopper p @
              [(''mdns-zeroconf-browser'', MdnsBrowser (browse_params timeout ifaces)),
               (''mdns-zeroconf-browser-runner'', MdnsBrowserRunner interval)],
            ap_starter := ap_starter p @ [MdnsBrowserRunner interval]\<rparr>"
  using assms
  by (auto simp: create_mdns_browser_def wire_Ok add_stopper_def add_starter_def
      dest!: parse_interval_least)

lemma create_db_Ok:
  assumes "create_db env opts p = (Inr b, p')"
  shows "p' = p\<lparr>ap_stopper := ap_stopper p @ (if ao_cacheDir opts = '''' then []
     else [(''bbolt-database'', BboltDatabase (path_join (ao_cacheDir opts) ''bbolt.db''))])\<rparr>"
  using assms by (auto simp: create_db_def wire_Ok Let_def add_stopper_def split: if_splits)

text \<open>The parameters of the cache store that the validation lets through.\<close>

definition valid_params :: "cache_store_params \<Rightarrow> bool" where
  "valid_params params \<longleftrightarrow>
     sint Millisecond \<le> sint (csp_FetchInterval params) \<and>
     sint Millisecond \<le> sint (csp_FetchTimeout params) \<and>
     (csp_MaxDriftInterval params = 0 \<or> sint Second \<le> sint (csp_MaxDriftInterval params))"

lemma create_cache_store_Ok:
  assumes "create_cache_store env opts p = (Inr u, p')"
  shows "\<exists>params. valid_params params \<and>
     p' = p\<lparr>ap_stopper := ap_stopper p @ (if ao_cacheDir opts = '''' then []
              else [(''bbolt-database'', BboltDatabase (path_join (ao_cacheDir opts) ''bbolt.db''))]) @
              [(''storage-influxdb-pipeline'', InfluxPipeline (ao_influxdb opts)),
               (''device-cache-store'', DeviceCacheStore params)],
            ap_starter := ap_starter p @ [InfluxPipeline (ao_influxdb opts), DeviceCacheStore params]\<rparr>"
proof -
  obtain fetch timeout drift b p1 where v: "sint Millisecond \<le> sint fetch"
    "sint Millisecond \<le> sint timeout" "drift = 0 \<or> sint Second \<le> sint drift"
    and p1: "create_db env opts p = (Inr b, p1)"
    and p': "p' = add_starter (DeviceCacheStore \<lparr>csp_FetchInterval = fetch, csp_FetchTimeout = timeout,
        csp_TimeSyncDisable = ao_timeSync_disable opts, csp_MaxDriftInterval = drift\<rparr>)
      (add_stopper ''device-cache-store'' (DeviceCacheStore \<lparr>csp_FetchInterval = fetch,
        csp_FetchTimeout = timeout, csp_TimeSyncDisable = ao_timeSync_disable opts,
        csp_MaxDriftInterval = drift\<rparr>)
      (add_starter (InfluxPipeline (ao_influxdb opts))
      (add_stopper ''storage-influxdb-pipeline'' (InfluxPipeline (ao_influxdb opts)) p1)))"
    using assms unfolding create_cache_store_def wire_Ok Let_def
    by (fastforce dest: parse_interval_least split: if_splits)
  let ?params = "\<lparr>csp_FetchInterval = fetch, csp_FetchTimeout = timeout,
        csp_TimeSyncDisable = ao_timeSync_disable opts, csp_MaxDriftInterval = drift\<rparr>"
  have "valid_params ?params" using v by (simp add: valid_params_def)
  then show ?thesis using create_db_Ok [OF p1] p'
    by (intro exI [of _ ?params]) (simp add: add_stopper_def add_starter_def)
qed

lemma create_device_store_Ok:
  assumes "create_device_store env opts p = (Inr r, p')"
  shows "\<exists>params interval. valid_params params \<and> sint Millisecond \<le> sint interval \<and>
     p' = p\<lparr>ap_stopper := ap_stopper p @ (if ao_cacheDir opts = '''' then []
              else [(''bbolt-database'', BboltDatabase (path_join (ao_cacheDir opts) ''bbolt.db''))]) @
              [(''storage-influxdb-pipeline'', InfluxPipeline (ao_influxdb opts)),
               (''device-cache-store'', DeviceCacheStore params)] @
              (if ao_inactive_disable opts then []
               else [(''device-alive-monitor-runner'', AliveMonitorRunner interval)]),
            ap_starter := ap_starter p @ [InfluxPipeline (ao_influxdb opts), DeviceCacheStore params] @
              (if ao_inactive_disable opts then [] else [AliveMonitorRunner interval])\<rparr>"
proof -
  obtain u p1 where 1: "create_cache_store env opts p = (Inr u, p1)"
    using assms by (auto simp: create_device_store_def wire_Ok)
  obtain params where c: "valid_params params"
    "p1 = p\<lparr>ap_stopper := ap_stopper p @ (if ao_cacheDir opts = '''' then []
              else [(''bbolt-database'', BboltDatabase (path_join (ao_cacheDir opts) ''bbolt.db''))]) @
              [(''storage-influxdb-pipeline'', InfluxPipeline (ao_influxdb opts)),
               (''device-cache-store'', DeviceCacheStore params)],
            ap_starter := ap_starter p @ [InfluxPipeline (ao_influxdb opts), DeviceCacheStore params]\<rparr>"
    using create_cache_store_Ok [OF 1] by blast
  show ?thesis
  proof (cases "ao_inactive_disable opts")
    case True
    then have "p' = p1" using assms 1 by (auto simp: create_device_store_def wire_Ok)
    then show ?thesis using c True
      by (intro exI [of _ params] exI [of _ Millisecond]) simp
  next
    case False
    then obtain interval where i: "sint Millisecond \<le> sint interval"
      "p' = add_starter (AliveMonitorRunner interval)
         (add_stopper ''device-alive-monitor-runner'' (AliveMonitorRunner interval) p1)"
      using assms 1 by (auto simp: create_device_store_def wire_Ok dest: parse_interval_least)
    show ?thesis using c i False
      by (intro exI [of _ params] exI [of _ interval]) (simp add: add_stopper_def add_starter_def)
  qed
qed

lemma configure_mdns_server_Ok:
  assumes "configure_mdns_server env server opts p = (Inr u, p')"
  shows "\<exists>service ifaces. p' = p\<lparr>ap_stopper := ap_stopper p @ [(''mdns-server'', MdnsServer service ifaces)],
     ap_starter := ap_starter p @ [MdnsServer service ifaces]\<rparr>"
  using assms by (auto simp: configure_mdns_server_def wire_Ok Let_def add_stopper_def add_starter_def)

text \<open>The two fan-outs of a wiring that succeeds, with the parts in their order.\<close>

definition wired_stoppers :: "app_options \<Rightarrow> i64 \<Rightarrow> i64 \<Rightarrow> iface list \<Rightarrow> cache_store_params \<Rightarrow> i64
    \<Rightarrow> http_server \<Rightarrow> service \<Rightarrow> iface list \<Rightarrow> (string \<times> part) list" where
  "wired_stoppers opts browse timeout ifaces params update server service server_ifaces =
     [(''mdns-zeroconf-browser'', MdnsBrowser (browse_params timeout ifaces)),
      (''mdns-zeroconf-browser-runner'', MdnsBrowserRunner browse)] @
     (if ao_cacheDir opts = '''' then []
      else [(''bbolt-database'', BboltDatabase (path_join (ao_cacheDir opts) ''bbolt.db''))]) @
     [(''storage-influxdb-pipeline'', InfluxPipeline (ao_influxdb opts)),
      (''device-cache-store'', DeviceCacheStore params)] @
     (if ao_inactive_disable opts then []
      else [(''device-alive-monitor-runner'', AliveMonitorRunner update)]) @
     [(''http-server'', HttpServer server)] @
     (if ao_server_disable opts then [] else [(''mdns-server'', MdnsServer service server_ifaces)])"

definition wired_starters :: "app_options \<Rightarrow> i64 \<Rightarrow> cache_store_params \<Rightarrow> i64
    \<Rightarrow> http_server \<Rightarrow> service \<Rightarrow> iface list \<Rightarrow> part list" where
  "wired_starters opts browse params update server service server_ifaces =
     [MdnsBrowserRunner browse, InfluxPipeline (ao_influxdb opts), DeviceCacheStore params] @
     (if ao_inactive_disable opts then [] else [AliveMonitorRunner update]) @
     [HttpServer server] @
     (if ao_server_disable opts then [] else [MdnsServer service server_ifaces])"

lemma wire_app_Ok:
  assumes "wire_app env opts new_app_pipeline = (Inr r, p)"
  shows "\<exists>browse timeout ifaces params update server service server_ifaces.
     sint Second \<le> sint browse \<and> sint Second \<le> sint timeout \<and> valid_params params \<and>
     sint Millisecond \<le> sint update \<and>
     ap_stopper p = wired_stoppers opts browse timeout ifaces params update server service server_ifaces \<and>
     ap_starter p = wired_starters opts browse params update server service server_ifaces"
proof -
  obtain u p1 v p2 server p3 where w: "create_mdns_browser env opts new_app_pipeline = (Inr u, p1)"
    "create_device_store env opts p1 = (Inr v, p2)" "new_server env '''' (ao_port opts) = Inr server"
    "p3 = add_starter (HttpServer server) (add_stopper ''http-server'' (HttpServer server) p2)"
    "(\<exists>w. configure_mdns_server env server opts p3 = (Inr w, p)) \<and> \<not> ao_server_disable opts \<or>
     p = p3 \<and> ao_server_disable opts"
    using assms unfolding wire_app_def wire_Ok by (auto simp: wire_Ok split: if_splits)
  obtain browse timeout ifaces where b: "sint Second \<le> sint browse" "sint Second \<le> sint timeout"
    "ap_stopper p1 = [(''mdns-zeroconf-browser'', MdnsBrowser (browse_params timeout ifaces)),
       (''mdns-zeroconf-browser-runner'', MdnsBrowserRunner browse)]"
    "ap_starter p1 = [MdnsBrowserRunner browse]"
    using create_mdns_browser_Ok [OF w(1)] by (auto simp: new_app_pipeline_def)
  obtain params update where d: "valid_params params" "sint Millisecond \<le> sint update"
    "ap_stopper p2 = ap_stopper p1 @ (if ao_cacheDir opts = '''' then []
        else [(''bbolt-database'', BboltDatabase (path_join (ao_cacheDir opts) ''bbolt.db''))]) @
        [(''storage-influxdb-pipeline'', InfluxPipeline (ao_influxdb opts)),
         (''device-cache-store'', DeviceCacheStore params)] @
        (if ao_inactive_disable opts then []
         else [(''device-alive-monitor-runner'', AliveMonitorRunner update)])"
    "ap_starter p2 = ap_starter p1 @ [InfluxPipeline (ao_influxdb opts), DeviceCacheStore params] @
        (if ao_inactive_disable opts then [] else [AliveMonitorRunner update])"
    using create_device_store_Ok [OF w(2)] by auto
  obtain service ifaces' where m:
    "ap_stopper p = ap_stopper p3 @
       (if ao_server_disable opts then [] else [(''mdns-server'', MdnsServer service ifaces')])"
    "ap_starter p = ap_starter p3 @
       (if ao_server_disable opts then [] else [MdnsServer service ifaces'])"
    using w(5) configure_mdns_server_Ok [of env server opts p3 _ p] by fastforce
  show ?thesis
    using b d m w(4)
    by (intro exI [of _ browse] exI [of _ timeout] exI [of _ ifaces] exI [of _ params] exI [of _ update]
        exI [of _ server] exI [of _ service] exI [of _ ifaces'])
      (simp add: wired_stoppers_def wired_starters_def add_stopper_def add_starter_def)
qed

section \<open>Properties\<close>

text \<open>
  C26. Whatever the options are, a wiring that succeeds gives every runner of the application a
  positive interval (one second for the mDNS browser, one millisecond for the devices and the
  monitor), every request a timeout of a millisecond at least, and the drift verifier no interval
  between zero and a second: the ticker of no runner panics.
\<close>

theorem wired_intervals_are_bounded:
  assumes "wire_app env opts new_app_pipeline = (Inr r, p)" and "x \<in> set (ap_starter p)"
  shows "case x of
     MdnsBrowserRunner interval \<Rightarrow> 1000000000 \<le> sint interval
   | AliveMonitorRunner interval \<Rightarrow> 1000000 \<le> sint interval
   | DeviceCacheStore params \<Rightarrow>
       1000000 \<le> sint (csp_FetchInterval params) \<and> 1000000 \<le> sint (csp_FetchTimeout params) \<and>
       (csp_MaxDriftInterval params = 0 \<or> 1000000000 \<le> sint (csp_MaxDriftInterval params))
   | _ \<Rightarrow> True"
  using wire_app_Ok [OF assms(1)] assms(2)
  by (auto simp: wired_starters_def valid_params_def Second_def Millisecond_def split: if_splits)

text \<open>
  C14. The life-cycle of the process: when the validation and the wiring succeed and no part fails
  to start, the parts are started in the order of the wiring and after the signal every stopper
  runs, in its order, whatever errors they report; every part that was started has a stopper. The
  browser runner is started before the device store, and the device store is stopped before the
  HTTP server that uses it.
\<close>

theorem app_lifecycle:
  assumes "prepare_environment env opts ls = (Ret None, ls')" and "wire_app env opts new_app_pipeline = (Inr r, p)"
    and "\<forall>x s. \<exists>s'. start_part x s = (Ret None, s')" and "\<forall>x s. \<exists>e s'. stop_part x s = (Ret e, s')"
  shows "run_app env start_part stop_part opts (ls, (new_app_pipeline, s)) =
     (Ret None, (ls', p, fold (\<lambda>(_, x) s. snd (stop_part x s)) (ap_stopper p)
        (fold (\<lambda>x s. snd (start_part x s)) (ap_starter p) s))) \<and>
     set (ap_starter p) \<subseteq> snd ` set (ap_stopper p) \<and>
     (\<exists>runner store rest. ap_starter p = MdnsBrowserRunner runner # InfluxPipeline (ao_influxdb opts) #
        DeviceCacheStore store # rest) \<and>
     map fst (ap_stopper p) = [''mdns-zeroconf-browser'', ''mdns-zeroconf-browser-runner''] @
       (if ao_cacheDir opts = '''' then [] else [''bbolt-database'']) @
       [''storage-influxdb-pipeline'', ''device-cache-store''] @
       (if ao_inactive_disable opts then [] else [''device-alive-monitor-runner'']) @
       [''http-server''] @ (if ao_server_disable opts then [] else [''mdns-server''])"
proof -
  let ?stops = "map (\<lambda>(name, x). (name, stop_part x)) (ap_stopper p)"
  have "fanout_start (map start_part (ap_starter p) @ []) s =
      fanout_start [] (fold (\<lambda>f s. snd (f s)) (map start_part (ap_starter p)) s)"
    using assms(3) by (intro fanout_start_append) auto
  then have start: "fanout_start (map start_part (ap_starter p)) s =
      (Ret None, fold (\<lambda>x s. snd (start_part x s)) (ap_starter p) s)"
    by (simp add: fold_map comp_def)
  have "fanout_stop ?stops t = (Ret None, fold (\<lambda>(_, f) s. snd (f s)) ?stops t)" for t
    by (rule fanout_stop_runs_all) (use assms(4) in auto)
  then have stop: "fanout_stop ?stops t = (Ret None, fold (\<lambda>(_, x) s. snd (stop_part x s)) (ap_stopper p) t)" for t
    by (simp add: fold_map comp_def split_def)
  have run: "run_app env start_part stop_part opts (ls, (new_app_pipeline, s)) =
     (Ret None, (ls', p, fold (\<lambda>(_, x) s. snd (stop_part x s)) (ap_stopper p)
        (fold (\<lambda>x s. snd (start_part x s)) (ap_starter p) s)))"
    using assms(1,2) start stop by (simp add: run_app_def app_start_def app_stop_def outcome_simps)
  obtain browse timeout ifaces params update server service server_ifaces where w:
    "ap_stopper p = wired_stoppers opts browse timeout ifaces params update server service server_ifaces"
    "ap_starter p = wired_starters opts browse params update server service server_ifaces"
    using wire_app_Ok [OF assms(2)] by blast
  show ?thesis by (intro conjI run) (auto simp: w wired_stoppers_def wired_starters_def)
qed

definition sample_options :: app_options where
  "sample_options = default_options\<lparr>ao_logDir := ''/var/log'', ao_cacheDir := ''/var/cache'',
     ao_influxdb := \<lparr>db_URL = ''http://db'', db_Org = ''o'', db_Token = ''t'', db_Bucket = ''b''\<rparr>\<rparr>"

definition sample_env :: env where
  "sample_env = \<lparr>env_Stat = (\<lambda>_. Inr True), env_OpenFile = (\<lambda>_. None),
     env_Interfaces = Inr [\<lparr>if_Name = ''lo'', if_Flags = 5\<rparr>, \<lparr>if_Name = ''eth0'', if_Flags = 19\<rparr>],
     env_OpenDB = (\<lambda>_. None), env_Listen = (\<lambda>_. Inr (''[::]:4321'', 4321))\<rparr>"

lemma default_intervals:
  "parse_duration ''5s'' = Inr 5000000000" "parse_duration ''2m'' = Inr 120000000000"
  "parse_duration ''10s'' = Inr 10000000000" "parse_duration ''40s'' = Inr 40000000000"
proof -
  have s: "unit_map ''s'' = Some 1000000000" "unit_map ''m'' = Some 60000000000" by (simp_all add: unit_map_def)
  have n: "nat_str 5 = ''5''" "nat_str 2 = ''2''" "nat_str 10 = ''10''" "nat_str 40 = ''40''" by code_simp+
  show "parse_duration ''5s'' = Inr 5000000000" "parse_duration ''2m'' = Inr 120000000000"
    "parse_duration ''10s'' = Inr 10000000000" "parse_duration ''40s'' = Inr 40000000000"
    using parse_duration_unit [OF s(1), of 5] parse_duration_unit [OF s(2), of 2]
      parse_duration_unit [OF s(1), of 10] parse_duration_unit [OF s(1), of 40] by (simp_all add: n)
qed

lemma sample_wiring: "\<exists>r p. wire_app sample_env sample_options new_app_pipeline = (Inr r, p)"
  by (simp add: wire_app_def create_mdns_browser_def create_device_store_def create_cache_store_def
      create_db_def configure_mdns_server_def ok_then_def result_def modify_def parse_interval_def
      sample_options_def default_options_def sample_env_def default_intervals parse_iface_option_def
      filter_interfaces_def new_server_def Second_def Millisecond_def Let_def) blast

theorem wired_intervals_are_bounded_witness:
  "\<exists>r p interval. wire_app sample_env sample_options new_app_pipeline = (Inr r, p) \<and>
     MdnsBrowserRunner interval \<in> set (ap_starter p) \<and> 1000000000 \<le> sint interval"
proof -
  obtain r p where w: "wire_app sample_env sample_options new_app_pipeline = (Inr r, p)"
    using sample_wiring by blast
  obtain interval where "MdnsBrowserRunner interval \<in> set (ap_starter p)"
    using wire_app_Ok [OF w] by (auto simp: wired_starters_def)
  with wired_intervals_are_bounded [OF w this] w show ?thesis by auto
qed

theorem app_lifecycle_witness:
  "\<exists>r p. wire_app sample_env sample_options new_app_pipeline = (Inr r, p) \<and>
     (\<exists>ls. run_app sample_env (\<lambda>x s. (Ret None, s @ [x])) (\<lambda>x s. (Ret (Some IoEOF), s)) sample_options
       (default_loggers, (new_app_pipeline, [])) = (Ret None, (ls, p, ap_starter p))) \<and> length (ap_stopper p) = 8"
proof -
  obtain r p where w: "wire_app sample_env sample_options new_app_pipeline = (Inr r, p)"
    using sample_wiring by blast
  obtain ls where prep: "prepare_environment sample_env sample_options default_loggers = (Ret None, ls)"
    by (simp add: prepare_environment_def require_def require_dir_def sample_env_def sample_options_def
        default_options_def set_log_file_def outcome_simps)
  have a: "fold (\<lambda>x s. s @ [x]) xs t = t @ xs" for xs t :: "part list"
    by (induction xs arbitrary: t) auto
  have b: "fold (\<lambda>(_, x) s. s) xs t = t" for xs :: "(string \<times> part) list" and t :: "part list"
    by (induction xs) auto
  have "length (ap_stopper p) = length (map fst (ap_stopper p))" by simp
  then show ?thesis
    using app_lifecycle [OF prep w, of "\<lambda>x s. (Ret None, s @ [x])" "\<lambda>x s. (Ret (Some IoEOF), s)" "[]"] w
    by (intro exI [of _ r] exI [of _ p]) (simp add: a b sample_options_def default_options_def)
qed

lemma filter_loop_filter:
  "filter_loop fn is = filter (\<lambda>i. bit (if_Flags i) 0 \<and> \<not> bit (if_Flags i) 2 \<and> fn i) is"
proof (induction fn "is" rule: filter_loop.induct)
  case (2 fn i "is")
  have "(if_Flags i AND FlagLoopback = 0) = (\<not> bit (if_Flags i) 2)"
    "(if_Flags i AND FlagUp = 0) = (\<not> bit (if_Flags i) 0)"
    using and_exp_eq_0_iff_not_bit [of "if_Flags i" 2] and_exp_eq_0_iff_not_bit [of "if_Flags i" 0]
    by (simp_all add: FlagLoopback_def FlagUp_def)
  with 2 show ?case by auto
qed simp

text \<open>
  C35. The interfaces an option selects: in the order of the system, those that are up, are no
  loopback and support multicast, and that are named in the comma-separated option unless it is
  empty; a name that no interface has selects nothing and is no error.
\<close>

theorem interface_option_selects:
  "parse_iface_option env opt =
     (case env_Interfaces env of
        Inl e \<Rightarrow> Inl e
      | Inr interfaces \<Rightarrow> Inr (filter
          (\<lambda>i. bit (if_Flags i) 0 \<and> \<not> bit (if_Flags i) 2 \<and> bit (if_Flags i) 4 \<and>
               (opt = '''' \<or> if_Name i \<in> set (split_char CHR '','' opt))) interfaces))"
proof -
  have m: "(if_Flags i AND FlagMulticast = 0) = (\<not> bit (if_Flags i) 4)" for i
    using and_exp_eq_0_iff_not_bit [of "if_Flags i" 4] by (simp add: FlagMulticast_def)
  show ?thesis
    by (auto simp: parse_iface_option_def filter_interfaces_def filter_loop_filter iface_allowed_def m
        Let_def list_ex_iff intro!: filter_cong split: sum.splits)
qed

text \<open>
  The validation accepts exactly the options with all four influxdb settings, a log directory
  that exists and whose log file opens, no cache directory or one that exists, and a host name
  unless the mDNS server is disabled. Then every logger writes to the log file.
\<close>

theorem valid_environment:
  "\<exists>e ls'. prepare_environment env opts ls = (Ret e, ls') \<and>
     (e = None \<longleftrightarrow>
        '''' \<notin> {db_URL (ao_influxdb opts), db_Org (ao_influxdb opts), db_Bucket (ao_influxdb opts),
          db_Token (ao_influxdb opts), ao_logDir opts} \<and>
        (ao_cacheDir opts = '''' \<or> env_Stat env (ao_cacheDir opts) = Inr True) \<and>
        env_Stat env (ao_logDir opts) = Inr True \<and>
        env_OpenFile env (path_join (ao_logDir opts) ''app.log'') = None \<and>
        (if ao_server_disable opts then True else ao_server_hostname opts \<noteq> '''')) \<and>
     (e = None \<longrightarrow> (\<forall>l \<in> set ls'. lg_output l = LogFile (path_join (ao_logDir opts) ''app.log'')))"
  by (cases "env_OpenFile env (path_join (ao_logDir opts) ''app.log'')")
    (auto simp: prepare_environment_def require_def require_dir_def set_log_file_def and_then_def
      split: sum.splits)

end
