(* ===== verification/MonitorLock.thy ===== *)
theory MonitorLock
  imports AliveMonitor
begin

text \<open>
  The mutex of \<^verbatim>\<open>devstore.StoreAliveMonitor\<close> and the runner of a device, step by step: the
  two goroutines that meet at it are the caller of \<^verbatim>\<open>Remove\<close> (or \<^verbatim>\<open>Run\<close>), which keeps the
  mutex while it waits for the runner of the device to end, and the runner, whose task takes the
  same mutex in \<^verbatim>\<open>notifyAlive\<close> after every successful poll. In \<open>Monitoring\<close> the same deadlock is
  the outcome of a removal that meets a task that waits.
\<close>

section \<open>The two goroutines\<close>

text \<open>
  The goroutine of the device's runner: in its \<^verbatim>\<open>select\<close>, in the poll, before the mutex in
  \<^verbatim>\<open>notifyAlive\<close>, before \<^verbatim>\<open>close(doneCh)\<close>, gone. The caller: before the mutex, with the
  mutex, waiting for \<^verbatim>\<open>doneCh\<close> in \<^verbatim>\<open>Stop\<close> of the runner, returned.
\<close>

datatype device_pc = DSelect | DPoll | DNotify | DClosing | DGone

datatype caller_pc = CStart | CLocked | CWaiting | CReturned

record lock_sys =
  ls_device :: device_pc
  ls_caller :: caller_pc
  ls_cancelled :: bool

definition init_lock_sys :: lock_sys where
  "init_lock_sys = \<lparr>ls_device = DSelect, ls_caller = CStart, ls_cancelled = False\<rparr>"

text \<open>The mutex is the caller's from its \<^verbatim>\<open>Lock\<close> to the deferred \<^verbatim>\<open>Unlock\<close>.\<close>

definition locked :: "lock_sys \<Rightarrow> bool" where
  "locked s \<longleftrightarrow> ls_caller s = CLocked \<or> ls_caller s = CWaiting"

datatype lock_label = DTick | DPolled bool | DNotified | DCtx | DClose | CLock | CCancel | CDone

text \<open>
  The loop of the runner. \<open>monitored\<close>: the task has an alive notifier. The \<^verbatim>\<open>select\<close> may take
  a tick although the context is cancelled; a poll that succeeded notifies whatever the context
  says.
\<close>

fun device_runner_step :: "bool \<Rightarrow> lock_label \<Rightarrow> lock_sys \<Rightarrow> lock_sys option" where
  "device_runner_step monitored DTick s =
     (if ls_device s = DSelect then Some (s\<lparr>ls_device := DPoll\<rparr>) else None)"
| "device_runner_step monitored (DPolled ok) s =
     (if ls_device s = DPoll
      then Some (s\<lparr>ls_device := (if ok \<and> monitored then DNotify else DSelect)\<rparr>) else None)"
| "device_runner_step monitored DCtx s =
     (if ls_device s = DSelect \<and> ls_cancelled s then Some (s\<lparr>ls_device := DClosing\<rparr>) else None)"
| "device_runner_step monitored DClose s =
     (if ls_device s = DClosing then Some (s\<lparr>ls_device := DGone\<rparr>) else None)"
| "device_runner_step monitored _ s = None"

text \<open>\<^verbatim>\<open>notifyAlive\<close>: the task gets the mutex, and releases it when the time is recorded.\<close>

definition notify_alive_step :: "lock_sys \<Rightarrow> lock_sys option" where
  "notify_alive_step s =
     (if ls_device s = DNotify \<and> \<not> locked s then Some (s\<lparr>ls_device := DSelect\<rparr>) else None)"

text \<open>
  \<^verbatim>\<open>Remove\<close>: the caller gets the mutex, which is released when the removal from the store has
  returned.
\<close>

definition remove_lock_step :: "lock_sys \<Rightarrow> lock_sys option" where
  "remove_lock_step s = (if ls_caller s = CStart then Some (s\<lparr>ls_caller := CLocked\<rparr>) else None)"

text \<open>
  The stop of the node in the removal: the context of the runner is cancelled, then \<^verbatim>\<open>Stop\<close> of
  the runner waits until \<^verbatim>\<open>doneCh\<close> is closed.
\<close>

definition node_stop_step :: "lock_sys \<Rightarrow> lock_sys option" where
  "node_stop_step s =
     (if ls_caller s = CLocked then Some (s\<lparr>ls_caller := CWaiting, ls_cancelled := True\<rparr>) else None)"

definition runner_stop_step :: "lock_sys \<Rightarrow> lock_sys option" where
  "runner_stop_step s =
     (if ls_caller s = CWaiting \<and> ls_device s = DGone then Some (s\<lparr>ls_caller := CReturned\<rparr>) else None)"

text \<open>A step of one of the two goroutines.\<close>

definition lock_step :: "bool \<Rightarrow> lock_label \<Rightarrow> lock_sys \<Rightarrow> lock_sys option" where
  "lock_step monitored l s =
     (case l of
        DNotified \<Rightarrow> notify_alive_step s
      | CLock \<Rightarrow> remove_lock_step s
      | CCancel \<Rightarrow> node_stop_step s
      | CDone \<Rightarrow> runner_stop_step s
      | _ \<Rightarrow> device_runner_step monitored l s)"

lemmas lock_step_defs = lock_step_def notify_alive_step_def remove_lock_step_def node_stop_step_def
  runner_stop_step_def

inductive lock_steps :: "bool \<Rightarrow> lock_sys \<Rightarrow> lock_label list \<Rightarrow> lock_sys \<Rightarrow> bool" for monitored where
  no_steps: "lock_steps monitored s [] s"
| one_step: "lock_step monitored l s = Some s1 \<Longrightarrow> lock_steps monitored s1 ls s2 \<Longrightarrow>
    lock_steps monitored s (l # ls) s2"

inductive_cases lock_steps_ConsE: "lock_steps monitored s (l # ls) s2"

inductive_simps lock_steps_simps [simp]:
  "lock_steps monitored s [] s2" "lock_steps monitored s (l # ls) s2"

section \<open>Facts\<close>

text \<open>The states that are reached: the context is cancelled exactly when the caller waits or has returned.\<close>

definition lock_inv :: "bool \<Rightarrow> lock_sys \<Rightarrow> bool" where
  "lock_inv monitored s \<longleftrightarrow>
     (ls_cancelled s \<longleftrightarrow> ls_caller s = CWaiting \<or> ls_caller s = CReturned) \<and>
     (ls_caller s = CReturned \<longrightarrow> ls_device s = DGone) \<and>
     (ls_device s \<in> {DClosing, DGone} \<longrightarrow> ls_cancelled s) \<and>
     (\<not> monitored \<longrightarrow> ls_device s \<noteq> DNotify)"

lemma lock_step_inv: "lock_step monitored l s = Some s' \<Longrightarrow> lock_inv monitored s \<Longrightarrow> lock_inv monitored s'"
  by (cases l) (auto simp: lock_inv_def lock_step_defs split: if_splits)

lemma lock_steps_inv: "lock_steps monitored s ls s' \<Longrightarrow> lock_inv monitored s \<Longrightarrow> lock_inv monitored s'"
  by (induction rule: lock_steps.induct) (auto dest: lock_step_inv)

lemma lock_inv_init: "lock_inv monitored init_lock_sys"
  by (simp add: lock_inv_def init_lock_sys_def)

text \<open>Without a notifier the device ends within four steps of its own once it is cancelled.\<close>

lemma unmonitored_returns:
  assumes "lock_inv monitored s" and "ls_caller s = CWaiting" and "ls_device s \<noteq> DNotify"
  shows "\<exists>ls s'. lock_steps monitored s ls s' \<and> length ls \<le> 4 \<and> ls_caller s' = CReturned"
proof -
  have c: "ls_cancelled s" using assms(1,2) by (simp add: lock_inv_def)
  show ?thesis
  proof (cases "ls_device s")
    case DSelect
    with c assms(2) show ?thesis by (intro exI [of _ "[DCtx, DClose, CDone]"]) (simp add: lock_step_defs)
  next
    case DPoll
    with c assms(2) show ?thesis by (intro exI [of _ "[DPolled False, DCtx, DClose, CDone]"]) (simp add: lock_step_defs)
  next
    case DClosing
    with c assms(2) show ?thesis by (intro exI [of _ "[DClose, CDone]"]) (simp add: lock_step_defs)
  next
    case DGone
    with c assms(2) show ?thesis by (intro exI [of _ "[CDone]"]) (simp add: lock_step_defs)
  qed (use assms(3) in simp)
qed

text \<open>
  The deadlock: the caller waits for the runner, the runner for the mutex of the caller.
\<close>

definition deadlocked :: "lock_sys \<Rightarrow> bool" where
  "deadlocked s \<longleftrightarrow> ls_caller s = CWaiting \<and> ls_device s = DNotify"

lemma deadlocked_no_step: "deadlocked s \<Longrightarrow> lock_step monitored l s = None"
  by (cases l) (auto simp: deadlocked_def locked_def lock_step_defs)

section \<open>Properties\<close>

text \<open>
  C25. Removing a device, by a request or because it is inactive, can deadlock with the device's
  own task: a poll that succeeds while the remover has the mutex of the monitor waits for that
  mutex, and the remover waits for the task. From then on neither moves and the mutex stays
  locked, so that no device can be added, removed or reported alive any more.
\<close>

theorem monitored_removal_deadlocks:
  "\<exists>s. lock_steps True init_lock_sys [DTick, CLock, DPolled True, CCancel] s \<and>
     (\<forall>ls s'. lock_steps True s ls s' \<longrightarrow> s' = s \<and> locked s \<and> ls_caller s \<noteq> CReturned)"
proof -
  let ?s = "\<lparr>ls_device = DNotify, ls_caller = CWaiting, ls_cancelled = True\<rparr>"
  have d: "deadlocked ?s" by (simp add: deadlocked_def)
  have "s' = ?s" if "lock_steps True ?s ls s'" for ls s'
    using that d by (cases ls) (auto simp: deadlocked_no_step)
  then show ?thesis
    by (intro exI [of _ ?s]) (simp add: init_lock_sys_def locked_def lock_step_defs)
qed

theorem monitored_removal_deadlocks_witness:
  "\<exists>s. lock_steps True init_lock_sys [DTick, CLock, DPolled True, CCancel] s \<and> locked s \<and>
     ls_caller s \<noteq> CReturned"
  using monitored_removal_deadlocks no_steps by blast

text \<open>
  C24. The notifier is what the deadlock needs: the removal of a device without one (a restored
  device, or monitoring disabled) can always return, at most four steps after it waits, and a
  removal that does not return is stuck before the mutex in \<^verbatim>\<open>notifyAlive\<close>.
\<close>

theorem removal_returns_or_deadlocks:
  assumes "lock_steps monitored init_lock_sys ls s" and "ls_caller s = CWaiting"
  shows "(\<exists>ls' s'. lock_steps monitored s ls' s' \<and> length ls' \<le> 4 \<and> ls_caller s' = CReturned) \<longleftrightarrow>
     \<not> (monitored \<and> ls_device s = DNotify)"
proof -
  have inv: "lock_inv monitored s" using lock_steps_inv [OF assms(1) lock_inv_init] .
  have "ls_caller s' \<noteq> CReturned" if "ls_device s = DNotify" "lock_steps monitored s ls' s'" for ls' s'
    using that assms(2) deadlocked_no_step [of s monitored]
    by (cases ls') (auto simp: deadlocked_def)
  moreover have "\<not> monitored \<Longrightarrow> ls_device s \<noteq> DNotify" using inv by (simp add: lock_inv_def)
  ultimately show ?thesis using unmonitored_returns [OF inv assms(2)] by blast
qed

theorem removal_returns_or_deadlocks_witness:
  "\<exists>s ls' s'. lock_steps False init_lock_sys [DTick, CLock, DPolled True, CCancel] s \<and>
     lock_steps False s ls' s' \<and> length ls' \<le> 4 \<and> ls_caller s' = CReturned"
proof -
  let ?s = "\<lparr>ls_device = DSelect, ls_caller = CWaiting, ls_cancelled = True\<rparr>"
  have s: "lock_steps False init_lock_sys [DTick, CLock, DPolled True, CCancel] ?s"
    by (simp add: init_lock_sys_def lock_step_defs)
  have "\<exists>ls' s'. lock_steps False ?s ls' s' \<and> length ls' \<le> 4 \<and> ls_caller s' = CReturned"
    using removal_returns_or_deadlocks [OF s] by simp
  with s show ?thesis by blast
qed

end
