(* ===== verification/Discovery.thy ===== *)
theory Discovery
  imports Devices Zeroconf
begin

text \<open>
  Discovery as the application composes it: \<^verbatim>\<open>appPipeline.start\<close> of \<^verbatim>\<open>projects/main/main.go\<close> gives
  the browser a fan-out with the handler of the resolve store and, unless autodiscovery is
  disabled, the handler of the device store. The world is that of the application's store: the
  monitor, the runner of the browser and the cache store, which holds the resolve store.
\<close>

section \<open>The handlers of the browser\<close>

type_synonym ('r, 'd) app_world = "alive_monitor \<times> 'r runner \<times> 'd cache_store"

definition resolve_in_store :: "('r, 'd) app_world service_handler" where
  "resolve_in_store svc = (\<lambda>(m, r, cs).
     (case resolve_handle_service svc (cs_resolve cs) of
        (out, rs) \<Rightarrow> (out, (m, r, cs\<lparr>cs_resolve := rs\<rparr>))))"

definition app_handlers :: "'d db \<Rightarrow> (i64 \<Rightarrow> string) \<Rightarrow> (string set \<Rightarrow> string list) \<Rightarrow> bool
    \<Rightarrow> ('r, 'd) app_world service_handler list" where
  "app_handlers db fmt1123 order autodiscovery_disable =
     (let hs = fanout_add_handler [] resolve_in_store
      in if \<not> autodiscovery_disable
         then fanout_add_handler hs (mdns_handle_service (app_store db fmt1123 order)) else hs)"

text \<open>A lookup of the application.\<close>

definition app_lookup :: "'d db \<Rightarrow> (i64 \<Rightarrow> string) \<Rightarrow> (string set \<Rightarrow> string list)
    \<Rightarrow> ('o, 'z) zeroconf_lib \<Rightarrow> 'o browser_params \<Rightarrow> ('r, 'd) app_world task" where
  "app_lookup db fmt1123 order lib params =
     browser_run lib (new_zeroconf_browser (fanout_handle_service (app_handlers db fmt1123 order False)) params)"

lemma app_lookup_finds:
  "finds lib params entries \<Longrightarrow>
   app_lookup db fmt1123 order lib params =
   browse_loop (fanout_handle_service (app_handlers db fmt1123 order False))
     (map (\<lambda>e. Received (Some e)) entries @ [ContextDone])"
  by (simp add: app_lookup_def browser_run_finds)

section \<open>A lookup is a sequence of additions\<close>

definition announced_ops :: "service_entry list \<Rightarrow> store_op list" where
  "announced_ops entries =
     List.map_filter (\<lambda>e. map_option (\<lambda>(u, t, d). AddOp u t d) (announces (entry_service e))) entries"

lemma announced_ops_simps [simp]:
  "announced_ops [] = []"
  "announced_ops (e # es) = (case announces (entry_service e) of
     None \<Rightarrow> announced_ops es | Some (u, t, d) \<Rightarrow> AddOp u t d # announced_ops es)"
  by (simp_all add: announced_ops_def map_filter_simps split: option.splits)

context device_store
begin

lemma mdns_is_addition:
  assumes "inv s" and "announces svc = Some (u, t, d)"
  shows "\<exists>x e s'. mdns_handle_service st svc s = (Ret x, s') \<and> inv s' \<and>
     op_allowed (AddOp u t d) e (uris s) \<and> uris s' = op_set (AddOp u t d) e (uris s)"
proof -
  obtain e s' where "store_Add st u t d s = (Ret e, s')" "inv s'"
    "e = Some ErrDeviceExist \<longleftrightarrow> u \<in> uris s"
    "uris s' = (if e = None then insert u (uris s) else uris s)"
    using add_returns [OF assms(1), of u t d] by blast
  then show ?thesis
    by (intro exI [of _ "if e \<noteq> None \<and> e \<noteq> Some ErrDeviceExist then e else None"]
        exI [of _ e] exI [of _ s'])
      (simp add: mdns_handle_announced [OF assms(2)] handle_autodiscovery_add_def outcome_simps)
qed

lemma lookup_is_additions:
  assumes h: "\<And>svc s. inv s \<Longrightarrow> \<exists>e s'. h svc s = (Ret e, s') \<and> inv s' \<and> uris s' = uris s"
    and "inv s"
  shows "\<exists>es s'. browse_loop (fanout_handle_service [h, mdns_handle_service st])
       (map (\<lambda>e. Received (Some e)) entries @ [ContextDone]) s = (Ret None, s') \<and> inv s' \<and>
     ops_allowed (announced_ops entries) es (uris s) \<and>
     uris s' = ops_set (announced_ops entries) es (uris s)"
  using assms(2)
proof (induction entries arbitrary: s)
  case Nil
  then show ?case by (intro exI [of _ "[]"]) simp
next
  case (Cons e entries)
  let ?hs = "[h, mdns_handle_service st]" and ?svc = "entry_service e"
  obtain x s1 where 1: "h ?svc s = (Ret x, s1)" "inv s1" "uris s1 = uris s"
    using h [OF Cons.prems] by blast
  have fan: "fanout_handle_service ?hs ?svc s = (Ret None, s2)"
    if "mdns_handle_service st ?svc s1 = (Ret y, s2)" for y s2
    using 1(1) that by (simp add: outcome_simps)
  show ?case
  proof (cases "announces ?svc")
    case None
    obtain y where "mdns_handle_service st ?svc s1 = (Ret y, s1)"
      using mdns_handle_other [OF None, of st s1] by blast
    then have "handle_entry (fanout_handle_service ?hs) (Some e) s = (Ret (), s1)"
      by (intro handle_entry_Ret) (rule fan)
    with Cons.IH [OF 1(2)] 1(3) None show ?thesis
      by (auto simp: outcome_simps simp del: fanout_handle_service.simps)
  next
    case (Some a)
    obtain u t d where a: "a = (u, t, d)" by (cases a)
    obtain y r s2 where 2: "mdns_handle_service st ?svc s1 = (Ret y, s2)" "inv s2"
      "op_allowed (AddOp u t d) r (uris s)" "uris s2 = op_set (AddOp u t d) r (uris s)"
      using mdns_is_addition [OF 1(2), of ?svc u t d] Some a 1(3) by auto
    obtain es s' where 3: "browse_loop (fanout_handle_service ?hs)
        (map (\<lambda>e. Received (Some e)) entries @ [ContextDone]) s2 = (Ret None, s')" "inv s'"
      "ops_allowed (announced_ops entries) es (uris s2)"
      "uris s' = ops_set (announced_ops entries) es (uris s2)"
      using Cons.IH [OF 2(2)] by blast
    have "handle_entry (fanout_handle_service ?hs) (Some e) s = (Ret (), s2)"
      using 2(1) by (intro handle_entry_Ret) (rule fan)
    then have "browse_loop (fanout_handle_service ?hs)
        (map (\<lambda>e. Received (Some e)) (e # entries) @ [ContextDone]) s = (Ret None, s')"
      using 3(1) by (simp add: outcome_simps del: fanout_handle_service.simps)
    then show ?thesis using 2(3,4) 3(2-4) Some a
      by (intro exI [of _ "r # es"] exI [of _ s']) (simp del: fanout_handle_service.simps)
  qed
qed

end

lemma app_handlers_two:
  "app_handlers db fmt1123 order False = [resolve_in_store, mdns_handle_service (app_store db fmt1123 order)]"
  by (simp add: app_handlers_def fanout_add_handler_def)

lemma resolve_in_store_returns:
  "\<exists>e rs. resolve_in_store svc (m, r, cs) = (Ret e, (m, r, cs\<lparr>cs_resolve := rs\<rparr>)) \<and>
     resolve_handle_service svc (cs_resolve cs) = (Ret e, rs)"
  by (simp add: resolve_in_store_def resolve_handle_service_def Let_def)

text \<open>The resolve store is no part of what a store promises.\<close>

lemma live_resolve [simp]: "live ok (cs\<lparr>cs_resolve := rs\<rparr>) = live ok cs"
  by (simp add: live_def nodes_of_def)

lemma cached_uris_resolve [simp]: "cached_uris (cs\<lparr>cs_resolve := rs\<rparr>) = cached_uris cs"
  by (simp add: cached_uris_def nodes_of_def)

lemma resolve_in_store_keeps:
  assumes "app_inv ok s"
  shows "\<exists>e s'. resolve_in_store svc s = (Ret e, s') \<and> app_inv ok s' \<and> app_uris s' = app_uris s"
proof -
  obtain m r cs where s: "s = (m, r, cs)" by (cases s)
  obtain e rs where "resolve_in_store svc (m, r, cs) = (Ret e, (m, r, cs\<lparr>cs_resolve := rs\<rparr>))"
    using resolve_in_store_returns by blast
  then show ?thesis using assms by (simp add: s app_inv_def)
qed

text \<open>
  C5. A lookup of the application returns without an error, whatever its entries are, and does to
  the set of devices what the additions of the announced devices do, in the order of the entries:
  an entry that announces nothing changes nothing, and an announced URI is added unless it is
  there or the addition fails. The store and the monitor agree afterwards, as they did before.
\<close>

theorem lookup_adds_announced_devices:
  assumes "bbolt_docs B opened buckets txb" and "visits_all order"
    and "live opened cs" and "dom (am_devices m) = cached_uris cs" and found: "finds lib params entries"
  shows "\<exists>es m' r' cs'. app_lookup (bucket_db B name) fmt1123 order lib params (m, r, cs) =
       (Ret None, (m', r', cs')) \<and>
     live opened cs' \<and> dom (am_devices m') = cached_uris cs' \<and>
     ops_allowed (announced_ops entries) es (cached_uris cs) \<and>
     cached_uris cs' = ops_set (announced_ops entries) es (cached_uris cs)"
proof -
  have st: "device_store (app_store (bucket_db B name) fmt1123 order) app_uris (app_inv opened)"
    by (rule cached_devices.app_store_is_store [OF bucket_cached [OF assms(1,2)]])
  have "app_inv opened (m, r, cs)" using assms(3,4) by (simp add: app_inv_def)
  from device_store.lookup_is_additions [OF st resolve_in_store_keeps this]
  show ?thesis by (fastforce simp: app_lookup_finds [OF found] app_handlers_two app_inv_def
      simp del: fanout_handle_service.simps)
qed

section \<open>A discovered device is reachable after the next lookup\<close>

lemma make_node_resolve:
  assumes "make_node fmt1123 u t d now cs = (Inr n, cs')" and "url_parse u = Inr U"
    and "contains u ''.local''"
  shows "cs_resolve cs' = resolve_add (url_hostname U) (cs_resolve cs)"
  using assms
  by (auto simp: make_node_def make_node_http_def new_http_device_def make_synchronizer_def
      make_http_client_def resolve_add_def split: if_splits device_type.splits prod.splits)

lemma cache_add_resolve:
  assumes "cache_add db fmt1123 u t d cs = (Ret None, cs')" and "url_parse u = Inr U"
    and "contains u ''.local''"
  shows "cs_resolve cs' = resolve_add (url_hostname U) (cs_resolve cs)"
proof -
  obtain q cs1 where "make_node fmt1123 u t d (cs_now cs) cs = (q, cs1)" by fastforce
  then show ?thesis using assms make_node_resolve [OF _ assms(2,3)]
    by (auto simp: cache_add_def split: if_splits sum.splits outcome.splits option.splits prod.splits)
qed

lemma app_lookup_one:
  assumes "announces (entry_service e) = Some (u, t, d)"
    and "resolve_handle_service (entry_service e) (cs_resolve cs) = (Ret x, rs)"
    and "cache_add db fmt1123 u t d (cs\<lparr>cs_resolve := rs\<rparr>) = (Ret y, cs')"
    and found: "finds lib params [e]"
  shows "\<exists>m'. app_lookup db fmt1123 order lib params (m, r, cs) =
     (Ret None, (m', (if y = None then runner_awake r else r), cs'))"
proof -
  let ?s' = "(if y = None then set_device u (cs_mono cs') m else m, if y = None then runner_awake r else r, cs')"
  have a: "store_Add (app_store db fmt1123 order) u t d (m, r, cs\<lparr>cs_resolve := rs\<rparr>) = (Ret y, ?s')"
    by (rule app_add [OF assms(3)])
  have "mdns_handle_service (app_store db fmt1123 order) (entry_service e) (m, r, cs\<lparr>cs_resolve := rs\<rparr>) =
      (Ret (if y \<noteq> None \<and> y \<noteq> Some ErrDeviceExist then y else None), ?s')"
    using a by (simp add: mdns_handle_announced [OF assms(1)] handle_autodiscovery_add_def outcome_simps)
  moreover have "resolve_in_store (entry_service e) (m, r, cs) = (Ret x, (m, r, cs\<lparr>cs_resolve := rs\<rparr>))"
    using assms(2) by (simp add: resolve_in_store_def)
  ultimately have "fanout_handle_service (app_handlers db fmt1123 order False) (entry_service e) (m, r, cs) =
      (Ret None, ?s')"
    by (simp add: app_handlers_two outcome_simps)
  then have "handle_entry (fanout_handle_service (app_handlers db fmt1123 order False)) (Some e) (m, r, cs) =
      (Ret (), ?s')" by (rule handle_entry_Ret)
  then show ?thesis by (simp add: app_lookup_finds [OF found] outcome_simps)
qed

text \<open>The host name and the single address of an entry.\<close>

definition entry_addrs :: "service_entry \<Rightarrow> ip list" where
  "entry_addrs e = (if se_AddrIPv4 e = [] then se_AddrIPv6 e else se_AddrIPv4 e)"

lemma resolve_entry:
  assumes "trim_suffix (se_HostName e) ''.'' = h" and "entry_addrs e = [a]"
  shows "resolve_handle_service (entry_service e) rs = (Ret None, handle_resolve h (IPAddr a) rs)"
  using assms by (auto simp: resolve_handle_service_def entry_service_def entry_addrs_def Let_def)

text \<open>
  C18. A device that is discovered under a \<^verbatim>\<open>.local\<close> host is reachable only after the next lookup:
  the fan-out asks the resolve store before the device store, so the lookup that adds the device
  leaves its host without an address. The addition awakes the browser, and the next lookup that
  finds the device again records the address, from which the HTTP client of the device resolves
  its host.
\<close>

theorem discovered_device_is_reachable:
  assumes "announces (entry_service e) = Some (u, t, d)"
    and "url_parse u = Inr U" and "contains u ''.local''"
    and "trim_suffix (se_HostName e) ''.'' = url_hostname U" and "entry_addrs e = [a]"
    and "url_hostname U \<notin> rs_known (cs_resolve cs)"
    and "get_addr (url_hostname U) (cs_resolve cs) = Inl (Status StatusNoData)"
    and "cache_add db fmt1123 u t d cs = (Ret None, cs1)"
    and found: "finds lib params [e]" "finds lib' params [e]"
  shows "\<exists>m1 m2 cs2. app_lookup db fmt1123 order lib params (m, r, cs) = (Ret None, (m1, runner_awake r, cs1)) \<and>
     get_addr (url_hostname U) (cs_resolve cs1) = Inl (Status StatusNoData) \<and>
     app_lookup db fmt1123 order lib' params (m1, r', cs1) = (Ret None, (m2, r', cs2)) \<and>
     cached_uris cs2 = cached_uris cs1 \<and> u \<in> cached_uris cs2 \<and>
     get_addr (url_hostname U) (cs_resolve cs2) = Inr (IPAddr a)"
proof -
  let ?h = "url_hostname U"
  have "handle_resolve ?h (IPAddr a) (cs_resolve cs) = cs_resolve cs"
    using assms(6) by (simp add: handle_resolve_def)
  with resolve_entry [OF assms(4,5)] have "resolve_handle_service (entry_service e) (cs_resolve cs) =
      (Ret None, cs_resolve cs)" by simp
  from app_lookup_one [OF assms(1) this _ found(1)] assms(8)
  obtain m1 where 1: "app_lookup db fmt1123 order lib params (m, r, cs) = (Ret None, (m1, runner_awake r, cs1))"
    by fastforce
  have rs: "cs_resolve cs1 = resolve_add ?h (cs_resolve cs)" by (rule cache_add_resolve [OF assms(8,2,3)])
  have none: "get_addr ?h (cs_resolve cs1) = Inl (Status StatusNoData)"
    using assms(7) by (simp add: rs get_addr_def resolve_add_def split: option.splits)
  let ?rs2 = "handle_resolve ?h (IPAddr a) (cs_resolve cs1)"
  let ?cs2 = "cs1\<lparr>cs_resolve := ?rs2\<rparr>"
  have u: "nodes_of cs1 u \<noteq> None"
    using assms(8)
    by (auto simp: cache_add_def nodes_of_def split: if_splits sum.splits outcome.splits option.splits prod.splits)
  then have "cache_add db fmt1123 u t d ?cs2 = (Ret (Some ErrDeviceExist), ?cs2)"
    by (simp add: cache_add_def nodes_of_def)
  from app_lookup_one [OF assms(1) resolve_entry [OF assms(4,5)] this found(2)]
  obtain m2 where 2: "app_lookup db fmt1123 order lib' params (m1, r', cs1) = (Ret None, (m2, r', ?cs2))"
    by fastforce
  have "get_addr ?h ?rs2 = Inr (IPAddr a)"
    using none by (simp add: rs handle_resolve_def get_addr_def resolve_add_def split: option.splits)
  moreover have "u \<in> cached_uris cs1" using u by (auto simp: cached_uris_def)
  ultimately show ?thesis using 1 2 none
    by (intro exI [of _ m1] exI [of _ m2] exI [of _ ?cs2]) simp
qed

section \<open>A device that announces itself\<close>

definition plant_entry :: service_entry where
  "plant_entry =
     \<lparr>se_Instance = ''b'', se_Service = ''_http._tcp'', se_HostName = ''plant.local.'', se_Port = 80,
      se_Text = [''autodiscovery_mode=1'', ''autodiscovery_uri=http://plant.local:80'',
        ''autodiscovery_type=bonsai'', ''autodiscovery_desc=plant''],
      se_AddrIPv4 = [[10, 0, 0, 7]], se_AddrIPv6 = []\<rparr>"

abbreviation plant_uri :: string where
  "plant_uri \<equiv> ''http://plant.local:80''"

lemma plant_announces: "announces (entry_service plant_entry) = Some (plant_uri, ''bonsai'', ''plant'')"
  by (simp add: announces_def entry_service_def plant_entry_def txt_entries_def txt_ok_def parse_int_one)

lemma plant_parse: "url_parse plant_uri = Inr \<lparr>url_Scheme = ''http'', url_Host = ''plant.local:80''\<rparr>"
  by code_simp

lemma plant_hostname: "url_hostname \<lparr>url_Scheme = ''http'', url_Host = ''plant.local:80''\<rparr> = ''plant.local''"
  by code_simp

lemma plant_restorable: "restorable plant_uri"
proof -
  have "url_port \<lparr>url_Scheme = ''http'', url_Host = ''plant.local:80''\<rparr> = ''80''" by code_simp
  then show ?thesis by (simp add: restorable_def plant_parse parse_device_type_def)
qed

lemma plant_add: "\<exists>cs'. cache_add (bucket_db mem_bbolt name) fmt1123 plant_uri ''bonsai'' ''plant''
    sample_store = (Ret None, cs')"
proof -
  obtain buf where "MarshalBinary \<lparr>item_Desc = ''plant'', item_Timestamp = cs_now sample_store,
      item_Type = ''bonsai''\<rparr> = Ret (Inr buf)"
    using sample_marshal by (auto simp: sample_store_def)
  with mem_add [OF plant_restorable, of sample_store "''plant''" "''bonsai''" buf] show ?thesis
    by (simp add: sample_store_def nodes_of_def)
qed

theorem lookup_adds_announced_devices_witness:
  "\<exists>m r cs. app_lookup (bucket_db mem_bbolt ''b'') (\<lambda>_. ''now'') sorted_list_of_set
       (sample_zeroconf [plant_entry, plant_entry]) sample_browse_params
       (\<lparr>am_maxInactiveInterval = 5, am_devices = Map.empty\<rparr>, new_runner (), sample_store) =
       (Ret None, (m, r, cs)) \<and> cached_uris cs \<subseteq> {plant_uri} \<and> dom (am_devices m) = cached_uris cs"
proof -
  let ?m = "\<lparr>am_maxInactiveInterval = 5, am_devices = Map.empty\<rparr>"
  have u: "cached_uris sample_store = {}" by (simp add: cached_uris_def sample_store_def nodes_of_def)
  then have "dom (am_devices ?m) = cached_uris sample_store" by simp
  from lookup_adds_announced_devices [OF mem.bbolt_docs_axioms visits_all_sorted sample_live this sample_finds,
      of "''b''" "\<lambda>_. ''now''" "[plant_entry, plant_entry]" "new_runner ()"]
  obtain es m r cs where 1: "app_lookup (bucket_db mem_bbolt ''b'') (\<lambda>_. ''now'') sorted_list_of_set
      (sample_zeroconf [plant_entry, plant_entry]) sample_browse_params (?m, new_runner (), sample_store) = (Ret None, (m, r, cs))"
    "dom (am_devices m) = cached_uris cs"
    "ops_allowed (announced_ops [plant_entry, plant_entry]) es {}"
    "cached_uris cs = ops_set (announced_ops [plant_entry, plant_entry]) es {}"
    unfolding u by blast
  have "cached_uris cs \<subseteq> {plant_uri}"
    using 1(3,4) by (cases es; cases "tl es") (auto simp: plant_announces)
  then show ?thesis using 1(1,2) by blast
qed

theorem discovered_device_is_reachable_witness:
  "\<exists>m1 m2 cs1 cs2. app_lookup (bucket_db mem_bbolt ''b'') (\<lambda>_. ''now'') sorted_list_of_set
       (sample_zeroconf [plant_entry]) sample_browse_params
       (\<lparr>am_maxInactiveInterval = 5, am_devices = Map.empty\<rparr>, new_runner (), sample_store) =
       (Ret None, (m1, runner_awake (new_runner ()), cs1)) \<and>
     get_addr ''plant.local'' (cs_resolve cs1) = Inl (Status StatusNoData) \<and>
     app_lookup (bucket_db mem_bbolt ''b'') (\<lambda>_. ''now'') sorted_list_of_set
       (sample_zeroconf [plant_entry]) sample_browse_params (m1, new_runner (), cs1) = (Ret None, (m2, new_runner (), cs2)) \<and>
     plant_uri \<in> cached_uris cs2 \<and>
     get_addr ''plant.local'' (cs_resolve cs2) = Inr (IPAddr [10, 0, 0, 7])"
proof -
  obtain cs1 where a: "cache_add (bucket_db mem_bbolt ''b'') (\<lambda>_. ''now'') plant_uri ''bonsai'' ''plant''
      sample_store = (Ret None, cs1)" using plant_add by blast
  let ?U = "\<lparr>url_Scheme = ''http'', url_Host = ''plant.local:80''\<rparr>"
  have l: "contains plant_uri ''.local''" by (simp add: has_prefix_def)
  have t: "trim_suffix (se_HostName plant_entry) ''.'' = url_hostname ?U"
    by (simp add: plant_hostname plant_entry_def trim_suffix_def has_suffix_def)
  have e: "entry_addrs plant_entry = [[10, 0, 0, 7]]" by (simp add: entry_addrs_def plant_entry_def)
  have n: "url_hostname ?U \<notin> rs_known (cs_resolve sample_store)"
    "get_addr (url_hostname ?U) (cs_resolve sample_store) = Inl (Status StatusNoData)"
    by (simp_all add: sample_store_def new_resolve_store_def get_addr_def)
  from discovered_device_is_reachable [OF plant_announces plant_parse l t e n a sample_finds sample_finds,
      of sorted_list_of_set "\<lparr>am_maxInactiveInterval = 5, am_devices = Map.empty\<rparr>" "new_runner ()" "new_runner ()"]
  show ?thesis unfolding plant_hostname using a by blast
qed

end
