(* ===== verification/Server.thy ===== *)
theory Server
  imports Prelude
begin

text \<open>
  \<^verbatim>\<open>htcore.Server\<close> at run time: the goroutine that \<^verbatim>\<open>Start\<close> makes, the listener, and the three
  steps of \<^verbatim>\<open>Stop\<close>, as labelled steps over what \<^verbatim>\<open>net/http\<close> does in \<^verbatim>\<open>Serve\<close> and \<^verbatim>\<open>Close\<close>.
  The handlers run in goroutines of their own and are only counted; what they do is in
  \<^theory_text>\<open>Http\<close> and \<^theory_text>\<open>StoreHttp\<close>.
\<close>

section \<open>The system\<close>

text \<open>
  A serving goroutine has been made, is in the accept loop of \<^verbatim>\<open>Serve\<close>, has left \<^verbatim>\<open>Serve\<close> and is
  about to close the channel, or is gone.
\<close>

datatype serving = Made | Accepting | Served | Ended

text \<open>\<^verbatim>\<open>Stop\<close>: not called, after \<^verbatim>\<open>server.Close\<close>, after \<^verbatim>\<open>ln.Close\<close>, returned.\<close>

datatype stopping = NotCalled | ServerClosed | Awaiting | Stopped

record server_sys =
  ss_gs :: "serving list"
  ss_listening :: bool
  ss_stop :: stopping
  ss_done :: bool
  ss_crashed :: bool
  ss_requests :: nat

definition init_server :: server_sys where
  "init_server = \<lparr>ss_gs = [], ss_listening = True, ss_stop = NotCalled, ss_done = False,
     ss_crashed = False, ss_requests = 0\<rparr>"

datatype server_label =
    StartServer | EnterServe nat | AcceptRequest nat | AcceptFails nat | CloseDone nat
  | RequestDone | StopServer | CloseListener | StopReturns

definition set_serving :: "nat \<Rightarrow> serving \<Rightarrow> server_sys \<Rightarrow> server_sys" where
  "set_serving i g s = s\<lparr>ss_gs := (ss_gs s)[i := g]\<rparr>"

definition is_serving :: "nat \<Rightarrow> serving \<Rightarrow> server_sys \<Rightarrow> bool" where
  "is_serving i g s \<longleftrightarrow> i < length (ss_gs s) \<and> ss_gs s ! i = g"

text \<open>
  \<^verbatim>\<open>Serve\<close> returns at once when the server was closed before, and otherwise when \<^verbatim>\<open>Accept\<close> fails:
  because the listener was closed or for an error that does not pass. Either way it closes the
  listener. \<^verbatim>\<open>Close\<close> closes the listeners of the goroutines that are in \<^verbatim>\<open>Serve\<close> and waits for
  nothing. A channel that is closed twice ends the process.
\<close>

fun server_step :: "server_label \<Rightarrow> server_sys \<Rightarrow> server_sys option" where
  "server_step StartServer s = Some (s\<lparr>ss_gs := ss_gs s @ [Made]\<rparr>)"
| "server_step (EnterServe i) s =
     (if \<not> is_serving i Made s then None
      else if ss_stop s = NotCalled then Some (set_serving i Accepting s)
      else Some (set_serving i Served (s\<lparr>ss_listening := False\<rparr>)))"
| "server_step (AcceptRequest i) s =
     (if is_serving i Accepting s \<and> ss_listening s
      then Some (s\<lparr>ss_requests := Suc (ss_requests s)\<rparr>) else None)"
| "server_step (AcceptFails i) s =
     (if is_serving i Accepting s then Some (set_serving i Served (s\<lparr>ss_listening := False\<rparr>)) else None)"
| "server_step (CloseDone i) s =
     (if \<not> is_serving i Served s then None
      else if ss_done s then Some (s\<lparr>ss_crashed := True\<rparr>)
      else Some (set_serving i Ended (s\<lparr>ss_done := True\<rparr>)))"
| "server_step RequestDone s =
     (if ss_requests s = 0 then None else Some (s\<lparr>ss_requests := ss_requests s - 1\<rparr>))"
| "server_step StopServer s =
     (if ss_stop s \<noteq> NotCalled then None
      else Some (s\<lparr>ss_stop := ServerClosed,
                   ss_listening := (ss_listening s \<and> Accepting \<notin> set (ss_gs s))\<rparr>))"
| "server_step CloseListener s =
     (if ss_stop s \<noteq> ServerClosed then None
      else Some (s\<lparr>ss_stop := Awaiting, ss_listening := False\<rparr>))"
| "server_step StopReturns s =
     (if ss_stop s = Awaiting \<and> ss_done s then Some (s\<lparr>ss_stop := Stopped\<rparr>) else None)"

inductive server_exec :: "server_label list \<Rightarrow> server_sys \<Rightarrow> bool" where
  server_init: "server_exec [] init_server"
| server_snoc: "server_exec ls s \<Longrightarrow> \<not> ss_crashed s \<Longrightarrow> server_step l s = Some s' \<Longrightarrow> server_exec (ls @ [l]) s'"

fun run_server :: "server_label list \<Rightarrow> server_sys \<Rightarrow> server_sys option" where
  "run_server [] s = Some s"
| "run_server (l # ls) s =
     (if ss_crashed s then None else Option.bind (server_step l s) (run_server ls))"

lemma run_server_exec: "server_exec ls s \<Longrightarrow> run_server ls' s = Some s' \<Longrightarrow> server_exec (ls @ ls') s'"
proof (induction ls' arbitrary: ls s)
  case (Cons l ls')
  then obtain s1 where "\<not> ss_crashed s" "server_step l s = Some s1" "run_server ls' s1 = Some s'"
    by (auto split: if_splits bind_splits)
  with Cons.IH [OF server_snoc [OF Cons.prems(1)]] show ?case by simp
qed simp

section \<open>Invariant\<close>

definition server_inv :: "server_label list \<Rightarrow> server_sys \<Rightarrow> bool" where
  "server_inv ls s \<longleftrightarrow>
     \<not> ss_crashed s \<and>
     (ss_gs s = [] \<and> \<not> ss_done s \<and> StartServer \<notin> set ls \<or>
      (\<exists>g. ss_gs s = [g] \<and> (ss_done s \<longleftrightarrow> g = Ended)) \<and> StartServer \<in> set ls) \<and>
     (ss_stop s \<in> {Awaiting, Stopped} \<longrightarrow> \<not> ss_listening s) \<and>
     (ss_stop s = Stopped \<longrightarrow> ss_done s)"

lemma server_inv_init: "server_inv [] init_server"
  by (simp add: server_inv_def init_server_def)

lemma server_inv_snoc:
  assumes "server_inv ls s" and "server_step l s = Some s'" and "count_list (ls @ [l]) StartServer \<le> 1"
  shows "server_inv (ls @ [l]) s'"
  using assms
  by (cases l)
    (auto simp: server_inv_def is_serving_def set_serving_def less_Suc_eq count_list_0_iff
      split: if_splits)

lemma server_exec_inv: "server_exec ls s \<Longrightarrow> count_list ls StartServer \<le> 1 \<Longrightarrow> server_inv ls s"
proof (induction rule: server_exec.induct)
  case server_init
  show ?case by (rule server_inv_init)
next
  case (server_snoc ls s l s')
  then show ?case using server_inv_snoc by simp
qed

section \<open>Stopping\<close>

text \<open>
  C20. A server that is started at most once never closes its channel twice, and when \<^verbatim>\<open>Stop\<close> has
  returned its goroutine is gone, the listener is closed and no request is accepted any more;
  \<^verbatim>\<open>Stop\<close> of a server that was not started does not return.
\<close>

theorem stopped_server_is_gone:
  assumes "server_exec ls s" and "count_list ls StartServer \<le> 1"
  shows "\<not> ss_crashed s \<and>
     (ss_stop s = Stopped \<longrightarrow> ss_gs s = [Ended] \<and> \<not> ss_listening s \<and> StartServer \<in> set ls \<and>
        (\<forall>i. server_step (AcceptRequest i) s = None))"
  using server_exec_inv [OF assms] by (auto simp: server_inv_def)

theorem stopped_server_is_gone_witness:
  "\<exists>s. server_exec [StartServer, EnterServe 0, AcceptRequest 0, StopServer, CloseListener,
       AcceptFails 0, CloseDone 0, StopReturns] s \<and>
     ss_stop s = Stopped \<and> ss_gs s = [Ended] \<and> ss_requests s = 1"
proof -
  let ?ls = "[StartServer, EnterServe 0, AcceptRequest 0, StopServer, CloseListener,
    AcceptFails 0, CloseDone 0, StopReturns]"
  let ?s = "\<lparr>ss_gs = [Ended], ss_listening = False, ss_stop = Stopped, ss_done = True,
    ss_crashed = False, ss_requests = 1\<rparr>"
  have "run_server ?ls init_server = Some ?s"
    by (simp add: init_server_def is_serving_def set_serving_def)
  from run_server_exec [OF server_init this] have e: "server_exec ?ls ?s" by simp
  from stopped_server_is_gone [OF e] have "ss_gs ?s = [Ended]" by simp
  with e show ?thesis by (intro exI [of _ ?s]) simp
qed

text \<open>
  C31. Once \<^verbatim>\<open>Stop\<close> of a server that was started once has been called, it is at most four steps of
  the server from returning, whatever the goroutine was doing; none of them waits for the
  requests that are still being handled.
\<close>

theorem server_stop_returns:
  assumes "server_exec ls s" and "count_list ls StartServer = 1" and "ss_stop s \<noteq> NotCalled"
  shows "\<exists>ls' s'. length ls' \<le> 4 \<and> server_exec (ls @ ls') s' \<and> ss_stop s' = Stopped \<and>
     ss_requests s' = ss_requests s"
proof -
  have inv: "server_inv ls s" using server_exec_inv assms(1,2) by simp
  have "StartServer \<in> set ls" using assms(2) by (metis count_list_0_iff zero_neq_one)
  with inv obtain g where g: "ss_gs s = [g]" "ss_done s \<longleftrightarrow> g = Ended" "\<not> ss_crashed s"
    "ss_stop s = Stopped \<Longrightarrow> ss_done s" by (auto simp: server_inv_def)
  let ?first = "if ss_stop s = ServerClosed then [CloseListener] else []"
  let ?then = "if ss_stop s = Stopped then [] else
    (case g of Made \<Rightarrow> [EnterServe 0, CloseDone 0] | Accepting \<Rightarrow> [AcceptFails 0, CloseDone 0]
     | Served \<Rightarrow> [CloseDone 0] | Ended \<Rightarrow> []) @ [StopReturns]"
  have "\<exists>s'. run_server (?first @ ?then) s = Some s' \<and> ss_stop s' = Stopped \<and> ss_requests s' = ss_requests s"
    using assms(3) g
    by (cases "ss_stop s"; cases g) (simp_all add: is_serving_def set_serving_def)
  then obtain s' where s': "run_server (?first @ ?then) s = Some s'" "ss_stop s' = Stopped"
    "ss_requests s' = ss_requests s" by blast
  have "length (?first @ ?then) \<le> 4" by (simp split: serving.split)
  with run_server_exec [OF assms(1) s'(1)] s'(2,3) show ?thesis by blast
qed

theorem server_stop_returns_witness:
  "\<exists>ls' s'. length ls' \<le> 4 \<and> server_exec ([StartServer, EnterServe 0, AcceptRequest 0, StopServer] @ ls') s' \<and>
     ss_stop s' = Stopped \<and> ss_requests s' = 1"
proof -
  let ?ls = "[StartServer, EnterServe 0, AcceptRequest 0, StopServer]"
  let ?s = "\<lparr>ss_gs = [Accepting], ss_listening = False, ss_stop = ServerClosed, ss_done = False,
    ss_crashed = False, ss_requests = 1\<rparr>"
  have "run_server ?ls init_server = Some ?s"
    by (simp add: init_server_def is_serving_def set_serving_def)
  from run_server_exec [OF server_init this] have "server_exec ?ls ?s" by simp
  from server_stop_returns [OF this] show ?thesis by simp
qed

end
