(* ===== verification/JsonDecode.thy ===== *)
theory JsonDecode
  imports JsonText Poll
begin

text \<open>
  \<^verbatim>\<open>json.Unmarshal\<close> into a \<^verbatim>\<open>map[string]any\<close>, the decoder of the documents of a device: the
  values of a document with its numbers as \<^verbatim>\<open>float64\<close>. It is an instance of the decoder that
  \<^theory_text>\<open>Poll\<close> is parametric in. The text of a decoding error, which the program only logs, is an
  argument.
\<close>

section \<open>Values\<close>

text \<open>
  \<^verbatim>\<open>strconv.ParseFloat\<close>: the nearest \<^verbatim>\<open>float64\<close>, with the fixed spacing of the numbers below
  the normal range, and an error when the number is too large.
\<close>

definition float64_of_decimal :: "rat \<Rightarrow> rat option" where
  "float64_of_decimal x =
     (if \<bar>x\<bar> < 2 powi (- 1022) then Some (sgn x * of_int (round_half_even (\<bar>x\<bar> * 2 ^ 1074)) / 2 ^ 1074)
      else if 2 ^ 1024 \<le> \<bar>x\<bar> then None
      else (let y = float64 x in if 2 ^ 1024 \<le> \<bar>y\<bar> then None else Some y))"

text \<open>The last member of a name counts; a number that is too large fails the document.\<close>

fun json_of :: "json_text \<Rightarrow> json option" where
  "json_of TNull = Some JNull"
| "json_of (TBool b) = Some (JBool b)"
| "json_of (TNum x) = map_option JNum (float64_of_decimal x)"
| "json_of (TStr t) = Some (JStr t)"
| "json_of (TArr vs) = map_option JArr (those (map json_of vs))"
| "json_of (TObj ms) =
     map_option (\<lambda>kvs. JObj (map_of (rev kvs)))
       (those (map (\<lambda>(k, v). map_option (Pair k) (json_of v)) ms))"

definition unmarshal_map :: "(byte list \<Rightarrow> err) \<Rightarrow> byte list \<Rightarrow> err + JSON" where
  "unmarshal_map json_err buf =
     (case read_document (string_of buf) of
        Some TNull \<Rightarrow> Inr Map.empty
      | Some (TObj ms) \<Rightarrow>
          (case json_of (TObj ms) of Some (JObj m) \<Rightarrow> Inr m | _ \<Rightarrow> Inl (json_err buf))
      | _ \<Rightarrow> Inl (json_err buf))"

definition go_json :: "(byte list \<Rightarrow> err) \<Rightarrow> (rat \<Rightarrow> i64) \<Rightarrow> json_lib" where
  "go_json json_err out_of_range =
     \<lparr>json_unmarshal = unmarshal_map json_err, json_out_of_range = out_of_range\<rparr>"

section \<open>Documents of a device\<close>

text \<open>What a device sends: strings, truth values and decimals that are not too large.\<close>

fun plain :: "json_text \<Rightarrow> bool" where
  "plain (TNum x) = (short_decimal x \<and> float64_of_decimal x \<noteq> None)"
| "plain (TStr t) = utf8_valid t"
| "plain (TArr vs) = False"
| "plain (TObj ms) = False"
| "plain _ = True"

fun plain_json :: "json_text \<Rightarrow> json" where
  "plain_json (TNum x) = JNum (the (float64_of_decimal x))"
| "plain_json (TStr t) = JStr t"
| "plain_json (TBool b) = JBool b"
| "plain_json _ = JNull"

definition document :: "(string \<times> json_text) list \<Rightarrow> string" where
  "document ms = json_write (TObj ms) @ [CHR 0x0A]"

definition doc_fields :: "(string \<times> json_text) list \<Rightarrow> JSON" where
  "doc_fields ms = map_of (rev (map (\<lambda>(k, v). (k, plain_json v)) ms))"

lemma float64_minus: "float64 (- x) = - float64 x"
  by (simp add: float64_def Let_def)

lemma float64_of_decimal_int:
  assumes "\<bar>n\<bar> < 2 ^ 53"
  shows "float64_of_decimal (of_int n) = Some (of_int n)"
proof (cases "n = 0")
  case True
  then show ?thesis by (simp add: float64_of_decimal_def round_half_even_def)
next
  case False
  have f: "float64 (of_int n) = of_int n"
  proof (cases "0 \<le> n")
    case True
    then show ?thesis using float64_of_int [of n] assms by simp
  next
    case False
    then show ?thesis using float64_of_int [of "- n"] float64_minus [of "of_int (- n)"] assms by simp
  qed
  have one: "1 \<le> \<bar>of_int n :: rat\<bar>" using False by (simp add: abs_if)
  have "\<bar>of_int n :: rat\<bar> < 2 ^ 53"
    using assms by (metis of_int_abs of_int_less_iff of_int_numeral of_int_power)
  moreover have "(2 :: rat) ^ 53 < 2 ^ 1024" by (intro power_strict_increasing) auto
  ultimately have big: "\<not> 2 ^ 1024 \<le> \<bar>of_int n :: rat\<bar>" by linarith
  have "(2 :: rat) powi (- 1022) \<le> 2 powi 0" by (intro power_int_increasing) auto
  then have small: "\<not> \<bar>of_int n :: rat\<bar> < 2 powi (- 1022)" using one by simp
  show ?thesis unfolding float64_of_decimal_def f Let_def if_not_P [OF small] if_not_P [OF big] ..
qed

lemma json_of_plain: "plain v \<Longrightarrow> json_of v = Some (plain_json v)"
  by (cases v) auto

lemma plain_writable: "plain v \<Longrightarrow> writable v \<and> nesting v = 0"
  by (cases v) auto

lemma plain_int: "\<bar>n\<bar> < 2 ^ 53 \<Longrightarrow> plain (TNum (of_int n)) \<and> plain_json (TNum (of_int n)) = JNum (of_int n)"
  by (auto simp: float64_of_decimal_int short_decimal_def intro!: Ints_mult Ints_power)

text \<open>Every such document is decoded to its fields, of which the last one of a name counts.\<close>

lemma unmarshal_document:
  assumes "\<forall>(k, v) \<in> set ms. utf8_valid k \<and> plain v"
  shows "unmarshal_map json_err (bytes_of (document ms)) = Inr (doc_fields ms)"
proof -
  have "writable (TObj ms)" using assms plain_writable by auto
  moreover have "nesting v = 0" if "(k, v) \<in> set ms" for k v using assms plain_writable that by auto
  then have "nesting (TObj ms) \<le> max_nesting" by (auto simp: max_nesting_def)
  ultimately have "read_document (document ms) = Some (TObj ms)"
    unfolding document_def by (rule read_document_write) (simp add: json_space_def char_code_def)
  moreover have "those (map (\<lambda>(k, v). map_option (Pair k) (json_of v)) ms) =
      Some (map (\<lambda>(k, v). (k, plain_json v)) ms)"
    using assms by (induction ms) (auto simp: json_of_plain)
  ultimately show ?thesis by (simp add: unmarshal_map_def doc_fields_def)
qed

end
