(* ===== verification/Polling.thy ===== *)
theory Polling
  imports JsonDecode CacheStore Influx
begin

text \<open>
  A device from the wire to the database: the polling device of \<^theory_text>\<open>CacheStore\<close> with Go's JSON
  decoder, the HTTP client and the influxdb handler on the documents that a device writes.
\<close>

section \<open>Responses that carry a document\<close>

text \<open>The body is complete; its length is announced, or it is not (a chunked response).\<close>

definition carries :: "response \<Rightarrow> byte list \<Rightarrow> bool" where
  "carries resp body \<longleftrightarrow>
     rsp_status resp = 200 \<and> rsp_bytes resp = body \<and> rsp_read_err resp = None \<and>
     (rsp_content_length resp = - 1 \<or>
      rsp_content_length resp = int (length body) \<and> int (length body) \<le> max_alloc)"

lemma client_do_carries:
  assumes "send req s = (Ret (Inr resp), s')" and "carries resp body"
  shows "client_do send req s = (Ret (Inr (resp, body)), s')"
  using assms by (auto simp: client_do_def carries_def read_all_def read_full_def max_alloc_def outcome_simps)

text \<open>The document may be another one in every state of the world.\<close>

definition answers_document :: "'s http_do \<Rightarrow> string \<Rightarrow> ('s \<Rightarrow> (string \<times> json_text) list) \<Rightarrow> bool" where
  "answers_document send url ms \<longleftrightarrow>
     (\<exists>u. url_parse url = Inr u) \<and>
     (\<forall>s. \<exists>resp. send \<lparr>get_url = url, get_query = raw_query url\<rparr> s = (Ret (Inr resp), s) \<and>
        carries resp (bytes_of (document (ms s))))"

lemma url_fetch_document:
  assumes "answers_document send url ms"
  shows "url_fetch send url s = (Ret (Inr (bytes_of (document (ms s)))), s)"
proof -
  obtain u resp where "url_parse url = Inr u" and
    1: "send \<lparr>get_url = url, get_query = raw_query url\<rparr> s = (Ret (Inr resp), s)"
    and 2: "carries resp (bytes_of (document (ms s)))"
    using assms unfolding answers_document_def by blast
  have "client_do send \<lparr>get_url = url, get_query = raw_query url\<rparr> s =
      (Ret (Inr (resp, bytes_of (document (ms s)))), s)"
    by (rule client_do_carries) (fact 1, fact 2)
  with 2 \<open>url_parse url = Inr u\<close> show ?thesis
    by (simp add: url_fetch_def new_request_def outcome_simps carries_def)
qed

section \<open>A well-behaved device is handled\<close>

lemma int64_of_range: "t \<in> {- (2 ^ 63)..<2 ^ 63} \<Longrightarrow> int64_of_float oor (of_int t) = word_of_int t"
  by (simp add: int64_of_float_def Let_def)

text \<open>The steps of a run whose documents decode and whose times are accepted.\<close>

lemma poll_run_accepted:
  assumes "pd_registrationFetcher d s = (Ret (Inr b1), s)" "json_unmarshal lib b1 = Inr reg"
    and "accepts_id (pd_deviceID d) reg i" "reg ''timestamp'' = Some (JNum t1)"
    and "pd_timeVerifier d (int64_of_float (json_out_of_range lib) t1) s = (Ret True, s)"
    and "pd_telemetryFetcher d s = (Ret (Inr b2), s)" "json_unmarshal lib b2 = Inr tel"
    and "tel ''timestamp'' = Some (JNum t2)"
    and "pd_timeVerifier d (int64_of_float (json_out_of_range lib) t2) s = (Ret True, s)"
    and "HandleRegistration (pd_dataHandler d) i reg s = (Ret None, s1)"
    and "HandleTelemetry (pd_dataHandler d) i tel s1 = (Ret None, s2)"
  shows "poll_run lib (d, s) = (Ret None, (d\<lparr>pd_deviceID := i\<rparr>, s2))"
proof -
  have "parse_device_id reg d = (None, d\<lparr>pd_deviceID := i\<rparr>)"
    using assms(3) by (auto simp: parse_device_id_None)
  with assms have 1: "fetch_registration lib (d, s) = (Ret (Inr reg), (d\<lparr>pd_deviceID := i\<rparr>, s))"
    by (simp add: fetch_registration_def validate_timestamp_def outcome_simps)
  have 2: "fetch_telemetry lib (d\<lparr>pd_deviceID := i\<rparr>, s) = (Ret (Inr tel), (d\<lparr>pd_deviceID := i\<rparr>, s))"
    using assms by (simp add: fetch_telemetry_def validate_timestamp_def outcome_simps)
  have "handle_fetched reg tel (d\<lparr>pd_deviceID := i\<rparr>, s) = (Ret None, (d\<lparr>pd_deviceID := i\<rparr>, s2))"
    using assms by (simp add: handle_fetched_def outcome_simps)
  with 1 2 show ?thesis by (simp add: poll_run_def outcome_simps)
qed

text \<open>The same for any handler that takes the data.\<close>

lemma answering_device_handled:
  fixes send :: "http_client \<Rightarrow> i64 \<Rightarrow> 's http_do" and local_clock remote_last :: "'s system_clock"
    and handler :: "'s data_handler" and dev :: http_device
  assumes task: "task = device_task send local_clock remote_last handler dev"
    and "answers_document (endpoint_do send (hd_registration dev)) (ep_url (hd_registration dev)) reg"
    and "answers_document (endpoint_do send (hd_telemetry dev)) (ep_url (hd_telemetry dev)) tel"
    and "\<forall>(k, v) \<in> set (reg s). utf8_valid k \<and> plain v" and "\<forall>(k, v) \<in> set (tel s). utf8_valid k \<and> plain v"
    and "doc_fields (reg s) ''device_id'' = Some (JStr i)" and "j = '''' \<or> j = i"
    and "doc_fields (reg s) ''timestamp'' = Some (JNum (of_int t1))"
    and "doc_fields (tel s) ''timestamp'' = Some (JNum (of_int t2))"
    and "{t1, t2} \<subseteq> {- (2 ^ 63)..<2 ^ 63}"
    and "pd_timeVerifier task (word_of_int t1) (h, s) = (Ret True, (h, s))"
    and "pd_timeVerifier task (word_of_int t2) (h, s) = (Ret True, (h, s))"
    and "HandleRegistration handler i (doc_fields (reg s)) s = (Ret None, s1)"
    and "HandleTelemetry handler i (doc_fields (tel s)) s1 = (Ret None, s2)"
  shows "poll_run (go_json json_err oor) (task\<lparr>pd_deviceID := j\<rparr>, (h, s)) =
     (Ret None, (task\<lparr>pd_deviceID := i\<rparr>, (i, s2)))"
proof -
  have t: "int64_of_float oor (of_int t1) = word_of_int t1" "int64_of_float oor (of_int t2) = word_of_int t2"
    using assms(10) by (auto intro!: int64_of_range)
  have "poll_run (go_json json_err oor) (task\<lparr>pd_deviceID := j\<rparr>, (h, s)) =
     (Ret None, ((task\<lparr>pd_deviceID := j\<rparr>)\<lparr>pd_deviceID := i\<rparr>, (i, s2)))"
  proof (rule poll_run_accepted)
    show "pd_registrationFetcher (task\<lparr>pd_deviceID := j\<rparr>) (h, s) = (Ret (Inr (bytes_of (document (reg s)))), (h, s))"
      using url_fetch_document [OF assms(2)]
      by (simp add: task device_task_def new_poll_device_def outcome_simps)
    show "pd_telemetryFetcher (task\<lparr>pd_deviceID := j\<rparr>) (h, s) = (Ret (Inr (bytes_of (document (tel s)))), (h, s))"
      using url_fetch_document [OF assms(3)]
      by (simp add: task device_task_def new_poll_device_def outcome_simps)
    show "json_unmarshal (go_json json_err oor) (bytes_of (document (reg s))) = Inr (doc_fields (reg s))"
      "json_unmarshal (go_json json_err oor) (bytes_of (document (tel s))) = Inr (doc_fields (tel s))"
      using unmarshal_document [OF assms(4)] unmarshal_document [OF assms(5)] by (simp_all add: go_json_def)
    show "accepts_id (pd_deviceID (task\<lparr>pd_deviceID := j\<rparr>)) (doc_fields (reg s)) i"
      using assms(6,7) by (simp add: accepts_id_def)
    show "HandleRegistration (pd_dataHandler (task\<lparr>pd_deviceID := j\<rparr>)) i (doc_fields (reg s)) (h, s) = (Ret None, (i, s1))"
      using assms(13)
      by (simp add: task device_task_def new_poll_device_def id_holder_def
          holder_handle_registration_def outcome_simps)
    show "HandleTelemetry (pd_dataHandler (task\<lparr>pd_deviceID := j\<rparr>)) i (doc_fields (tel s)) (i, s1) = (Ret None, (i, s2))"
      using assms(14)
      by (simp add: task device_task_def new_poll_device_def id_holder_def
          holder_handle_telemetry_def outcome_simps)
    show "pd_timeVerifier (task\<lparr>pd_deviceID := j\<rparr>)
        (int64_of_float (json_out_of_range (go_json json_err oor)) (of_int t1)) (h, s) = (Ret True, (h, s))"
      "pd_timeVerifier (task\<lparr>pd_deviceID := j\<rparr>)
        (int64_of_float (json_out_of_range (go_json json_err oor)) (of_int t2)) (h, s) = (Ret True, (h, s))"
      using assms(11,12) by (simp_all add: go_json_def t)
  qed (fact assms(8,9))+
  then show ?thesis by simp
qed

section \<open>From the wire to the database\<close>

lemma handle_data_point:
  assumes "js ''timestamp'' = Some (JNum (of_int t))" and "t \<in> {- (2 ^ 63)..<2 ^ 63}"
    and "write \<lparr>pt_measurement = dataID, pt_tags = [(''device_id'', i)], pt_fields = js,
      pt_time = word_of_int t\<rparr> w = (Ret None, w')"
  shows "handle_data oor (\<lambda>p. lift_snd (write p)) (clock_fst restorer_clock) dataID i js (r, w) =
     (Ret None, (snd (restorer_set (word_of_int t) r), w'))"
proof -
  obtain r' where "restorer_set (word_of_int t) r = (Ret None, r')"
    by (simp add: restorer_set_def Let_def)
  then show ?thesis using assms(1,3) int64_of_range [OF assms(2), of oor]
    by (simp add: handle_data_def outcome_simps restorer_clock_def Let_def)
qed

text \<open>
  C8. What a device answers is stored: when both endpoints answer with a well-formed document of
  plain fields, the registration has an identifier that is not another one than before, both
  times are accepted by the verifier and the database writes both points, the run succeeds. The
  points are written in this order, with the identifier as their tag, the fields of the document
  and its time; the device and its holder have the identifier, and the recorded time of the
  database has been set to both times.
\<close>

theorem answering_device_is_stored:
  fixes send :: "http_client \<Rightarrow> i64 \<Rightarrow> (clock_restorer \<times> 'w) http_do"
    and local_clock remote_last :: "(clock_restorer \<times> 'w) system_clock"
  assumes task: "task = device_task send local_clock remote_last
      (influx_handler oor (\<lambda>p. lift_snd (write p)) (clock_fst restorer_clock)) dev"
    and "answers_document (endpoint_do send (hd_registration dev)) (ep_url (hd_registration dev)) reg"
    and "answers_document (endpoint_do send (hd_telemetry dev)) (ep_url (hd_telemetry dev)) tel"
    and "\<forall>(k, v) \<in> set (reg (r, w)). utf8_valid k \<and> plain v" and "\<forall>(k, v) \<in> set (tel (r, w)). utf8_valid k \<and> plain v"
    and "doc_fields (reg (r, w)) ''device_id'' = Some (JStr i)" and "j = '''' \<or> j = i"
    and t: "doc_fields (reg (r, w)) ''timestamp'' = Some (JNum (of_int t1))"
      "doc_fields (tel (r, w)) ''timestamp'' = Some (JNum (of_int t2))" "{t1, t2} \<subseteq> {- (2 ^ 63)..<2 ^ 63}"
    and "pd_timeVerifier task (word_of_int t1) (h, (r, w)) = (Ret True, (h, (r, w)))"
    and "pd_timeVerifier task (word_of_int t2) (h, (r, w)) = (Ret True, (h, (r, w)))"
    and w: "write \<lparr>pt_measurement = ''registration'', pt_tags = [(''device_id'', i)],
        pt_fields = doc_fields (reg (r, w)), pt_time = word_of_int t1\<rparr> w = (Ret None, w1)"
      "write \<lparr>pt_measurement = ''telemetry'', pt_tags = [(''device_id'', i)],
        pt_fields = doc_fields (tel (r, w)), pt_time = word_of_int t2\<rparr> w1 = (Ret None, w2)"
  shows "poll_run (go_json json_err oor) (task\<lparr>pd_deviceID := j\<rparr>, (h, (r, w))) =
     (Ret None, (task\<lparr>pd_deviceID := i\<rparr>,
        (i, (snd (restorer_set (word_of_int t2) (snd (restorer_set (word_of_int t1) r))), w2))))"
proof (rule answering_device_handled [OF task assms(2-12)])
  let ?h = "influx_handler oor (\<lambda>p. lift_snd (write p)) (clock_fst restorer_clock)"
  show "HandleRegistration ?h i (doc_fields (reg (r, w))) (r, w) =
      (Ret None, (snd (restorer_set (word_of_int t1) r), w1))"
    using t(3) unfolding influx_handler_def data_handler.simps
    by (intro handle_data_point) (simp_all add: t(1) w(1))
  show "HandleTelemetry ?h i (doc_fields (tel (r, w))) (snd (restorer_set (word_of_int t1) r), w1) =
      (Ret None, (snd (restorer_set (word_of_int t2) (snd (restorer_set (word_of_int t1) r))), w2))"
    using t(3) unfolding influx_handler_def data_handler.simps
    by (intro handle_data_point) (simp_all add: t(2) w(2))
qed

text \<open>A device that answers both requests, and a database that is the list of its points.\<close>

definition sample_registration :: "(string \<times> json_text) list" where
  "sample_registration = [(''device_id'', TStr ''0xAB''), (''timestamp'', TNum 100)]"

definition sample_telemetry :: "(string \<times> json_text) list" where
  "sample_telemetry = [(''on'', TBool True), (''timestamp'', TNum 101)]"

definition sample_answer :: "http_client \<Rightarrow> i64 \<Rightarrow> 'w http_do" where
  "sample_answer client timeout req s =
     (let body = bytes_of (document
        (if get_url req = ''http://10.0.0.7:80/registration'' then sample_registration else sample_telemetry))
      in (Ret (Inr \<lparr>rsp_status = 200, rsp_content_length = - 1, rsp_bytes = body,
                    rsp_read_err = None\<rparr>), s))"

lemma sample_answers_documents:
  "answers_document (sample_answer client timeout) ''http://10.0.0.7:80/registration'' (\<lambda>_. sample_registration)"
  "answers_document (sample_answer client timeout) ''http://10.0.0.7:80/telemetry'' (\<lambda>_. sample_telemetry)"
proof -
  have "\<exists>u. url_parse ''http://10.0.0.7:80/registration'' = Inr u" "\<exists>u. url_parse ''http://10.0.0.7:80/telemetry'' = Inr u"
    by (rule exI [of _ "\<lparr>url_Scheme = ''http'', url_Host = ''10.0.0.7:80''\<rparr>"], code_simp)+
  then show "answers_document (sample_answer client timeout) ''http://10.0.0.7:80/registration'' (\<lambda>_. sample_registration)"
    "answers_document (sample_answer client timeout) ''http://10.0.0.7:80/telemetry'' (\<lambda>_. sample_telemetry)"
    by (simp_all add: answers_document_def carries_def sample_answer_def)
qed

lemma sample_plain:
  "\<forall>(k, v) \<in> set sample_registration. utf8_valid k \<and> plain v"
  "\<forall>(k, v) \<in> set sample_telemetry. utf8_valid k \<and> plain v"
proof -
  have "plain (TNum 100)" "plain (TNum 101)" using plain_int [of 100] plain_int [of 101] by simp_all
  moreover have "utf8_valid ''0xAB''" "utf8_valid ''device_id''" "utf8_valid ''timestamp''" "utf8_valid ''on''"
    by code_simp+
  ultimately show "\<forall>(k, v) \<in> set sample_registration. utf8_valid k \<and> plain v"
    "\<forall>(k, v) \<in> set sample_telemetry. utf8_valid k \<and> plain v"
    by (simp_all add: sample_registration_def sample_telemetry_def del: plain.simps(1))
qed

lemma sample_fields:
  "doc_fields sample_registration = [''device_id'' \<mapsto> JStr ''0xAB'', ''timestamp'' \<mapsto> JNum 100]"
  "doc_fields sample_telemetry = [''on'' \<mapsto> JBool True, ''timestamp'' \<mapsto> JNum 101]"
proof -
  have "plain_json (TNum 100) = JNum 100" "plain_json (TNum 101) = JNum 101"
    using plain_int [of 100] plain_int [of 101] by simp_all
  then show "doc_fields sample_registration = [''device_id'' \<mapsto> JStr ''0xAB'', ''timestamp'' \<mapsto> JNum 100]"
    "doc_fields sample_telemetry = [''on'' \<mapsto> JBool True, ''timestamp'' \<mapsto> JNum 101]"
    by (auto simp: sample_registration_def sample_telemetry_def doc_fields_def simp del: plain_json.simps(1))
qed

definition write_list :: "point \<Rightarrow> (point list, err option) action" where
  "write_list p ps = (Ret None, ps @ [p])"

definition sample_http_device :: http_device where
  "sample_http_device =
     \<lparr>hd_deviceID = '''', hd_synchronizer = SyncNotSupported, hd_verifier = VerifyBasic,
      hd_registration = \<lparr>ep_client = DefaultClient, ep_url = ''http://10.0.0.7:80/registration'', ep_timeout = 1\<rparr>,
      hd_telemetry = \<lparr>ep_client = DefaultClient, ep_url = ''http://10.0.0.7:80/telemetry'', ep_timeout = 1\<rparr>,
      hd_notifier = None\<rparr>"

definition stopped_clock :: "'w system_clock" where
  "stopped_clock = \<lparr>clock_set = (\<lambda>t s. (Ret None, s)), clock_get = (\<lambda>s. (Ret (Inr 0), s))\<rparr>"

definition sample_task :: "(string \<times> clock_restorer \<times> point list) poll_device" where
  "sample_task = device_task sample_answer stopped_clock stopped_clock
     (influx_handler (\<lambda>_. 0) (\<lambda>p. lift_snd (write_list p)) (clock_fst restorer_clock)) sample_http_device"

theorem answering_device_is_stored_witness:
  "poll_run (go_json (\<lambda>_. IoEOF) (\<lambda>_. 0)) (sample_task\<lparr>pd_deviceID := []\<rparr>, ([], (new_clock_restorer, []))) =
     (Ret None, (sample_task\<lparr>pd_deviceID := ''0xAB''\<rparr>, (''0xAB'',
        (snd (restorer_set 101 (snd (restorer_set 100 new_clock_restorer))),
         [\<lparr>pt_measurement = ''registration'', pt_tags = [(''device_id'', ''0xAB'')],
           pt_fields = [''device_id'' \<mapsto> JStr ''0xAB'', ''timestamp'' \<mapsto> JNum 100], pt_time = 100\<rparr>,
          \<lparr>pt_measurement = ''telemetry'', pt_tags = [(''device_id'', ''0xAB'')],
           pt_fields = [''on'' \<mapsto> JBool True, ''timestamp'' \<mapsto> JNum 101], pt_time = 101\<rparr>]))))"
proof -
  have i: "(100 :: i64) = word_of_int 100" "(101 :: i64) = word_of_int 101" by simp_all
  show ?thesis unfolding sample_fields [symmetric] i
    by (rule answering_device_is_stored [OF sample_task_def, where reg = "\<lambda>_. sample_registration" and
          tel = "\<lambda>_. sample_telemetry"])
      (use sample_plain sample_answers_documents in \<open>simp_all add: sample_fields endpoint_do_def sample_task_def
        sample_http_device_def write_list_def device_task_def new_poll_device_def basic_verify_time_def\<close>)
qed

end
