(* ===== verification/PollEnds.thy ===== *)
theory PollEnds
  imports Polling
begin

text \<open>
  A poll ends: when the transactions of the HTTP clients, the clocks and the data handler return
  or panic, so does every run of a polling device of the store, whatever the device answers. What
  can wait for ever is in the parameters only.
\<close>

section \<open>Operations that end\<close>

text \<open>An operation that ends, from every state of an invariant, and keeps the invariant.\<close>

definition ends_in :: "('s \<Rightarrow> bool) \<Rightarrow> ('s, 'a) action \<Rightarrow> bool" where
  "ends_in I f \<longleftrightarrow> (\<forall>s. I s \<longrightarrow> fst (f s) \<noteq> Hang \<and> I (snd (f s)))"

abbreviation ends :: "('s, 'a) action \<Rightarrow> bool" where
  "ends \<equiv> ends_in (\<lambda>_. True)"

lemma ends_return [simp]: "ends_in I (\<lambda>s. (Ret a, s))"
  by (simp add: ends_in_def)

lemma ends_if: "(b \<Longrightarrow> ends_in I f) \<Longrightarrow> (\<not> b \<Longrightarrow> ends_in I g) \<Longrightarrow> ends_in I (if b then f else g)"
  by simp

lemma ends_and_then: "ends_in I f \<Longrightarrow> (\<And>a. ends_in I (g a)) \<Longrightarrow> ends_in I (and_then f g)"
  by (fastforce simp: ends_in_def and_then_def split: prod.split outcome.split)

lemma ends_lift_snd: "ends f \<Longrightarrow> ends (lift_snd f)"
  by (auto simp: ends_in_def lift_snd_def split: prod.split) (metis fst_conv)

text \<open>The transactions of the clients.\<close>

lemma client_do_ends:
  assumes "ends (send req)"
  shows "ends (client_do send req)"
  unfolding client_do_def
proof (rule ends_and_then [OF assms])
  show "ends (case r of
        Inl e \<Rightarrow> (\<lambda>s. (Ret (Inl e), s))
      | Inr resp \<Rightarrow>
          (\<lambda>s. if rsp_content_length resp < - 1 \<or> max_alloc < rsp_content_length resp then (Panic, s)
               else (case (if rsp_content_length resp = - 1 then read_all resp
                           else if rsp_content_length resp = 0 then Inr []
                           else read_full (nat (rsp_content_length resp)) resp) of
                       Inl e \<Rightarrow> (Ret (Inl e), s)
                     | Inr body \<Rightarrow> (Ret (Inr (resp, body)), s))))" for r
    by (auto simp: ends_in_def split: sum.splits if_splits)
qed

lemma request_ends:
  assumes "\<And>req. ends (send req)" and "\<And>r. ends (g r)"
  shows "ends (\<lambda>s. case q of Inl e \<Rightarrow> (Ret (f e), s) | Inr req \<Rightarrow> and_then (client_do send (h req)) g s)"
  by (cases q) (simp_all add: ends_and_then client_do_ends assms)

lemma url_fetch_ends:
  assumes "\<And>req. ends (send req)"
  shows "ends (url_fetch send url)"
proof -
  have "url_fetch send url = (\<lambda>s. case new_request url of Inl e \<Rightarrow> (Ret (Inl e), s) | Inr req \<Rightarrow>
      and_then (client_do send req) (\<lambda>r s. case r of
             Inl e \<Rightarrow> (Ret (Inl e), s)
           | Inr (resp, body) \<Rightarrow>
               (if rsp_status resp \<noteq> 200
                then (Ret (Inl (Errorf (''url-fetcher: failed to fetch data: code=''
                        @ format_int (word_of_int (rsp_status resp))) None)), s)
                else (Ret (Inr body), s))) s)"
    by (rule ext) (simp only: url_fetch_def)
  then show ?thesis
    by (simp only:) (rule request_ends [OF assms, where h = "\<lambda>r. r"], auto simp: ends_in_def split: sum.split)
qed

lemma http_clock_ends:
  assumes "\<And>req. ends (send req)"
  shows "ends (clock_get (http_clock send url))" "ends (clock_set (http_clock send url) t)"
proof -
  have "http_clock_get send url = (\<lambda>s. case new_request url of Inl e \<Rightarrow> (Ret (Inl e), s) | Inr req \<Rightarrow>
      and_then (client_do send req) (\<lambda>r s. case r of
             Inl e \<Rightarrow> (Ret (Inl e), s)
           | Inr (resp, body) \<Rightarrow>
               (if rsp_status resp \<noteq> 200
                then (Ret (Inl (Errorf (''http-system-clock: failed to receive time: code=''
                        @ format_int (word_of_int (rsp_status resp))) None)), s)
                else (Ret (parse_int ''ParseInt'' (string_of body)), s))) s)"
    by (rule ext) (simp only: http_clock_get_def)
  then show "ends (clock_get (http_clock send url))"
    unfolding http_clock_def system_clock.simps
    by (simp only:) (rule request_ends [OF assms, where h = "\<lambda>r. r"], auto simp: ends_in_def split: sum.split)
  have "http_clock_set send url t = (\<lambda>s. case new_request url of Inl e \<Rightarrow> (Ret (Some e), s) | Inr req \<Rightarrow>
      and_then (client_do send (req\<lparr>get_query :=
          query_encode (query_set ''value'' (format_int t) (parse_query (get_query req)))\<rparr>)) (\<lambda>r s. case r of
             Inl e \<Rightarrow> (Ret (Some e), s)
           | Inr (resp, body) \<Rightarrow>
               (if rsp_status resp \<noteq> 200
                then (Ret (Some (Errorf (''http-system-clock: failed to send time: code=''
                        @ format_int (word_of_int (rsp_status resp))) None)), s)
                else (Ret None, s))) s)"
    by (rule ext) (simp only: http_clock_set_def Let_def)
  then show "ends (clock_set (http_clock send url) t)"
    unfolding http_clock_def system_clock.simps
    by (simp only:) (rule request_ends [OF assms], auto simp: ends_in_def split: sum.split)
qed

lemma sync_time_ends:
  assumes "ends (clock_get l)" "ends (clock_get r)" "ends (clock_get c)" "\<And>t. ends (clock_set c t)"
  shows "ends (sync_time l r c)"
  unfolding sync_time_def
  by (rule ends_and_then [OF assms(1)], simp split: sum.split, intro allI impI,
      rule ends_and_then [OF assms(2)], simp split: sum.split, intro allI impI conjI,
      rule ends_and_then [OF assms(3)], simp split: sum.split, intro allI impI conjI,
      rule ends_and_then [OF assms(4)], simp)

lemma drift_verify_ends:
  assumes "ends (clock_get c)"
  shows "ends (drift_verify_time c d t)"
  unfolding drift_verify_time_def
  by (intro ends_if ends_and_then [OF assms]) (auto simp: ends_in_def split: sum.splits)

section \<open>A poll\<close>

text \<open>The calls of a device end.\<close>

definition device_ends :: "'s poll_device \<Rightarrow> bool" where
  "device_ends d \<longleftrightarrow>
     ends (pd_registrationFetcher d) \<and> ends (pd_telemetryFetcher d) \<and> ends (pd_timeSynchronizer d) \<and>
     (\<forall>t. ends (pd_timeVerifier d t)) \<and>
     (\<forall>i js. ends (HandleRegistration (pd_dataHandler d) i js) \<and> ends (HandleTelemetry (pd_dataHandler d) i js))"

abbreviation poll_ends :: "('s, 'a) poll \<Rightarrow> bool" where
  "poll_ends \<equiv> ends_in (\<lambda>ds. device_ends (fst ds))"

lemma poll_ends_lift: "ends f \<Longrightarrow> poll_ends (lift_snd f)"
  by (auto simp: ends_in_def lift_snd_def split: prod.split) (metis fst_conv)

lemma poll_ends_case:
  "(\<And>d s. device_ends d \<Longrightarrow> poll_ends (f d s)) \<Longrightarrow> poll_ends (\<lambda>(d, s). f d s (d, s))"
  by (auto simp: ends_in_def)

lemma parse_device_id_ends: "device_ends (snd (parse_device_id js d)) = device_ends d"
  by (auto simp: parse_device_id_def device_ends_def split: option.split json.split)

lemma validate_timestamp_ends: "poll_ends (validate_timestamp lib js)"
proof -
  have "poll_ends (and_then (lift_snd (pd_timeVerifier d t))
      (\<lambda>ok. if ok then (\<lambda>ds. (Ret None, ds))
         else and_then (lift_snd (pd_timeSynchronizer d))
           (\<lambda>e ds. (case e of
              Some e \<Rightarrow> (Ret (Some (Errorf ''failed to sync device time: '' (Some e))), ds)
            | None \<Rightarrow> (Ret (Some (Errorf ''failed to fetch data: invalid timestamp'' None)), ds)))))"
    if "device_ends d" for d :: "'a poll_device" and t
    using that by (intro ends_and_then ends_if poll_ends_lift) (auto simp: device_ends_def ends_in_def split: option.splits)
  then show ?thesis
    by (auto simp: validate_timestamp_def ends_in_def split: option.splits json.splits)
qed

lemma validated_ends:
  "poll_ends (and_then (validate_timestamp lib js) (\<lambda>e ds. case e of
     Some e \<Rightarrow> (Ret (Inl e), ds)
   | None \<Rightarrow> (Ret (Inr js), ds)))"
  by (rule ends_and_then [OF validate_timestamp_ends]) (auto simp: ends_in_def split: option.split)

lemma fetch_telemetry_ends: "poll_ends (fetch_telemetry lib)"
proof -
  let ?g = "\<lambda>r ds. case r of
        Inl e \<Rightarrow> (Ret (Inl e), ds)
      | Inr buf \<Rightarrow>
          (case json_unmarshal lib buf of
             Inl e \<Rightarrow> (Ret (Inl e), ds)
           | Inr js \<Rightarrow>
               and_then (validate_timestamp lib js) (\<lambda>e ds. case e of
                  Some e \<Rightarrow> (Ret (Inl e), ds)
                | None \<Rightarrow> (Ret (Inr js), ds)) ds)"
  note v = validated_ends [of lib]
  have "poll_ends (?g r)" for r
    using v by (auto simp: ends_in_def split: sum.split)
  then have "poll_ends (\<lambda>(d, s). and_then (lift_snd (pd_telemetryFetcher d)) ?g (d, s))"
    by (intro poll_ends_case ends_and_then poll_ends_lift) (simp_all add: device_ends_def)
  then show ?thesis by (simp only: fetch_telemetry_def)
qed

lemma fetch_registration_ends: "poll_ends (fetch_registration lib)"
proof -
  let ?g = "\<lambda>r (d, s). case r of
        Inl e \<Rightarrow> (Ret (Inl e), (d, s))
      | Inr buf \<Rightarrow>
          (case json_unmarshal lib buf of
             Inl e \<Rightarrow> (Ret (Inl e), (d, s))
           | Inr js \<Rightarrow>
               (case parse_device_id js d of
                  (Some e, d) \<Rightarrow> (Ret (Inl e), (d, s))
                | (None, d) \<Rightarrow>
                    and_then (validate_timestamp lib js) (\<lambda>e ds. case e of
                       Some e \<Rightarrow> (Ret (Inl e), ds)
                     | None \<Rightarrow> (Ret (Inr js), ds)) (d, s)))"
  note v = validated_ends [of lib]
  have "fst (?g r (d, s)) \<noteq> Hang \<and> device_ends (fst (snd (?g r (d, s))))"
    if "device_ends d" for r d s
  proof (cases r)
    case (Inr buf)
    show ?thesis
    proof (cases "json_unmarshal lib buf")
      case js: (Inr js)
      obtain e d' where p: "parse_device_id js d = (e, d')" by (cases "parse_device_id js d")
      with parse_device_id_ends [of js d] that have d': "device_ends d'" by simp
      show ?thesis
      proof (cases e)
        case None
        with v [of js, unfolded ends_in_def, rule_format, of "(d', s)"] d' Inr js p show ?thesis by simp
      qed (use Inr js p d' in simp)
    qed (use Inr that in simp)
  qed (use that in simp)
  then have "poll_ends (?g r)" for r by (force simp: ends_in_def)
  then have "poll_ends (and_then (lift_snd (pd_registrationFetcher d)) ?g)" if "device_ends d" for d
    using that by (intro ends_and_then poll_ends_lift) (auto simp: device_ends_def)
  then have "poll_ends (\<lambda>(d, s). and_then (lift_snd (pd_registrationFetcher d)) ?g (d, s))"
    by (rule poll_ends_case)
  then show ?thesis by (simp only: fetch_registration_def)
qed

lemma handle_fetched_ends: "poll_ends (handle_fetched reg tel)"
proof -
  have h: "poll_ends (\<lambda>(d, s). (if e \<noteq> None then (Ret (Some (Status StatusError)), (d, s)) else
     and_then (lift_snd (HandleTelemetry (pd_dataHandler d) (pd_deviceID d) tel))
       (\<lambda>e ds. if e \<noteq> None then (Ret (Some (Status StatusError)), ds) else (Ret None, ds)) (d, s)))" for e :: "err option"
  proof (cases e)
    case None
    then show ?thesis
      by (simp only: None simp_thms if_False, intro poll_ends_case ends_and_then poll_ends_lift)
        (auto simp: device_ends_def ends_in_def)
  qed (auto simp: ends_in_def)
  show ?thesis unfolding handle_fetched_def
    by (intro poll_ends_case ends_and_then poll_ends_lift h) (auto simp: device_ends_def)
qed

lemma poll_run_ends: "poll_ends (poll_run lib)"
  unfolding poll_run_def
  by (intro ends_and_then fetch_registration_ends)
    (auto split: sum.split intro!: ends_and_then fetch_telemetry_ends handle_fetched_ends)

text \<open>A device of the store.\<close>

lemma device_task_ends:
  assumes send: "\<And>c t req. ends (send c t req)"
    and clocks: "ends (clock_get local_clock)" "ends (clock_get remote_last)"
    and handler: "\<And>i js. ends (HandleRegistration h i js)" "\<And>i js. ends (HandleTelemetry h i js)"
  shows "device_ends (device_task send local_clock remote_last h dev)"
proof -
  have e: "ends (endpoint_do send ep req)" for ep req using send by (simp add: endpoint_do_def)
  have "ends (holder_handle_registration h i js)" for i js
    using handler(1) [of i js] by (auto simp: ends_in_def holder_handle_registration_def lift_snd_def split: prod.split)
      (metis fst_conv)+
  then show ?thesis
    using e handler
    by (auto simp: device_task_def new_poll_device_def device_ends_def id_holder_def holder_handle_telemetry_def
        func_synchronizer_def basic_verify_time_def [abs_def]
        intro!: ends_lift_snd url_fetch_ends sync_time_ends http_clock_ends drift_verify_ends clocks
        split: clock_synchronizer.split clock_verifier.split)
qed

end
