(* ===== verification/Monitoring.thy ===== *)
theory Monitoring
  imports Devices PollEnds
begin

text \<open>
  The hub over time: requests to the store of the application, services that are announced, polls
  of the devices, runs of the alive monitor and the passing of time, in any order. A poll runs the
  whole task of the device: the HTTP transactions, the checks and the data handler; a poll that
  succeeds then waits for the mutex of the monitor, which other calls may have or take before it,
  and reports to the monitor as an event of its own. What the monitor makes of a device depends
  on when the device was added or reported for the last time. A removal that meets a task that
  waits never returns: \<open>MonitorLock\<close> has the steps of that deadlock.
\<close>

section \<open>The task of a node\<close>

text \<open>
  What the application is built from: the database, the time zone, the order of map iterations,
  the JSON decoder, the transactions of the HTTP clients, the two clocks and the data handler.
\<close>

record ('d, 'w) parts =
  hp_db :: "'d db"
  hp_fmt1123 :: "i64 \<Rightarrow> string"
  hp_order :: "string set \<Rightarrow> string list"
  hp_lib :: json_lib
  hp_send :: "http_client \<Rightarrow> i64 \<Rightarrow> 'w http_do"
  hp_local_clock :: "'w system_clock"
  hp_remote_last :: "'w system_clock"
  hp_data_handler :: "'w data_handler"

text \<open>
  The state of the hub: the application, the devices whose task stands before the mutex of the
  monitor in \<^verbatim>\<open>notifyAlive\<close>, and the rest of the world.
\<close>

type_synonym ('r, 'd) hub_app = "alive_monitor \<times> 'r runner \<times> 'd cache_store"

type_synonym ('r, 'd, 'w) hub = "('r, 'd) hub_app \<times> string set \<times> 'w"

text \<open>The run of the polling device of a node: the node keeps the identifiers that were learned.\<close>

definition poll_node :: "('d, 'w) parts \<Rightarrow> store_node \<Rightarrow> 'w \<Rightarrow> err option outcome \<times> store_node \<times> 'w" where
  "poll_node hp n w =
     (case poll_run (hp_lib hp)
             (device_task (hp_send hp) (hp_local_clock hp) (hp_remote_last hp) (hp_data_handler hp)
                (sn_device n), (sn_holder n, w)) of
        (out, (d, (h, w))) \<Rightarrow>
          (out, (n\<lparr>sn_holder := h, sn_device := (sn_device n)\<lparr>hd_deviceID := pd_deviceID d\<rparr>\<rparr>, w)))"

definition set_node :: "string \<Rightarrow> store_node \<Rightarrow> 'd cache_store \<Rightarrow> 'd cache_store" where
  "set_node u n cs = cs\<lparr>cs_nodes := map_option (\<lambda>m. m(u \<mapsto> n)) (cs_nodes cs)\<rparr>"

definition poll_task :: "('d, 'w) parts \<Rightarrow> string \<Rightarrow> store_node \<Rightarrow> ('r, 'd, 'w) hub task" where
  "poll_task hp u n = (\<lambda>((m, r, cs), (q, w)).
     (case poll_node hp n w of (out, (n, w)) \<Rightarrow> (out, ((m, r, set_node u n cs), (q, w)))))"

text \<open>
  The task of a node up to the mutex: a poll that succeeds is followed by \<^verbatim>\<open>notifyAlive\<close>, which
  first waits for the mutex. A node that was made before \<^verbatim>\<open>SetAliveMonitor\<close> has no notifier.
\<close>

definition await_mutex :: "string \<Rightarrow> (('r, 'd, 'w) hub, unit) action" where
  "await_mutex u = (\<lambda>(a, (q, w)). (Ret (), (a, (insert u q, w))))"

definition node_task :: "('d, 'w) parts \<Rightarrow> string \<Rightarrow> store_node \<Rightarrow> ('r, 'd, 'w) hub task" where
  "node_task hp u n =
     (case hd_notifier (sn_device n) of
        None \<Rightarrow> poll_task hp u n
      | Some uri \<Rightarrow> task_alive_notifier_run (poll_task hp u n) (await_mutex u))"

text \<open>
  The store under the monitor while the tasks of the devices \<open>q\<close> wait for the mutex. Whoever calls
  \<^verbatim>\<open>Remove\<close> here has the mutex. The removal of a device ends with the \<^verbatim>\<open>Stop\<close> of its runner,
  which returns when the task has; so a removal of one of \<open>q\<close> that gets to that point never
  returns. What such a call leaves behind is not described.
\<close>

definition busy_store :: "string set \<Rightarrow> 's store \<Rightarrow> 's store" where
  "busy_store q st = st\<lparr>store_Remove := (\<lambda>u s.
     case store_Remove st u s of
       (Ret None, s') \<Rightarrow> (if u \<in> q then Hang else Ret None, s')
     | x \<Rightarrow> x)\<rparr>"

section \<open>Events\<close>

text \<open>
  \<open>Poll u\<close>: the runner of the device runs its task, up to the mutex of the monitor if the poll
  succeeds. \<open>Notified u\<close>: that task gets the mutex, records the device and ends. \<open>Verify ord\<close>:
  the monitor runs and the runtime visits its map in the order \<open>ord\<close>. \<open>Tick t wall f\<close>: time
  passes, the monotonic clock reads \<open>t\<close> and the wall clock \<open>wall\<close> from now on, and the rest of the
  world changes by \<open>f\<close>. Additions, removals and runs of the monitor have the mutex from their
  beginning to their end, so each is one event; a poll touches neither the monitor nor the devices
  of the store before it ends, so it is one event at its end.
\<close>

datatype 'w hub_event =
    Client store_op
  | Announced service
  | Poll string
  | Notified string
  | Verify "string list"
  | Tick i64 i64 "'w \<Rightarrow> 'w"

text \<open>
  What came of an event: a result, a panic, which \<^verbatim>\<open>CrashTask\<close> recovers, or nothing: the event
  cannot take place, because there is no such device, because its task waits already or because
  it does not wait.
\<close>

datatype hub_note = Done "err option" | Crashed | Idle

abbreviation hub_store :: "('d, 'w) parts \<Rightarrow> ('r, 'd) hub_app store" where
  "hub_store hp \<equiv> app_store (hp_db hp) (hp_fmt1123 hp) (hp_order hp)"

abbreviation hub_devices :: "('d, 'w) parts \<Rightarrow> string set \<Rightarrow> ('r runner \<times> 'd cache_store) store" where
  "hub_devices hp q \<equiv> busy_store q (app_awake_store (hp_db hp) (hp_fmt1123 hp) (hp_order hp))"

definition noted :: "('s, err option) action \<Rightarrow> ('s, hub_note) action" where
  "noted f s =
     (case f s of
        (Ret e, s) \<Rightarrow> (Ret (Done e), s)
      | (Panic, s) \<Rightarrow> (Panic, s)
      | (Hang, s) \<Rightarrow> (Hang, s))"

definition poll_step :: "('d, 'w) parts \<Rightarrow> string \<Rightarrow> (('r, 'd, 'w) hub, hub_note) action" where
  "poll_step hp u = (\<lambda>((m, r, cs), (q, w)).
     if u \<in> q then (Ret Idle, ((m, r, cs), (q, w)))
     else (case nodes_of cs u of
        None \<Rightarrow> (Ret Idle, ((m, r, cs), (q, w)))
      | Some n \<Rightarrow>
          (case node_task hp u n ((m, r, cs), (q, w)) of
             (Ret e, s) \<Rightarrow> (Ret (Done e), s)
           | (Panic, s) \<Rightarrow> (Ret Crashed, s)
           | (Hang, s) \<Rightarrow> (Hang, s))))"

definition notified_step :: "string \<Rightarrow> (('r, 'd, 'w) hub, hub_note) action" where
  "notified_step u = (\<lambda>((m, r, cs), (q, w)).
     if u \<notin> q then (Ret Idle, ((m, r, cs), (q, w)))
     else (case Option.bind (nodes_of cs u) (\<lambda>n. hd_notifier (sn_device n)) of
        None \<Rightarrow> (Ret Idle, ((m, r, cs), (q, w)))
      | Some uri \<Rightarrow>
          and_then (lift_fst (notify_alive app_now uri)) (\<lambda>_ (a, (q, w)). (Ret (Done None), (a, (q - {u}, w))))
            ((m, r, cs), (q, w))))"

fun hub_step :: "('d, 'w) parts \<Rightarrow> 'w hub_event \<Rightarrow> (('r, 'd, 'w) hub, hub_note) action" where
  "hub_step hp (Client op) (a, (q, w)) =
     noted (lift_fst (run_op (monitor_store app_now (hub_devices hp q)) op)) (a, (q, w))"
| "hub_step hp (Announced svc) (a, (q, w)) =
     noted (lift_fst (mdns_handle_service (monitor_store app_now (hub_devices hp q)) svc)) (a, (q, w))"
| "hub_step hp (Poll u) s = poll_step hp u s"
| "hub_step hp (Notified u) s = notified_step u s"
| "hub_step hp (Verify ord) (a, (q, w)) =
     noted (lift_fst (monitor_run app_now (hub_devices hp q) ord)) (a, (q, w))"
| "hub_step hp (Tick t wall f) ((m, r, cs), (q, w)) =
     (Ret (Done None), ((m, r, cs\<lparr>cs_mono := t, cs_now := wall\<rparr>), (q, f w)))"

fun hub_run :: "('d, 'w) parts \<Rightarrow> 'w hub_event list \<Rightarrow> (('r, 'd, 'w) hub, hub_note list) action" where
  "hub_run hp [] s = (Ret [], s)"
| "hub_run hp (ev # evs) s =
     and_then (hub_step hp ev) (\<lambda>nt. and_then (hub_run hp evs) (\<lambda>nts s. (Ret (nt # nts), s))) s"

section \<open>What the events say about a device\<close>

text \<open>
  The time after an event, and the time of the last report of the task of \<open>u\<close> after it.
\<close>

fun clock_step :: "'w hub_event \<Rightarrow> i64 \<Rightarrow> i64" where
  "clock_step (Tick t wall f) now = t"
| "clock_step _ now = now"

fun seen_step :: "string \<Rightarrow> 'w hub_event \<Rightarrow> hub_note \<Rightarrow> i64 \<Rightarrow> i64 \<Rightarrow> i64" where
  "seen_step u (Notified v) nt now seen = (if v = u \<and> nt = Done None then now else seen)"
| "seen_step u _ nt now seen = seen"

fun times_after :: "string \<Rightarrow> ('w hub_event \<times> hub_note) list \<Rightarrow> i64 \<Rightarrow> i64 \<Rightarrow> i64 \<times> i64" where
  "times_after u [] now seen = (now, seen)"
| "times_after u ((ev, nt) # evs) now seen =
     times_after u evs (clock_step ev now) (seen_step u ev nt now seen)"

text \<open>
  Nobody asks to remove \<open>u\<close>, and whenever the monitor runs, the last report is less than the
  maximum interval ago.
\<close>

fun harmless :: "string \<Rightarrow> i64 \<Rightarrow> 'w hub_event \<Rightarrow> i64 \<Rightarrow> i64 \<Rightarrow> bool" where
  "harmless u max_inactive (Verify ord) now seen =
     (mono_sub now seen < sint max_inactive \<and> distinct ord)"
| "harmless u max_inactive (Client op) now seen = (op \<noteq> RemoveOp u)"
| "harmless u max_inactive _ now seen = True"

fun polled_in_time :: "string \<Rightarrow> i64 \<Rightarrow> ('w hub_event \<times> hub_note) list \<Rightarrow> i64 \<Rightarrow> i64 \<Rightarrow> bool" where
  "polled_in_time u max_inactive [] now seen = True"
| "polled_in_time u max_inactive ((ev, nt) # evs) now seen =
     (harmless u max_inactive ev now seen \<and>
      polled_in_time u max_inactive evs (clock_step ev now) (seen_step u ev nt now seen))"

section \<open>What the hub keeps\<close>

text \<open>A task notifies the monitor of its own device, if it has a notifier.\<close>

definition own_notifiers :: "'d cache_store \<Rightarrow> bool" where
  "own_notifiers cs \<longleftrightarrow> (\<forall>v n. nodes_of cs v = Some n \<longrightarrow> hd_notifier (sn_device n) \<in> {None, Some v})"

text \<open>
  The monitor has seen the device at the time \<open>seen\<close>, the task of the device will notify it, and
  the node of the device is a \<open>P\<close>.
\<close>

definition watched :: "('d \<Rightarrow> bool) \<Rightarrow> (store_node \<Rightarrow> bool) \<Rightarrow> i64 \<Rightarrow> string \<Rightarrow> i64 \<Rightarrow> i64
    \<Rightarrow> ('r, 'd) hub_app \<Rightarrow> bool" where
  "watched ok P max_inactive u now seen = (\<lambda>(m, r, cs).
     app_inv ok (m, r, cs) \<and> own_notifiers cs \<and> cs_mono cs = now \<and>
     am_maxInactiveInterval m = max_inactive \<and> am_devices m u = Some seen \<and>
     (\<exists>n. nodes_of cs u = Some n \<and> hd_notifier (sn_device n) = Some u \<and> P n))"

definition polls_keep :: "('d, 'w) parts \<Rightarrow> (store_node \<Rightarrow> bool) \<Rightarrow> bool" where
  "polls_keep hp P \<longleftrightarrow> (\<forall>n w out n' w'. P n \<longrightarrow> poll_node hp n w = (out, (n', w')) \<longrightarrow> P n')"

definition polls_succeed :: "('d, 'w) parts \<Rightarrow> (store_node \<Rightarrow> bool) \<Rightarrow> bool" where
  "polls_succeed hp P \<longleftrightarrow> (\<forall>n w. P n \<longrightarrow> (\<exists>n' w'. poll_node hp n w = (Ret None, (n', w')) \<and> P n'))"

lemma succeed_keeps:
  assumes "polls_succeed hp P"
  shows "polls_keep hp P"
  unfolding polls_keep_def
proof (intro allI impI)
  fix n w out n' w'
  assume "P n" and p: "poll_node hp n w = (out, (n', w'))"
  then obtain n1 w1 where "poll_node hp n w = (Ret None, (n1, w1))" "P n1"
    using assms unfolding polls_succeed_def by blast
  with p show "P n'" by simp
qed

definition parts_end :: "('d, 'w) parts \<Rightarrow> bool" where
  "parts_end hp \<longleftrightarrow>
     (\<forall>client timeout req. ends (hp_send hp client timeout req)) \<and>
     ends (clock_get (hp_local_clock hp)) \<and> ends (clock_get (hp_remote_last hp)) \<and>
     (\<forall>i js. ends (HandleRegistration (hp_data_handler hp) i js) \<and>
        ends (HandleTelemetry (hp_data_handler hp) i js))"

lemma poll_node_ends:
  assumes "parts_end hp"
  shows "fst (poll_node hp n w) \<noteq> Hang"
proof -
  let ?d = "device_task (hp_send hp) (hp_local_clock hp) (hp_remote_last hp) (hp_data_handler hp) (sn_device n)"
  have "device_ends ?d" by (rule device_task_ends) (use assms in \<open>auto simp: parts_end_def\<close>)
  then have "fst (poll_run (hp_lib hp) (?d, (sn_holder n, w))) \<noteq> Hang"
    using poll_run_ends [of "hp_lib hp"] by (auto simp: ends_in_def)
  then show ?thesis by (auto simp: poll_node_def split: prod.split)
qed

lemma nodes_of_set_node [simp]:
  "cs_nodes cs \<noteq> None \<Longrightarrow> nodes_of (set_node u n cs) = (nodes_of cs)(u \<mapsto> n)"
  by (auto simp: set_node_def nodes_of_def)

lemma poll_node_keeps:
  "poll_node hp n w = (out, (n', w')) \<Longrightarrow>
   sn_uri n' = sn_uri n \<and> sn_starts n' = sn_starts n \<and>
   hd_notifier (sn_device n') = hd_notifier (sn_device n)"
  by (auto simp: poll_node_def split: prod.splits)

text \<open>A poll changes no part of the application but the identifiers of its node.\<close>

lemma set_node_inv:
  assumes "app_inv ok (m, r, cs)" and "nodes_of cs u = Some n"
    and "sn_uri n' = sn_uri n" "sn_starts n' = sn_starts n"
  shows "app_inv ok (m, r, set_node u n' cs)"
proof -
  have "cs_nodes cs \<noteq> None" using assms(1) by (simp add: app_inv_def live_def)
  moreover have "cs_db (set_node u n' cs) = cs_db cs" "cs_nodes (set_node u n' cs) = None \<longleftrightarrow> cs_nodes cs = None"
    by (simp_all add: set_node_def)
  moreover from calculation have "nodes_of (set_node u n' cs) = (nodes_of cs)(u \<mapsto> n')"
    "dom (nodes_of (set_node u n' cs)) = dom (nodes_of cs)"
    using assms(2) by auto
  ultimately show ?thesis using assms by (auto simp: app_inv_def live_def cached_uris_def)
qed

lemma node_task_poll:
  assumes "poll_node hp n w = (out, (n', w'))"
  shows "node_task hp v n ((m, r, cs), (q, w)) =
     (out, ((m, r, set_node v n' cs),
        (if out = Ret None \<and> hd_notifier (sn_device n) \<noteq> None then insert v q else q, w')))"
proof -
  have p: "poll_task hp v n ((m, r, cs), (q, w)) = (out, ((m, r, set_node v n' cs), (q, w')))"
    using assms by (simp add: poll_task_def)
  show ?thesis
  proof (cases out)
    case (Ret e)
    with p show ?thesis
      by (cases e) (auto simp: node_task_def task_alive_notifier_run_def await_mutex_def outcome_simps
          split: option.splits)
  qed (use p in \<open>auto simp: node_task_def task_alive_notifier_run_def and_then_def split: option.splits\<close>)
qed

text \<open>A poll of a node that is known and whose task does not wait.\<close>

lemma poll_step_known:
  assumes "poll_node hp n w = (out, (n', w'))" and "nodes_of cs v = Some n" and "v \<notin> q"
  shows "poll_step hp v ((m, r, cs), (q, w)) =
     (case out of Ret e \<Rightarrow> Ret (Done e) | Panic \<Rightarrow> Ret Crashed | Hang \<Rightarrow> Hang,
      ((m, r, set_node v n' cs),
        (if out = Ret None \<and> hd_notifier (sn_device n) \<noteq> None then insert v q else q, w')))"
  using assms(2,3) node_task_poll [OF assms(1), of v m r cs q]
  by (auto simp: poll_step_def noted_def split: outcome.split)

text \<open>The hub keeps the device, and every task that waits is one of a device of the store.\<close>

definition hub_keeps :: "('d \<Rightarrow> bool) \<Rightarrow> (store_node \<Rightarrow> bool) \<Rightarrow> i64 \<Rightarrow> string \<Rightarrow> i64 \<Rightarrow> i64
    \<Rightarrow> ('r, 'd, 'w) hub \<Rightarrow> bool" where
  "hub_keeps ok P max_inactive u now seen = (\<lambda>(a, (q, w)).
     watched ok P max_inactive u now seen a \<and> q \<subseteq> app_uris a)"

text \<open>Whether the task of \<open>u\<close> waits for the mutex after an event.\<close>

fun waits_step :: "string \<Rightarrow> 'w hub_event \<Rightarrow> hub_note \<Rightarrow> bool \<Rightarrow> bool" where
  "waits_step u (Poll v) nt waiting = (waiting \<or> v = u \<and> nt = Done None)"
| "waits_step u (Notified v) nt waiting = (waiting \<and> v \<noteq> u)"
| "waits_step u _ nt waiting = waiting"

lemma keeps_poll:
  assumes k: "hub_keeps ok P max_inactive u now seen ((m, r, cs), (q, x))"
    and keep: "polls_keep hp P"
    and step: "poll_step hp v ((m, r, cs), (q, x)) = (Ret nt, (a', (q', x')))"
  shows "hub_keeps ok P max_inactive u now seen (a', (q', x')) \<and>
     (u \<in> q' \<longleftrightarrow> waits_step u (Poll v) nt (u \<in> q))"
proof (cases "nodes_of cs v = None \<or> v \<in> q")
  case True
  then have "poll_step hp v ((m, r, cs), (q, x)) = (Ret Idle, ((m, r, cs), (q, x)))"
    by (auto simp: poll_step_def)
  then show ?thesis using k step by auto
next
  case False
  then obtain n where n: "nodes_of cs v = Some n" and v: "v \<notin> q" by auto
  have w: "watched ok P max_inactive u now seen (m, r, cs)" and q: "q \<subseteq> cached_uris cs"
    using k by (simp_all add: hub_keeps_def)
  have own: "hd_notifier (sn_device n) \<in> {None, Some v}" "v = u \<Longrightarrow> hd_notifier (sn_device n) = Some u \<and> P n"
    using w n by (auto simp: watched_def own_notifiers_def)
  obtain out n' x1 where p: "poll_node hp n x = (out, (n', x1))" by (cases "poll_node hp n x") auto
  note kept = poll_node_keeps [OF p]
  have s': "a' = (m, r, set_node v n' cs)" "x' = x1"
      "q' = (if out = Ret None \<and> hd_notifier (sn_device n) \<noteq> None then insert v q else q)"
    and nt: "nt = Done None \<longleftrightarrow> out = Ret None"
    using step unfolding poll_step_known [OF p n v] by (auto split: outcome.splits)
  have inv: "app_inv ok (m, r, cs)" "cs_nodes cs \<noteq> None" using w by (auto simp: watched_def app_inv_def live_def)
  have "app_inv ok (m, r, set_node v n' cs)" using set_node_inv [OF inv(1) n] kept by simp
  moreover have "own_notifiers (set_node v n' cs)"
    using w own(1) kept inv(2) by (auto simp: watched_def own_notifiers_def)
  moreover have "\<exists>n. nodes_of (set_node v n' cs) u = Some n \<and> hd_notifier (sn_device n) = Some u \<and> P n"
    using w own(2) kept inv(2) keep p by (fastforce simp: watched_def polls_keep_def)
  ultimately have "watched ok P max_inactive u now seen (m, r, set_node v n' cs)"
    using w by (simp add: watched_def set_node_def)
  moreover have "cached_uris (set_node v n' cs) = insert v (cached_uris cs)"
    unfolding cached_uris_def nodes_of_set_node [OF inv(2)] by simp
  ultimately show ?thesis using q own(2) v by (auto simp: hub_keeps_def s' nt)
qed

lemma keeps_notified:
  assumes k: "hub_keeps ok P max_inactive u now seen ((m, r, cs), (q, x))"
    and step: "notified_step v ((m, r, cs), (q, x)) = (Ret nt, (a', (q', x')))"
  shows "hub_keeps ok P max_inactive u now (seen_step u (Notified v) nt now seen) (a', (q', x')) \<and>
     (u \<in> q' \<longleftrightarrow> waits_step u (Notified v) nt (u \<in> q))"
proof (cases "v \<in> q")
  case False
  then show ?thesis using k step by (auto simp: notified_step_def)
next
  case True
  have w: "watched ok P max_inactive u now seen (m, r, cs)" and q: "q \<subseteq> cached_uris cs"
    using k by (simp_all add: hub_keeps_def)
  then have v: "v \<in> cached_uris cs" using True by blast
  then obtain n where n: "nodes_of cs v = Some n" by (auto simp: cached_uris_def)
  have own: "hd_notifier (sn_device n) \<in> {None, Some v}" "v = u \<Longrightarrow> hd_notifier (sn_device n) = Some u"
    using w n by (auto simp: watched_def own_notifiers_def)
  show ?thesis
  proof (cases "hd_notifier (sn_device n)")
    case None
    then show ?thesis using k step True n own(2) by (auto simp: notified_step_def)
  next
    case (Some uri)
    then have s': "a' = (set_device v (cs_mono cs) m, r, cs)" "q' = q - {v}" and nt: "nt = Done None"
      using step True n own(1)
      by (auto simp: notified_step_def notify_alive_def outcome_simps)
    have "watched ok P max_inactive u now (if v = u then now else seen) a'"
      using w v by (auto simp: watched_def s' set_device_def app_inv_def)
    then show ?thesis using q by (auto simp: hub_keeps_def s' nt)
  qed
qed

lemma watched_Tick:
  "watched ok P max_inactive u now seen (m, r, cs) \<Longrightarrow>
   watched ok P max_inactive u t seen (m, r, cs\<lparr>cs_mono := t, cs_now := wall\<rparr>)"
  by (simp add: watched_def app_inv_def live_def cached_uris_def nodes_of_def own_notifiers_def)

lemma cache_remove_other:
  assumes "cache_remove db v cs = (x, cs')"
  shows "nodes_of cs' \<in> {nodes_of cs, (nodes_of cs)(v := None)}"
  using assms
  by (auto simp: cache_remove_def nodes_of_def split: option.splits outcome.splits prod.splits)

lemma cache_remove_notifiers:
  "cache_remove db v cs = (x, cs') \<Longrightarrow> own_notifiers cs \<Longrightarrow> own_notifiers cs'"
  using cache_remove_other [of db v cs x cs'] by (fastforce simp: own_notifiers_def split: if_splits)

context monitored_store
begin

text \<open>An invariant of the removals of inactive devices is an invariant of a run.\<close>

lemma run_loop_invariant:
  assumes "minv (m, s)" and "Q m s"
    and keeps: "\<And>m s v e s'. minv (m, s) \<Longrightarrow> Q m s \<Longrightarrow> v \<in> dom (am_devices m) \<Longrightarrow>
      \<not> device_active (mono s) m v \<Longrightarrow> store_Remove st v s = (Ret e, s') \<Longrightarrow>
      Q (if e = None then delete_device v m else m) s'"
    and "run_loop now st ord (m, s) = (r, (m', s'))"
  shows "Q m' s'"
  using assms(1,2,4)
proof (induction ord arbitrary: m s)
  case (Cons v ord)
  have inv: "inv s" using Cons.prems(1) by (simp add: minv_def)
  note now = now_reads [OF inv]
  show ?case
  proof (cases "am_devices m v")
    case None
    then show ?thesis using Cons by simp
  next
    case (Some t)
    show ?thesis
    proof (cases "device_active (mono s) m v")
      case True
      then show ?thesis using Cons Some now by (simp add: device_active_def outcome_simps)
    next
      case False
      obtain e s1 where r: "store_Remove st v s = (Ret e, s1)" "inv s1"
        "uris s1 = (if e = None then uris s - {v} else uris s)"
        using remove_returns [OF inv, of v] by blast
      let ?m = "if e = None then delete_device v m else m"
      have "v \<in> dom (am_devices m)" using Some by blast
      from keeps [OF Cons.prems(1,2) this False r(1)] have q: "Q ?m s1" .
      have "minv (?m, s1)" using r Cons.prems(1) by (auto simp: minv_def delete_device_def)
      from Cons.IH [OF this q] q show ?thesis
        using Cons.prems(3) Some False now r(1)
        by (cases e) (auto simp: device_active_def outcome_simps)
    qed
  qed
qed simp

text \<open>
  A run while tasks wait: it is the run of the store, which removes none of the devices that
  wait, or it does not return, and one of the devices that it would remove waits.
\<close>

lemma busy_run_loop:
  assumes "minv (m, s)" and "q \<subseteq> uris s"
  shows "fst (run_loop now (busy_store q st) ord (m, s)) = Hang \<and>
       (\<exists>v \<in> set ord \<inter> q. \<not> device_active (mono s) m v) \<or>
     run_loop now (busy_store q st) ord (m, s) = run_loop now st ord (m, s) \<and>
       q \<subseteq> uris (snd (snd (run_loop now st ord (m, s))))"
  using assms
proof (induction ord arbitrary: m s)
  case (Cons v ord)
  have inv: "inv s" using Cons.prems(1) by (simp add: minv_def)
  note now = now_reads [OF inv]
  show ?case
  proof (cases "am_devices m v")
    case None
    then show ?thesis using Cons.IH [OF Cons.prems] by auto
  next
    case (Some t)
    show ?thesis
    proof (cases "device_active (mono s) m v")
      case True
      then show ?thesis using Some now Cons.IH [OF Cons.prems] by (auto simp: device_active_def outcome_simps)
    next
      case False
      obtain e s1 where r: "store_Remove st v s = (Ret e, s1)" "inv s1"
        "uris s1 = (if e = None then uris s - {v} else uris s)"
        using remove_returns [OF inv, of v] by blast
      note late = Some False now r(1)
      show ?thesis
      proof (cases e)
        case (Some e')
        then show ?thesis using late r(3) Cons.prems(2)
          by (auto simp: device_active_def outcome_simps busy_store_def)
      next
        case None
        show ?thesis
        proof (cases "v \<in> q")
          case True
          then show ?thesis using late None
            by (auto simp: device_active_def outcome_simps busy_store_def and_then_def lift_snd_def)
        next
          case waits: False
          have minv: "minv (delete_device v m, s1)"
            using r None Cons.prems(1) by (auto simp: minv_def delete_device_def)
          have mono: "mono s1 = mono s" using remove_mono [OF inv, of v] r(1) by simp
          have active: "\<not> device_active (mono s1) (delete_device v m) w \<Longrightarrow> w \<noteq> v \<Longrightarrow> \<not> device_active (mono s) m w" for w
            by (auto simp: device_active_def delete_device_def mono)
          have "q \<subseteq> uris s1" using r(3) None waits Cons.prems(2) by auto
          from Cons.IH [OF minv this] active waits show ?thesis
            using late None by (auto simp: device_active_def outcome_simps busy_store_def)
        qed
      qed
    qed
  qed
qed simp


lemma run_loop_keeps:
  assumes "minv (m, s)" and "am_devices m u = Some t" and "mono_sub (mono s) t < sint (am_maxInactiveInterval m)"
    and "P s"
    and keeps: "\<And>v s x s'. v \<noteq> u \<Longrightarrow> P s \<Longrightarrow> store_Remove st v s = (x, s') \<Longrightarrow> P s'"
    and "run_loop now st ord (m, s) = (r, (m', s'))"
  shows "am_devices m' u = Some t \<and> am_maxInactiveInterval m' = am_maxInactiveInterval m \<and>
     mono s' = mono s \<and> P s'"
proof (rule run_loop_invariant [OF assms(1) _ _ assms(6)])
  fix m1 s1 v e s2
  assume 1: "minv (m1, s1)" "am_devices m1 u = Some t \<and>
      am_maxInactiveInterval m1 = am_maxInactiveInterval m \<and> mono s1 = mono s \<and> P s1"
    and 2: "\<not> device_active (mono s1) m1 v" "store_Remove st v s1 = (Ret e, s2)"
  then have "v \<noteq> u" using assms(3) by (auto simp: device_active_def)
  moreover have "mono s2 = mono s1" using remove_mono [of s1 v] 1(1) 2(2) by (simp add: minv_def)
  ultimately show "am_devices (if e = None then delete_device v m1 else m1) u = Some t \<and>
      am_maxInactiveInterval (if e = None then delete_device v m1 else m1) = am_maxInactiveInterval m \<and>
      mono s2 = mono s \<and> P s2"
    using 1(2) keeps [OF _ _ 2(2)] by (simp add: delete_device_def)
qed (use assms in simp)

end

context cached_devices
begin

lemma add_notifiers:
  assumes "live ok cs" and "own_notifiers cs" and "nodes_of cs v = None"
  shows "\<exists>e cs'. cache_add db fmt1123 v t d cs = (Ret e, cs') \<and> cs_mono cs' = cs_mono cs \<and>
     own_notifiers cs' \<and> (\<forall>u. nodes_of cs u \<noteq> None \<longrightarrow> nodes_of cs' u = nodes_of cs u) \<and>
     (e = None \<and> cs_monitor cs \<longrightarrow> (\<exists>n. nodes_of cs' v = Some n \<and> hd_notifier (sn_device n) = Some v))"
proof -
  obtain e cs' where a: "cache_add db fmt1123 v t d cs = (Ret e, cs')" "cs_mono cs' = cs_mono cs"
    "added db fmt1123 v t d e cs cs'"
    using cache_add_spec [OF assms(1,3)] by blast
  show ?thesis
  proof (cases e)
    case None
    then obtain n where "nodes_of cs' = (nodes_of cs)(v \<mapsto> n)"
      "hd_notifier (sn_device n) = (if cs_monitor cs then Some v else None)"
      using a(3) by (auto simp: added_def Let_def)
    then show ?thesis using a assms None by (auto simp: own_notifiers_def)
  next
    case (Some e')
    then have "nodes_of cs' = nodes_of cs" using a(3) by (simp add: added_def Let_def)
    then show ?thesis using a assms Some by (auto simp: own_notifiers_def)
  qed
qed

lemma watched_add:
  assumes w: "watched ok P max_inactive u now seen (m, r, cs)"
  shows "\<exists>e s'. store_Add (app_store db fmt1123 order) v t d (m, r, cs) = (Ret e, s') \<and>
     watched ok P max_inactive u now seen s'"
proof (cases "nodes_of cs v")
  case (Some n)
  then have "v \<in> app_uris (m, r, cs)" by (auto simp: cached_uris_def)
  then show ?thesis using w device_store.add_known [OF app_store_is_store, of "(m, r, cs)" v fmt1123 t d]
    by (simp add: watched_def)
next
  case None
  then have v: "v \<noteq> u" using w by (auto simp: watched_def)
  have inv: "app_inv ok (m, r, cs)" "own_notifiers cs" using w by (simp_all add: watched_def)
  then have "live ok cs" by (simp add: app_inv_def)
  then obtain e cs' where a: "cache_add db fmt1123 v t d cs = (Ret e, cs')" "cs_mono cs' = cs_mono cs"
    "own_notifiers cs'" "\<forall>u. nodes_of cs u \<noteq> None \<longrightarrow> nodes_of cs' u = nodes_of cs u"
    using add_notifiers [OF _ inv(2) None] by blast
  from device_store.add_returns [OF app_store_is_store inv(1), of fmt1123 v t d]
  have inv': "app_inv ok (if e = None then set_device v (cs_mono cs') m else m,
      if e = None then runner_awake r else r, cs')"
    unfolding app_add [OF a(1)] by auto
  have "watched ok P max_inactive u now seen (if e = None then set_device v (cs_mono cs') m else m,
      if e = None then runner_awake r else r, cs')"
    using w a(2-4) inv' v by (auto simp: watched_def set_device_def)
  then show ?thesis unfolding app_add [OF a(1)] by blast
qed

lemma app_remove:
  assumes "cache_remove db v cs = (Ret e, cs')"
  shows "store_Remove (app_store db fmt1123 order) v (m, r, cs) =
     (Ret e, (if e = None then delete_device v m else m, r, cs'))"
  using assms by (cases e) (simp_all add: app_store_def monitor_store_def monitor_remove_def outcome_simps)

lemma remove_mono_kept:
  assumes "live ok cs"
  shows "\<exists>e cs'. cache_remove db v cs = (Ret e, cs') \<and> cs_mono cs' = cs_mono cs"
  using cache_remove_spec [OF assms, of v] by (cases "nodes_of cs v") (auto simp: cache_remove_def)

lemma watched_remove:
  assumes w: "watched ok P max_inactive u now seen (m, r, cs)" and v: "v \<noteq> u"
  shows "\<exists>e s'. store_Remove (app_store db fmt1123 order) v (m, r, cs) = (Ret e, s') \<and>
     watched ok P max_inactive u now seen s'"
proof -
  have inv: "app_inv ok (m, r, cs)" using w by (simp add: watched_def)
  then have "live ok cs" by (simp add: app_inv_def)
  then obtain e cs' where c: "cache_remove db v cs = (Ret e, cs')" "cs_mono cs' = cs_mono cs"
    using remove_mono_kept by blast
  from device_store.remove_returns [OF app_store_is_store inv, of fmt1123 v]
  have inv': "app_inv ok (if e = None then delete_device v m else m, r, cs')"
    unfolding app_remove [OF c(1)] by auto
  have "own_notifiers cs'" "nodes_of cs' u = nodes_of cs u"
    using cache_remove_notifiers [OF c(1)] cache_remove_other [OF c(1)] w v by (auto simp: watched_def)
  then have "watched ok P max_inactive u now seen (if e = None then delete_device v m else m, r, cs')"
    using w c(2) inv' v by (auto simp: watched_def delete_device_def)
  then show ?thesis unfolding app_remove [OF c(1)] by blast
qed

lemma watched_verify:
  assumes w: "watched ok P max_inactive u now seen (m, r, cs)" and "distinct ord"
    and "mono_sub now seen < sint max_inactive"
  shows "\<exists>e s'. monitor_run app_now (app_awake_store db fmt1123 order) ord (m, r, cs) = (Ret e, s') \<and>
     watched ok P max_inactive u now seen s'"
proof -
  have inv: "app_inv ok (m, r, cs)" using w by (simp add: watched_def)
  obtain e m' r' cs' where run: "monitor_run app_now (app_awake_store db fmt1123 order) ord (m, r, cs) =
      (Ret e, (m', r', cs'))" "app_inv ok (m', r', cs')"
    using app_run_spec [OF inv assms(2), of fmt1123] by blast
  let ?K = "\<lambda>(_ :: 'b runner, cs1). nodes_of cs1 u = nodes_of cs u \<and> own_notifiers cs1"
  have keeps: "?K s'" if "v \<noteq> u" "?K s1" "store_Remove (app_awake_store db fmt1123 order) v s1 = (x, s')"
    for v s1 x s'
  proof -
    obtain r1 cs1 where s1: "s1 = (r1, cs1)" by (cases s1)
    obtain y cs2 where c: "cache_remove db v cs1 = (y, cs2)" by (cases "cache_remove db v cs1")
    then have "s' = (r1, cs2)" using that(3) by (simp add: s1 app_remove_Ret [OF c])
    then show ?thesis using cache_remove_other [OF c] cache_remove_notifiers [OF c] that(1,2) s1 by auto
  qed
  have "am_devices m' u = Some seen \<and> am_maxInactiveInterval m' = am_maxInactiveInterval m \<and>
      (case (r', cs') of (r, cs) \<Rightarrow> cs_mono cs) = (case (r, cs) of (r, cs) \<Rightarrow> cs_mono cs) \<and> ?K (r', cs')"
    by (rule app.run_loop_keeps [where ord = ord and P = ?K, OF _ _ _ _ keeps])
      (use w run assms(3) inv in \<open>auto simp: watched_def app_minv monitor_run_def\<close>)
  then show ?thesis using run w by (auto simp: watched_def)
qed

lemma watched_announced:
  assumes w: "watched ok P max_inactive u now seen (m, r, cs)"
  shows "\<exists>e s'. mdns_handle_service (app_store db fmt1123 order) svc (m, r, cs) = (Ret e, s') \<and>
     watched ok P max_inactive u now seen s'"
proof (cases "announces svc")
  case None
  then show ?thesis using w mdns_handle_other [of svc] by metis
next
  case (Some a)
  obtain v t d where a: "announces svc = Some (v, t, d)" using Some by (cases a) auto
  from watched_add [OF w, of fmt1123 v t d] obtain e s' where
    "store_Add (app_store db fmt1123 order) v t d (m, r, cs) = (Ret e, s')"
    "watched ok P max_inactive u now seen s'"
    by blast
  then have "mdns_handle_service (app_store db fmt1123 order) svc (m, r, cs) =
      (Ret (if e = Some ErrDeviceExist then None else e), s')"
    by (simp add: mdns_handle_announced [OF a] handle_autodiscovery_add_def outcome_simps)
  with \<open>watched ok P max_inactive u now seen s'\<close> show ?thesis by blast
qed

end

section \<open>What an event keeps\<close>

lemma noted_Ret:
  "noted (lift_fst f) (a, w) = (Ret nt, (a', w')) \<longleftrightarrow> (\<exists>e. f a = (Ret e, a') \<and> w' = w \<and> nt = Done e)"
  by (auto simp: noted_def lift_fst_def split: prod.splits outcome.splits)

lemma busy_add: "store_Add (monitor_store now (busy_store q st)) = store_Add (monitor_store now st)"
  by (simp add: monitor_store_def monitor_add_def busy_store_def fun_eq_iff)

lemma busy_mdns:
  "mdns_handle_service (monitor_store now (busy_store q st)) = mdns_handle_service (monitor_store now st)"
  unfolding mdns_handle_service_def handle_autodiscovery_def handle_autodiscovery_add_def busy_add ..

text \<open>A removal while tasks wait.\<close>

lemma busy_remove:
  "store_Remove (monitor_store now (busy_store q st)) v s =
     (case store_Remove (monitor_store now st) v s of
        (Ret None, s') \<Rightarrow>
          (if v \<in> q then store_Remove (monitor_store now (busy_store q st)) v s else (Ret None, s'))
      | x \<Rightarrow> x)"
  "v \<in> q \<Longrightarrow> fst (store_Remove (monitor_store now st) v s) = Ret None \<Longrightarrow>
   fst (store_Remove (monitor_store now (busy_store q st)) v s) = Hang"
  by (cases s; auto simp: monitor_store_def monitor_remove_def busy_store_def and_then_def lift_snd_def
      split: prod.splits outcome.splits option.splits if_splits)+

text \<open>
  The notes of the polls and the reports of a device whose polls succeed, by the events alone;
  and the notes that a run has of them.
\<close>

fun expected_note :: "string \<Rightarrow> bool \<Rightarrow> 'w hub_event \<Rightarrow> hub_note" where
  "expected_note u waiting (Poll v) = (if v = u \<and> waiting then Idle else Done None)"
| "expected_note u waiting (Notified v) = (if v = u \<and> \<not> waiting then Idle else Done None)"
| "expected_note u waiting _ = Done None"

fun expected_notes :: "string \<Rightarrow> bool \<Rightarrow> 'w hub_event list \<Rightarrow> hub_note list" where
  "expected_notes u waiting [] = []"
| "expected_notes u waiting (ev # evs) =
     expected_note u waiting ev #
     expected_notes u (waits_step u ev (expected_note u waiting ev) waiting) evs"

definition own_notes :: "string \<Rightarrow> ('w hub_event \<times> hub_note) list \<Rightarrow> hub_note list" where
  "own_notes u evs = map snd (filter (\<lambda>(ev, nt). ev = Poll u \<or> ev = Notified u) evs)"

text \<open>
  The event removes the device \<open>v\<close>, whose task waits for the mutex that the remover has: the
  deadlock of the monitor.
\<close>

definition removes_waiting :: "'w hub_event \<Rightarrow> ('r, 'd, 'w) hub \<Rightarrow> string \<Rightarrow> bool" where
  "removes_waiting ev = (\<lambda>((m, r, cs), (q, w)) v. v \<in> q \<and>
     (case ev of
        Client (RemoveOp x) \<Rightarrow> x = v
      | Verify ord \<Rightarrow> v \<in> set ord \<and> \<not> device_active (cs_mono cs) m v
      | _ \<Rightarrow> False))"

lemma own_event_notes:
  assumes k: "hub_keeps ok P max_inactive u now seen (a, (q, x))" and succeed: "polls_succeed hp P"
    and ev: "ev \<in> {Poll u, Notified u}" and step: "hub_step hp ev (a, (q, x)) = (Ret nt, s')"
  shows "nt = expected_note u (u \<in> q) ev"
proof -
  obtain m r cs where a: "a = (m, r, cs)" by (cases a)
  obtain n where n: "nodes_of cs u = Some n" "hd_notifier (sn_device n) = Some u" "P n"
    using k by (auto simp: hub_keeps_def watched_def a)
  obtain n' x1 where p: "poll_node hp n x = (Ret None, (n', x1))"
    using succeed n(3) unfolding polls_succeed_def by blast
  show ?thesis
  proof (cases "ev = Poll u")
    case True
    then show ?thesis using step poll_step_known [OF p n(1), of q m r]
      by (cases "u \<in> q") (auto simp: a poll_step_def)
  next
    case False
    then have ev: "ev = Notified u" using ev by simp
    then show ?thesis using step n(1,2)
      by (auto simp: a notified_step_def notify_alive_def outcome_simps)
  qed
qed

text \<open>The parts of the hub with a database of the contract.\<close>

locale hub = cached_devices "hp_db hp" ok "hp_order hp" for hp :: "('d, 'w) parts" and ok
begin

lemma busy_verify:
  assumes "app_inv ok (m, r, cs)" and "q \<subseteq> cached_uris cs"
  shows "fst (monitor_run app_now (hub_devices hp q) ord (m, r, cs)) = Hang \<and>
       (\<exists>v \<in> set ord \<inter> q. \<not> device_active (cs_mono cs) m v) \<or>
     monitor_run app_now (hub_devices hp q) ord (m, r, cs) =
       monitor_run app_now (app_awake_store (hp_db hp) (hp_fmt1123 hp) (hp_order hp)) ord (m, r, cs) \<and>
       q \<subseteq> app_uris (snd (monitor_run app_now (hub_devices hp q) ord (m, r, cs)))"
proof -
  have "app.minv (m, r, cs)" unfolding app_minv by (rule assms(1))
  from app.busy_run_loop [OF this, of q "hp_fmt1123 hp" ord] assms(2) show ?thesis
    by (auto simp: monitor_run_def split: prod.splits)
qed

lemma keeps_client:
  assumes k: "hub_keeps ok P max_inactive u now seen (a, (q, x))"
    and "harmless u max_inactive (Client op) now seen"
    and step: "hub_step hp (Client op) (a, (q, x)) = (Ret nt, s')"
  shows "hub_keeps ok P max_inactive u now seen s' \<and> fst (snd s') = q"
proof -
  obtain m r cs where a: "a = (m, r, cs)" by (cases a)
  have w: "watched ok P max_inactive u now seen (m, r, cs)" and q: "q \<subseteq> cached_uris cs"
    using k by (simp_all add: hub_keeps_def a)
  note inv = w [unfolded watched_def, simplified, THEN conjunct1]
  obtain e a' where e: "run_op (monitor_store app_now (hub_devices hp q)) op (m, r, cs) = (Ret e, a')"
    and s': "s' = (a', (q, x))"
    using step by (cases s') (auto simp: a noted_Ret)
  show ?thesis
  proof (cases op)
    case (AddOp v t d)
    then have "store_Add (hub_store hp) v t d (m, r, cs) = (Ret e, a')"
      using e by (simp add: busy_add app_store_def)
    moreover have "watched ok P max_inactive u now seen a'"
      using watched_add [OF w, of "hp_fmt1123 hp" v t d] calculation by auto
    moreover have "cached_uris cs \<subseteq> app_uris a'"
      using device_store.add_returns [OF app_store_is_store inv, of "hp_fmt1123 hp" v t d] calculation
      by (auto split: if_splits)
    ultimately show ?thesis using q by (auto simp: hub_keeps_def s')
  next
    case (RemoveOp v)
    have "store_Remove (hub_store hp) v (m, r, cs) = (Ret e, a') \<and> (v \<in> q \<longrightarrow> e \<noteq> None)"
      using e busy_remove(2) [of v q app_now "app_awake_store (hp_db hp) (hp_fmt1123 hp) (hp_order hp)" "(m, r, cs)"]
      unfolding RemoveOp run_op.simps app_store_def
      by (subst (asm) busy_remove(1)) (auto split: prod.splits outcome.splits option.splits if_splits)
    moreover from this have "watched ok P max_inactive u now seen a'"
      using watched_remove [OF w, of v "hp_fmt1123 hp"] assms(2) RemoveOp by auto
    moreover have "q \<subseteq> app_uris a'"
      using device_store.remove_returns [OF app_store_is_store inv, of "hp_fmt1123 hp" v] calculation(1) q
      by (auto split: if_splits)
    ultimately show ?thesis by (auto simp: hub_keeps_def s')
  qed
qed

lemma keeps_announced:
  assumes k: "hub_keeps ok P max_inactive u now seen (a, (q, x))"
    and step: "hub_step hp (Announced svc) (a, (q, x)) = (Ret nt, s')"
  shows "hub_keeps ok P max_inactive u now seen s' \<and> fst (snd s') = q"
proof -
  obtain m r cs where a: "a = (m, r, cs)" by (cases a)
  have w: "watched ok P max_inactive u now seen (m, r, cs)" and q: "q \<subseteq> cached_uris cs"
    using k by (simp_all add: hub_keeps_def a)
  have inv: "app_inv ok (m, r, cs)" using w by (simp add: watched_def)
  obtain e a' where e: "mdns_handle_service (hub_store hp) svc (m, r, cs) = (Ret e, a')"
    and s': "s' = (a', (q, x))"
    using step by (cases s') (auto simp: a noted_Ret busy_mdns app_store_def)
  have "watched ok P max_inactive u now seen a'"
    using watched_announced [OF w, of "hp_fmt1123 hp" svc] e by auto
  moreover have "cached_uris cs \<subseteq> app_uris a'"
    using device_store.mdns_returns [OF app_store_is_store inv, of "hp_fmt1123 hp" svc] e by auto
  ultimately show ?thesis using q by (auto simp: hub_keeps_def s')
qed

lemma keeps_verify:
  assumes k: "hub_keeps ok P max_inactive u now seen (a, (q, x))"
    and "harmless u max_inactive (Verify ord) now seen"
    and step: "hub_step hp (Verify ord) (a, (q, x)) = (Ret nt, s')"
  shows "hub_keeps ok P max_inactive u now seen s' \<and> fst (snd s') = q"
proof -
  obtain m r cs where a: "a = (m, r, cs)" by (cases a)
  have w: "watched ok P max_inactive u now seen (m, r, cs)" and q: "q \<subseteq> cached_uris cs"
    using k by (simp_all add: hub_keeps_def a)
  have inv: "app_inv ok (m, r, cs)" using w by (simp add: watched_def)
  obtain e a' where e: "monitor_run app_now (hub_devices hp q) ord (m, r, cs) = (Ret e, a')"
    and s': "s' = (a', (q, x))"
    using step by (cases s') (auto simp: a noted_Ret)
  from busy_verify [OF inv q, of ord] e
  have "monitor_run app_now (app_awake_store (hp_db hp) (hp_fmt1123 hp) (hp_order hp)) ord (m, r, cs) = (Ret e, a')"
    and q': "q \<subseteq> app_uris a'"
    by auto
  moreover have "watched ok P max_inactive u now seen a'"
    using watched_verify [OF w, of ord "hp_fmt1123 hp"] assms(2) calculation(1) by auto
  ultimately show ?thesis by (simp add: hub_keeps_def s')
qed

lemma keeps_step:
  assumes k: "hub_keeps ok P max_inactive u now seen (a, (q, x))"
    and keep: "polls_keep hp P"
    and harmless: "harmless u max_inactive ev now seen"
    and step: "hub_step hp ev (a, (q, x)) = (Ret nt, (a', (q', x')))"
  shows "hub_keeps ok P max_inactive u (clock_step ev now) (seen_step u ev nt now seen) (a', (q', x')) \<and>
     (u \<in> q' \<longleftrightarrow> waits_step u ev nt (u \<in> q))"
proof -
  obtain m r cs where a: "a = (m, r, cs)" by (cases a)
  show ?thesis
  proof (cases ev)
    case (Client op)
    from keeps_client [OF k harmless [unfolded this] step [unfolded this]] show ?thesis by (auto simp: Client)
  next
    case (Announced svc)
    from keeps_announced [OF k step [unfolded this]] show ?thesis by (auto simp: Announced)
  next
    case (Poll v)
    then show ?thesis using keeps_poll [OF k [unfolded a] keep] step by (simp add: a)
  next
    case (Notified v)
    then show ?thesis using keeps_notified [OF k [unfolded a]] step by (simp add: a)
  next
    case (Verify ord)
    from keeps_verify [OF k harmless [unfolded this] step [unfolded this]] show ?thesis by (auto simp: Verify)
  next
    case (Tick t wall f)
    then show ?thesis using k step watched_Tick [of ok P max_inactive u now seen m r cs t wall]
      by (auto simp: hub_keeps_def a cached_uris_def nodes_of_def)
  qed
qed

lemma keeps_run:
  assumes "hub_keeps ok P max_inactive u now seen s"
    and keep: "polls_keep hp P"
    and "hub_run hp evs s = (Ret nts, s')"
    and "polled_in_time u max_inactive (zip evs nts) now seen"
    and "times_after u (zip evs nts) now seen = (now', seen')"
  shows "hub_keeps ok P max_inactive u now' seen' s'"
  using assms(1,3-)
proof (induction evs arbitrary: now seen s nts)
  case (Cons ev evs)
  obtain a q x where s: "s = (a, (q, x))" by (cases s)
  obtain nt b p y rest where step: "hub_step hp ev (a, (q, x)) = (Ret nt, (b, (p, y)))"
    and rest: "hub_run hp evs (b, (p, y)) = (Ret rest, s')" "nts = nt # rest"
    using Cons.prems(2) by (auto simp: s and_then_Ret_iff)
  from keeps_step [OF Cons.prems(1) [unfolded s] keep _ step] Cons.prems(3)
  have "hub_keeps ok P max_inactive u (clock_step ev now) (seen_step u ev nt now seen) (b, (p, y))"
    by (simp add: rest(2))
  from Cons.IH [OF this rest(1)] Cons.prems(3,4) show ?case by (simp add: rest(2))
qed simp

lemma watched_added:
  assumes inv: "app_inv ok (m, r, cs)" and own: "own_notifiers cs" and mon: "cs_monitor cs"
    and add: "store_Add (hub_store hp) u t d (m, r, cs) = (Ret None, (m', r', cs'))"
    and P: "\<And>n. cache_add (hp_db hp) (hp_fmt1123 hp) u t d cs = (Ret None, cs') \<Longrightarrow>
      nodes_of cs' u = Some n \<Longrightarrow> P n"
  shows "watched ok P (am_maxInactiveInterval m) u (cs_mono cs) (cs_mono cs) (m', r', cs')"
proof -
  have live: "live ok cs" using inv by (simp add: app_inv_def)
  have new: "nodes_of cs u = None"
    using device_store.add_known [OF app_store_is_store inv, of u "hp_fmt1123 hp" t d] add
    by (fastforce simp: cached_uris_def)
  obtain e cs1 where a: "cache_add (hp_db hp) (hp_fmt1123 hp) u t d cs = (Ret e, cs1)" "cs_mono cs1 = cs_mono cs"
    "own_notifiers cs1" "e = None \<and> cs_monitor cs \<longrightarrow>
       (\<exists>n. nodes_of cs1 u = Some n \<and> hd_notifier (sn_device n) = Some u)"
    using add_notifiers [OF live own new] by blast
  from add have e: "e = None" and s: "m' = set_device u (cs_mono cs1) m" "cs' = cs1"
    unfolding app_add [OF a(1)] by (cases e; simp)+
  from device_store.add_returns [OF app_store_is_store inv, of "hp_fmt1123 hp" u t d]
  have "app_inv ok (m', r', cs')" unfolding add by auto
  then show ?thesis using a e mon P by (auto simp: watched_def s set_device_def)
qed

text \<open>After the addition of the device.\<close>

lemma keeps_added:
  assumes inv: "app_inv ok (m, r, cs)" and own: "own_notifiers cs" and mon: "cs_monitor cs"
    and waiting: "q \<subseteq> cached_uris cs"
    and add: "store_Add (hub_store hp) u t d (m, r, cs) = (Ret None, a)"
    and P: "\<And>cs' n. cache_add (hp_db hp) (hp_fmt1123 hp) u t d cs = (Ret None, cs') \<Longrightarrow>
      nodes_of cs' u = Some n \<Longrightarrow> P n"
  shows "hub_keeps ok P (am_maxInactiveInterval m) u (cs_mono cs) (cs_mono cs) (a, (q, w)) \<and> u \<notin> q"
proof -
  obtain m1 r1 cs1 where a: "a = (m1, r1, cs1)" by (cases a)
  have "watched ok P (am_maxInactiveInterval m) u (cs_mono cs) (cs_mono cs) a"
    unfolding a by (rule watched_added [OF inv own mon add [unfolded a] P])
  moreover have "cached_uris cs \<subseteq> app_uris a" "u \<notin> cached_uris cs"
    using device_store.add_returns [OF app_store_is_store inv, of "hp_fmt1123 hp" u t d] add by auto
  ultimately show ?thesis using waiting by (auto simp: hub_keeps_def)
qed

text \<open>
  What can keep the hub from going on, when the transactions, the clocks and the handler end: the
  event removes a device whose task waits for the mutex.
\<close>

lemma hub_step_returns:
  fixes a :: "('r, 'd) hub_app"
  assumes k: "hub_keeps ok P max_inactive u now seen (a, (q, x))"
    and ends: "parts_end hp" and harmless: "harmless u max_inactive ev now seen"
  shows "(\<exists>nt s. hub_step hp ev (a, (q, x)) = (Ret nt, s)) \<or>
     fst (hub_step hp ev (a, (q, x))) = Hang \<and> (\<exists>v. v \<noteq> u \<and> removes_waiting ev (a, (q, x)) v)"
proof -
  obtain m r cs where a: "a = (m, r, cs)" by (cases a)
  have w: "watched ok P max_inactive u now seen (m, r, cs)" and q: "q \<subseteq> cached_uris cs"
    using k by (simp_all add: hub_keeps_def a)
  have inv: "app_inv ok (m, r, cs)" using w by (simp add: watched_def)
  have noted: "\<exists>nt s. noted (lift_fst f) ((m, r, cs), (q, x)) = (Ret nt, s)"
    if "\<exists>e s'. f (m, r, cs) = (Ret e, s')" for f :: "('r, 'd) hub_app task"
    using that by (auto simp: noted_def lift_fst_def)
  show ?thesis
  proof (cases ev)
    case (Client op)
    show ?thesis
    proof (cases op)
      case (AddOp v t d)
      have "\<exists>e s'. run_op (monitor_store app_now (hub_devices hp q)) op (m, r, cs) = (Ret e, s')"
        using watched_add [OF w, of "hp_fmt1123 hp" v t d] by (auto simp: AddOp busy_add app_store_def)
      from noted [of "run_op (monitor_store app_now (hub_devices hp q)) op", OF this] show ?thesis by (simp add: a Client)
    next
      case (RemoveOp v)
      with harmless Client have v: "v \<noteq> u" by simp
      obtain e s' where r: "store_Remove (hub_store hp) v (m, r, cs) = (Ret e, s')"
        using watched_remove [OF w v, of "hp_fmt1123 hp"] by blast
      note busy = busy_remove [where q = q and v = v and now = app_now and s = "(m, r, cs)"
          and st = "app_awake_store (hp_db hp) (hp_fmt1123 hp) (hp_order hp)", folded app_store_def, unfolded r]
      show ?thesis
      proof (cases "v \<in> q \<and> e = None")
        case True
        then have "fst (store_Remove (monitor_store app_now (hub_devices hp q)) v (m, r, cs)) = Hang"
          using busy(2) by simp
        with True v show ?thesis
          by (auto simp: a Client RemoveOp noted_def lift_fst_def removes_waiting_def split: prod.splits)
      next
        case False
        then have "run_op (monitor_store app_now (hub_devices hp q)) op (m, r, cs) = (Ret e, s')"
          using busy(1) by (auto simp: RemoveOp split: option.splits)
        then have "\<exists>e s'. run_op (monitor_store app_now (hub_devices hp q)) op (m, r, cs) = (Ret e, s')"
          by blast
        from noted [of "run_op (monitor_store app_now (hub_devices hp q)) op", OF this] show ?thesis by (simp add: a Client)
      qed
    qed
  next
    case (Announced svc)
    have "\<exists>e s'. mdns_handle_service (monitor_store app_now (hub_devices hp q)) svc (m, r, cs) = (Ret e, s')"
      using watched_announced [OF w, of "hp_fmt1123 hp" svc] by (auto simp: busy_mdns app_store_def)
    from noted [of "mdns_handle_service (monitor_store app_now (hub_devices hp q)) svc", OF this] show ?thesis
      by (simp add: a Announced)
  next
    case (Poll v)
    show ?thesis
    proof (cases "nodes_of cs v = None \<or> v \<in> q")
      case False
      then obtain n where n: "nodes_of cs v = Some n" "v \<notin> q" by auto
      obtain out n' x1 where p: "poll_node hp n x = (out, (n', x1))" by (cases "poll_node hp n x") auto
      with poll_node_ends [OF ends, of n x] have "out \<noteq> Hang" by simp
      then show ?thesis by (simp add: a Poll poll_step_known [OF p n] split: outcome.split)
    qed (auto simp: a Poll poll_step_def)
  next
    case (Notified v)
    then show ?thesis
      by (auto simp: a notified_step_def notify_alive_def outcome_simps split: option.split)
  next
    case (Verify ord)
    show ?thesis
    proof (cases "fst (monitor_run app_now (hub_devices hp q) ord (m, r, cs)) = Hang")
      case True
      with busy_verify [OF inv q, of ord] harmless w Verify
      obtain v where "v \<in> set ord \<inter> q" "\<not> device_active (cs_mono cs) m v" "v \<noteq> u"
        using watched_verify [OF w, of ord "hp_fmt1123 hp"]
        by (fastforce simp: watched_def device_active_def)
      with True show ?thesis
        by (auto simp: a Verify noted_def lift_fst_def removes_waiting_def split: prod.splits)
    next
      case False
      then have "\<exists>e s'. monitor_run app_now (hub_devices hp q) ord (m, r, cs) = (Ret e, s')"
        using busy_verify [OF inv q, of ord] watched_verify [OF w, of ord "hp_fmt1123 hp"] harmless Verify by auto
      from noted [of "monitor_run app_now (hub_devices hp q) ord", OF this] show ?thesis by (simp add: a Verify)
    qed
  qed (simp add: a)
qed

text \<open>
  A device whose polls succeed, judged by the events alone: every poll of \<open>u\<close> counts.
\<close>

lemma keeps_succeeding:
  assumes "hub_keeps ok P max_inactive u now seen (a, (q, x))" and ends: "parts_end hp"
    and succeed: "polls_succeed hp P"
    and "polled_in_time u max_inactive (zip evs (expected_notes u (u \<in> q) evs)) now seen"
  shows "\<exists>n nts a' q' x'. n \<le> length evs \<and> hub_run hp (take n evs) (a, (q, x)) = (Ret nts, (a', (q', x'))) \<and>
     own_notes u (zip (take n evs) nts) = own_notes u (zip (take n evs) (expected_notes u (u \<in> q) evs)) \<and>
     (\<exists>now seen. hub_keeps ok P max_inactive u now seen (a', (q', x'))) \<and>
     (n = length evs \<or> fst (hub_step hp (evs ! n) (a', (q', x'))) = Hang \<and>
        (\<exists>v. v \<noteq> u \<and> removes_waiting (evs ! n) (a', (q', x')) v))"
  using assms(1,4)
proof (induction evs arbitrary: now seen a q x)
  case (Cons ev evs)
  let ?nt = "expected_note u (u \<in> q) ev"
  have harmless: "harmless u max_inactive ev now seen"
    and rest: "polled_in_time u max_inactive (zip evs (expected_notes u (waits_step u ev ?nt (u \<in> q)) evs))
      (clock_step ev now) (seen_step u ev ?nt now seen)"
    using Cons.prems(2) by simp_all
  show ?case
  proof (cases "\<exists>nt s. hub_step hp ev (a, (q, x)) = (Ret nt, s)")
    case False
    with hub_step_returns [OF Cons.prems(1) ends harmless] Cons.prems(1) show ?thesis
      by (intro exI [of _ 0] exI [of _ "[]"] exI [of _ a] exI [of _ q] exI [of _ x]) (auto simp: own_notes_def)
  next
    case True
    then obtain nt b p y where step: "hub_step hp ev (a, (q, x)) = (Ret nt, (b, (p, y)))" by force
    have keep: "polls_keep hp P" by (rule succeed_keeps [OF succeed])
    have own: "ev \<in> {Poll u, Notified u} \<Longrightarrow> nt = ?nt"
      by (rule own_event_notes [OF Cons.prems(1) succeed _ step])
    then have same: "seen_step u ev nt now seen = seen_step u ev ?nt now seen"
      "waits_step u ev nt (u \<in> q) = waits_step u ev ?nt (u \<in> q)"
      by (cases ev; auto)+
    have k: "hub_keeps ok P max_inactive u (clock_step ev now) (seen_step u ev ?nt now seen) (b, (p, y))"
      and p: "u \<in> p \<longleftrightarrow> waits_step u ev ?nt (u \<in> q)"
      using keeps_step [OF Cons.prems(1) keep harmless step] unfolding same by auto
    from Cons.IH [OF k rest [folded p]] obtain n nts a' q' x' now' seen' where IH: "n \<le> length evs"
      "hub_run hp (take n evs) (b, (p, y)) = (Ret nts, (a', (q', x')))"
      "own_notes u (zip (take n evs) nts) = own_notes u (zip (take n evs) (expected_notes u (u \<in> p) evs))"
      "hub_keeps ok P max_inactive u now' seen' (a', (q', x'))"
      "n = length evs \<or> fst (hub_step hp (evs ! n) (a', (q', x'))) = Hang \<and>
        (\<exists>v. v \<noteq> u \<and> removes_waiting (evs ! n) (a', (q', x')) v)"
      by blast
    show ?thesis
    proof (intro exI conjI)
      show "Suc n \<le> length (ev # evs)" using IH(1) by simp
      show "hub_run hp (take (Suc n) (ev # evs)) (a, (q, x)) = (Ret (nt # nts), (a', (q', x')))"
        using IH(2) by (simp add: and_then_def step)
      show "own_notes u (zip (take (Suc n) (ev # evs)) (nt # nts)) =
          own_notes u (zip (take (Suc n) (ev # evs)) (expected_notes u (u \<in> q) (ev # evs)))"
        using IH(3) own p by (auto simp: own_notes_def)
      show "Suc n = length (ev # evs) \<or> fst (hub_step hp ((ev # evs) ! Suc n) (a', (q', x'))) = Hang \<and>
          (\<exists>v. v \<noteq> u \<and> removes_waiting ((ev # evs) ! Suc n) (a', (q', x')) v)"
        using IH(5) by simp
      show "hub_keeps ok P max_inactive u now' seen' (a', (q', x'))" by (rule IH(4))
    qed
  qed
qed (auto simp: own_notes_def)

end

section \<open>A device that answers\<close>

text \<open>
  The node of the device \<open>u\<close> as the store built it, but for the identifier it may have learned.
\<close>

definition wired :: "cache_store_params \<Rightarrow> string \<Rightarrow> string \<Rightarrow> store_node \<Rightarrow> bool" where
  "wired params u i n \<longleftrightarrow>
     (let d = sn_device n
      in hd_verifier d = make_verifier params \<and>
         ep_url (hd_registration d) = u @ ''/registration'' \<and> ep_timeout (hd_registration d) = csp_FetchTimeout params \<and>
         ep_url (hd_telemetry d) = u @ ''/telemetry'' \<and> ep_timeout (hd_telemetry d) = csp_FetchTimeout params \<and>
         hd_deviceID d \<in> {'''', i})"

lemma cache_add_wired:
  assumes "cache_add db fmt1123 u t d cs = (Ret None, cs')"
  shows "\<exists>n. nodes_of cs' u = Some n \<and> wired (cs_params cs) u i n"
  using assms
  by (auto simp: cache_add_def make_node_def make_node_http_def new_http_device_def node_start_def nodes_of_def
      wired_def Let_def split: if_splits sum.splits outcome.splits option.splits prod.splits device_type.splits)

text \<open>
  A document with the time \<open>t\<close>, that the verifier accepts in the world \<open>w\<close>.
\<close>

definition accepted :: "('d, 'w) parts \<Rightarrow> cache_store_params \<Rightarrow> 'w \<Rightarrow> (string \<times> json_text) list \<Rightarrow> bool" where
  "accepted hp params w ms \<longleftrightarrow>
     (\<forall>(k, v) \<in> set ms. utf8_valid k \<and> plain v) \<and>
     (\<exists>t. doc_fields ms ''timestamp'' = Some (JNum (of_int t)) \<and> t \<in> {- (2 ^ 63)..<2 ^ 63} \<and>
        (case make_verifier params of
           VerifyBasic \<Rightarrow> 0 < sint (word_of_int t :: i64)
         | VerifyDrift d \<Rightarrow> drift_verify_time (hp_local_clock hp) d (word_of_int t) w = (Ret True, w)))"

text \<open>
  The device \<open>u\<close> with the identifier \<open>i\<close> is up: in every world both endpoints answer with an
  accepted document, and the data handler takes its data.
\<close>

definition device_up :: "('d, 'w) parts \<Rightarrow> cache_store_params \<Rightarrow> string \<Rightarrow> string
    \<Rightarrow> ('w \<Rightarrow> (string \<times> json_text) list) \<Rightarrow> ('w \<Rightarrow> (string \<times> json_text) list) \<Rightarrow> bool" where
  "device_up hp params u i reg tel \<longleftrightarrow>
     (\<forall>client. answers_document (hp_send hp client (csp_FetchTimeout params)) (u @ ''/registration'') reg \<and>
        answers_document (hp_send hp client (csp_FetchTimeout params)) (u @ ''/telemetry'') tel) \<and>
     (\<forall>w. accepted hp params w (reg w) \<and> accepted hp params w (tel w) \<and>
        doc_fields (reg w) ''device_id'' = Some (JStr i)) \<and>
     (\<forall>v w. (\<exists>w'. HandleRegistration (hp_data_handler hp) i (doc_fields (reg v)) w = (Ret None, w')) \<and>
        (\<exists>w'. HandleTelemetry (hp_data_handler hp) i (doc_fields (tel v)) w = (Ret None, w')))"

lemma accepted_verified:
  assumes "accepted hp params w ms" and "hd_verifier dev = make_verifier params"
  shows "\<exists>t. doc_fields ms ''timestamp'' = Some (JNum (of_int t)) \<and> t \<in> {- (2 ^ 63)..<2 ^ 63} \<and>
     pd_timeVerifier (device_task send (hp_local_clock hp) c h dev) (word_of_int t) (x, w) = (Ret True, (x, w))"
  using assms
  by (auto simp: accepted_def device_task_def new_poll_device_def basic_verify_time_def lift_snd_def
      split: clock_verifier.splits)

lemma device_up_polls:
  assumes up: "device_up hp params u i reg tel" and lib: "hp_lib hp = go_json json_err oor"
  shows "polls_succeed hp (wired params u i)"
  unfolding polls_succeed_def
proof (intro allI impI)
  fix n w
  assume n: "wired params u i n"
  let ?dev = "sn_device n" and ?h = "hp_data_handler hp"
  let ?task = "device_task (hp_send hp) (hp_local_clock hp) (hp_remote_last hp) ?h ?dev"
  from up have acc: "accepted hp params w (reg w)" "accepted hp params w (tel w)" by (simp_all add: device_up_def)
  have v: "hd_verifier ?dev = make_verifier params" "hd_deviceID ?dev = '''' \<or> hd_deviceID ?dev = i"
    using n by (auto simp: wired_def Let_def)
  note e = accepted_verified [where send = "hp_send hp" and c = "hp_remote_last hp" and h = ?h and x = "sn_holder n"]
  obtain t1 where t1: "doc_fields (reg w) ''timestamp'' = Some (JNum (of_int t1))" "t1 \<in> {- (2 ^ 63)..<2 ^ 63}"
    "pd_timeVerifier ?task (word_of_int t1) (sn_holder n, w) = (Ret True, (sn_holder n, w))"
    using e [OF acc(1) v(1)] by blast
  obtain t2 where t2: "doc_fields (tel w) ''timestamp'' = Some (JNum (of_int t2))" "t2 \<in> {- (2 ^ 63)..<2 ^ 63}"
    "pd_timeVerifier ?task (word_of_int t2) (sn_holder n, w) = (Ret True, (sn_holder n, w))"
    using e [OF acc(2) v(1)] by blast
  obtain w1 where w1: "HandleRegistration ?h i (doc_fields (reg w)) w = (Ret None, w1)"
    using up unfolding device_up_def by blast
  obtain w2 where w2: "HandleTelemetry ?h i (doc_fields (tel w)) w1 = (Ret None, w2)"
    using up unfolding device_up_def by blast
  have "poll_run (go_json json_err oor) (?task\<lparr>pd_deviceID := hd_deviceID ?dev\<rparr>, (sn_holder n, w)) =
      (Ret None, (?task\<lparr>pd_deviceID := i\<rparr>, (i, w2)))"
    by (rule answering_device_handled [where reg = reg and tel = tel, OF refl _ _ _ _ _ v(2) t1(1) t2(1) _ t1(3) t2(3) w1 w2])
      (use up n acc t1(2) t2(2) in \<open>auto simp: device_up_def wired_def Let_def endpoint_do_def accepted_def\<close>)
  moreover have "?task\<lparr>pd_deviceID := hd_deviceID ?dev\<rparr> = ?task" by (simp add: device_task_def)
  ultimately have "poll_node hp n w = (Ret None, (n\<lparr>sn_holder := i, sn_device := ?dev\<lparr>hd_deviceID := i\<rparr>\<rparr>, w2))"
    by (simp add: poll_node_def lib)
  with n show "\<exists>n' w'. poll_node hp n w = (Ret None, (n', w')) \<and> wired params u i n'"
    by (simp add: wired_def Let_def)
qed

section \<open>Restored devices\<close>

text \<open>
  Polls of devices without a notifier change nothing but what their nodes have learned, and their
  tasks never wait for the monitor.
\<close>

definition unnotified :: "'d cache_store \<Rightarrow> bool" where
  "unnotified cs \<longleftrightarrow> (\<forall>v n. nodes_of cs v = Some n \<longrightarrow> hd_notifier (sn_device n) = None)"

fun quiet :: "'w hub_event \<Rightarrow> bool" where
  "quiet (Poll u) = True"
| "quiet (Notified u) = True"
| "quiet (Tick t wall f) = True"
| "quiet _ = False"

text \<open>The part of the hub that quiet events keep, at the time \<open>now\<close>.\<close>

definition restored :: "('d \<Rightarrow> bool) \<Rightarrow> 'd cache_store \<Rightarrow> i64 \<Rightarrow> 'd cache_store \<Rightarrow> bool" where
  "restored ok cs now cs' \<longleftrightarrow>
     live ok cs' \<and> unnotified cs' \<and> cached_uris cs' = cached_uris cs \<and> cs_mono cs' = now"

lemma quiet_step:
  assumes cs: "restored ok cs0 now cs" and ends: "parts_end hp" and "quiet ev"
  shows "\<exists>nt cs' w'. hub_step hp ev ((m, r, cs), ({}, w)) = (Ret nt, ((m, r, cs'), ({}, w'))) \<and>
     restored ok cs0 (clock_step ev now) cs'"
proof (cases ev)
  case (Poll v)
  show ?thesis
  proof (cases "nodes_of cs v")
    case None
    then show ?thesis using cs Poll by (simp add: poll_step_def)
  next
    case (Some n)
    obtain out n' w' where p: "poll_node hp n w = (out, (n', w'))" by (cases "poll_node hp n w") auto
    note keeps = poll_node_keeps [OF p]
    have out: "out \<noteq> Hang" using poll_node_ends [OF ends, of n w] p by simp
    have n: "hd_notifier (sn_device n) = None" "cs_nodes cs \<noteq> None"
      using cs Some by (auto simp: restored_def unnotified_def live_def)
    let ?m = "\<lparr>am_maxInactiveInterval = 0, am_devices = (\<lambda>u. if u \<in> cached_uris cs then Some 0 else None)\<rparr>"
    have "dom (am_devices ?m) = cached_uris cs" by (auto split: if_splits)
    then have "app_inv ok (?m, r, cs)" using cs by (simp add: app_inv_def restored_def)
    from set_node_inv [OF this Some, of n'] keeps have "live ok (set_node v n' cs)" by (simp add: app_inv_def)
    moreover have "cached_uris (set_node v n' cs) = cached_uris cs"
      using Some unfolding cached_uris_def nodes_of_set_node [OF n(2)] by auto
    moreover have "cs_mono (set_node v n' cs) = cs_mono cs" by (simp add: set_node_def)
    moreover have "unnotified (set_node v n' cs)"
      using cs keeps n unfolding restored_def unnotified_def nodes_of_set_node [OF n(2)] by simp
    ultimately have r: "restored ok cs0 now (set_node v n' cs)" using cs unfolding restored_def by simp
    have "hub_step hp (Poll v) ((m, r, cs), ({}, w)) =
        (Ret (case out of Ret e \<Rightarrow> Done e | _ \<Rightarrow> Crashed), ((m, r, set_node v n' cs), ({}, w')))"
      using out n(1) by (simp add: poll_step_known [OF p Some] split: outcome.split)
    with r show ?thesis by (simp add: Poll del: hub_step.simps)
  qed
next
  case (Notified v)
  then show ?thesis using cs by (simp add: notified_step_def)
next
  case (Tick t wall f)
  then show ?thesis using cs by (auto simp: restored_def live_def unnotified_def cached_uris_def nodes_of_def)
qed (use assms(3) in simp_all)

lemma quiet_run:
  assumes "restored ok cs0 now cs" and "parts_end hp" and "list_all quiet evs"
  shows "\<exists>nts cs' w'. hub_run hp evs ((m, r, cs), ({}, w)) = (Ret nts, ((m, r, cs'), ({}, w'))) \<and>
     restored ok cs0 (fold clock_step evs now) cs'"
  using assms(1,3)
proof (induction evs arbitrary: cs now w)
  case (Cons ev evs)
  obtain nt cs1 w1 where 1: "hub_step hp ev ((m, r, cs), ({}, w)) = (Ret nt, ((m, r, cs1), ({}, w1)))"
    "restored ok cs0 (clock_step ev now) cs1"
    using quiet_step [OF Cons.prems(1) assms(2), of ev m r w] Cons.prems(2) by auto
  obtain nts cs2 w2 where 2: "hub_run hp evs ((m, r, cs1), ({}, w1)) = (Ret nts, ((m, r, cs2), ({}, w2)))"
    "restored ok cs0 (fold clock_step evs (clock_step ev now)) cs2"
    using Cons.IH [OF 1(2), of w1] Cons.prems(2) by auto
  then show ?case by (simp add: and_then_def 1(1))
qed simp

text \<open>While no task waits the monitor runs as on the store itself.\<close>

lemma busy_store_idle: "busy_store {} st = st"
proof -
  have "store_Remove (busy_store {} st) = store_Remove st"
    by (auto simp: busy_store_def fun_eq_iff split: prod.splits outcome.splits option.splits)
  then show ?thesis by (simp add: busy_store_def)
qed

context persistent_devices
begin

text \<open>Every device that the store loses during a run of the monitor is lost from the database.\<close>

lemma app_run_content:
  assumes "app_inv ok (m, r, cs)"
    and "monitor_run app_now (app_awake_store db fmt1123 order) ord (m, r, cs) = (x, (m', r', cs'))"
    and "u \<in> cached_uris cs" and "u \<notin> cached_uris cs'"
  shows "content (cs_db cs') u = None"
proof -
  let ?Q = "\<lambda>_ (r :: 'b runner, cs). live ok cs \<and> (u \<in> cached_uris cs \<or> content (cs_db cs) u = None)"
  have "?Q m' (r', cs')"
  proof (rule app.run_loop_invariant)
    show "app.minv (m, r, cs)" unfolding app_minv by (rule assms(1))
    show "?Q m (r, cs)" using assms(1,3) by (simp add: app_inv_def)
    show "run_loop app_now (app_awake_store db fmt1123 order) ord (m, r, cs) = (x, (m', r', cs'))"
      using assms(2) by (simp add: monitor_run_def)
  next
    fix m1 s1 v e s2
    assume 1: "app.minv (m1, s1)" "?Q m1 s1" "v \<in> dom (am_devices m1)"
      and 2: "store_Remove (app_awake_store db fmt1123 order) v s1 = (Ret e, s2)"
    obtain r1 cs1 where s1: "s1 = (r1, cs1)" by (cases s1)
    have live: "live ok cs1" "ok (cs_db cs1)" using 1(2) s1 by (auto simp: live_def)
    obtain n where "nodes_of cs1 v = Some n"
      using 1(1,3) s1 unfolding app_minv by (auto simp: app_inv_def cached_uris_def)
    from cache_remove_spec [OF live(1) this] obtain e1 cs2 where c: "cache_remove db v cs1 = (Ret e1, cs2)"
      "live ok cs2" "db_Remove db v (cs_db cs1) = (Ret e1, cs_db cs2)"
      "nodes_of cs2 = (if e1 = None then (nodes_of cs1)(v := None) else nodes_of cs1)"
      by blast
    have s2: "s2 = (r1, cs2)" using 2 by (simp add: s1 app_remove_Ret [OF c(1)])
    have "content (cs_db cs2) = (if e1 = None then (content (cs_db cs1))(v := None) else content (cs_db cs1))"
      by (rule remove_content [OF live(2) c(3)])
    then show "?Q (if e = None then delete_device v m1 else m1) s2"
      using 1(2) c(2,4) by (auto simp: s1 s2 cached_uris_def)
  qed
  with assms(4) show ?thesis by simp
qed

end

section \<open>A hub on an empty bucket\<close>

definition sample_parts :: "(mem_buckets, clock_restorer \<times> point list) parts" where
  "sample_parts =
     \<lparr>hp_db = bucket_db mem_bbolt ''b'', hp_fmt1123 = (\<lambda>_. ''now''), hp_order = sorted_list_of_set,
      hp_lib = go_json (\<lambda>_. IoEOF) (\<lambda>_. 0), hp_send = sample_answer,
      hp_local_clock = stopped_clock, hp_remote_last = stopped_clock,
      hp_data_handler = influx_handler (\<lambda>_. 0) (\<lambda>p. lift_snd (write_list p)) (clock_fst restorer_clock)\<rparr>"

definition hub_monitor :: alive_monitor where
  "hub_monitor = \<lparr>am_maxInactiveInterval = 5, am_devices = Map.empty\<rparr>"

definition sample_world :: "clock_restorer \<times> point list" where
  "sample_world = (new_clock_restorer, [])"

interpretation sample_hub: hub sample_parts "\<lambda>_. True"
  unfolding hub_def using bucket_cached [OF mem.bbolt_docs_axioms visits_all_sorted, of "''b''"]
  by (simp add: sample_parts_def)

lemma handle_data_ends:
  assumes "\<And>p. ends (write p)" and "\<And>t. ends (clock_set c t)"
  shows "ends (handle_data oor write c x i js)"
  using assms unfolding handle_data_def Let_def
  by (auto intro!: ends_and_then split: option.split json.split)

lemma handle_data_stored:
  assumes "js ''timestamp'' = Some (JNum t)"
  shows "\<exists>w'. handle_data oor (\<lambda>p. lift_snd (write_list p)) (clock_fst restorer_clock) x i js w = (Ret None, w')"
  using assms
  by (cases w) (simp add: handle_data_def Let_def and_then_def lift_snd_def lift_fst_def write_list_def clock_fst_def
      restorer_clock_def restorer_set_def split: prod.split)

lemma sample_parts_end: "parts_end sample_parts"
proof -
  have c: "ends (clock_get (stopped_clock :: 'w system_clock))" by (simp add: stopped_clock_def)
  have r: "ends (clock_set (clock_fst restorer_clock) t)" for t
    by (auto simp: ends_in_def clock_fst_def restorer_clock_def restorer_set_def lift_fst_def Let_def split: prod.split)
  have w: "ends (lift_snd (write_list p))" for p
    by (auto simp: ends_in_def lift_snd_def write_list_def split: prod.split)
  have s: "ends (sample_answer client timeout req)" for client timeout req
    by (simp add: ends_in_def sample_answer_def Let_def)
  show ?thesis unfolding parts_end_def
    by (simp add: sample_parts_def influx_handler_def c s handle_data_ends r w)
qed

lemma sample_device_up:
  "device_up sample_parts sample_params sample_uri ''0xAB'' (\<lambda>_. sample_registration) (\<lambda>_. sample_telemetry)"
proof -
  have t: "accepted sample_parts sample_params w sample_registration" "accepted sample_parts sample_params w sample_telemetry" for w
    using sample_plain unfolding accepted_def
    by (auto simp: sample_fields make_verifier_def sample_params_def intro: exI [of _ 100] exI [of _ 101])
  show ?thesis unfolding device_up_def
    using t handle_data_stored
    by (simp add: sample_parts_def sample_uri_def influx_handler_def sample_fields sample_answers_documents)
qed

lemma sample_hub_added:
  "\<exists>a. store_Add (hub_store sample_parts) sample_uri ''bonsai'' ''plant'' (hub_monitor, new_runner (), sample_store) =
     (Ret None, a)"
proof -
  obtain cs where a: "cache_add (bucket_db mem_bbolt ''b'') (\<lambda>_. ''now'') sample_uri ''bonsai'' ''plant''
      sample_store = (Ret None, cs)"
    using sample_add by blast
  show ?thesis by (simp add: sample_parts_def app_add [OF a])
qed

lemma sample_store_facts:
  "cs_mono sample_store = 7" "cs_monitor sample_store" "cs_params sample_store = sample_params"
  "dom (am_devices hub_monitor) = cached_uris sample_store" "own_notifiers sample_store"
  "am_maxInactiveInterval hub_monitor = 5"
  by (simp_all add: sample_store_def hub_monitor_def nodes_of_def cached_uris_def own_notifiers_def)

text \<open>The sample hub after the addition of the sample device, while nobody removes another one.\<close>

lemma sample_keeps:
  assumes a: "store_Add (hub_store sample_parts) sample_uri ''bonsai'' ''plant''
      (hub_monitor, new_runner (), sample_store) = (Ret None, a)"
  shows "hub_keeps (\<lambda>_. True) (wired sample_params sample_uri ''0xAB'') 5 sample_uri 7 7 (a, ({}, sample_world))"
proof -
  obtain m1 r1 cs1 where s: "a = (m1, r1, cs1)" by (cases a)
  have inv: "app_inv (\<lambda>_. True) (hub_monitor, new_runner (), sample_store)"
    by (simp add: app_inv_def sample_live sample_store_facts(4))
  let ?P = "wired sample_params sample_uri ''0xAB''"
  have "watched (\<lambda>_. True) ?P (am_maxInactiveInterval hub_monitor) sample_uri (cs_mono sample_store)
      (cs_mono sample_store) (m1, r1, cs1)"
  proof (rule sample_hub.watched_added [OF inv sample_store_facts(5,2) a [unfolded s]])
    fix n
    assume "cache_add (hp_db sample_parts) (hp_fmt1123 sample_parts) sample_uri ''bonsai'' ''plant'' sample_store =
        (Ret None, cs1)" "nodes_of cs1 sample_uri = Some n"
    then show "?P n" using cache_add_wired [where i = "''0xAB''"] sample_store_facts(3) by fastforce
  qed
  then show ?thesis by (simp add: s sample_store_facts hub_keeps_def)
qed

lemma sample_polls_succeed: "polls_succeed sample_parts (wired sample_params sample_uri ''0xAB'')"
proof -
  have "hp_lib sample_parts = go_json (\<lambda>_. IoEOF) (\<lambda>_. 0)" by (simp add: sample_parts_def)
  from device_up_polls [OF sample_device_up this] show ?thesis .
qed

text \<open>A run whose events remove no other device goes through.\<close>

lemma hub_run_length: "hub_run hp evs s = (Ret nts, s') \<Longrightarrow> length nts = length evs"
  by (induction evs arbitrary: s nts) (auto simp: and_then_Ret_iff)

lemma sample_run:
  fixes a :: "(unit, mem_buckets) hub_app"
  assumes a: "store_Add (hub_store sample_parts) sample_uri ''bonsai'' ''plant''
      (hub_monitor, new_runner (), sample_store) = (Ret None, a)"
    and p: "polled_in_time sample_uri 5 (zip evs (expected_notes sample_uri False evs)) 7 7"
    and safe: "\<forall>ev \<in> set evs. \<forall>(s :: (unit, mem_buckets, clock_restorer \<times> point list) hub) v.
      v \<noteq> sample_uri \<longrightarrow> \<not> removes_waiting ev s v"
  shows "\<exists>nts s'. hub_run sample_parts evs (a, ({}, sample_world)) = (Ret nts, s') \<and>
     own_notes sample_uri (zip evs nts) = own_notes sample_uri (zip evs (expected_notes sample_uri False evs))"
proof -
  obtain n nts a' q' x' where run: "n \<le> length evs"
    "hub_run sample_parts (take n evs) (a, ({}, sample_world)) = (Ret nts, (a', (q', x')))"
    "own_notes sample_uri (zip (take n evs) nts) =
      own_notes sample_uri (zip (take n evs) (expected_notes sample_uri False evs))"
    and stuck: "n = length evs \<or> fst (hub_step sample_parts (evs ! n) (a', (q', x'))) = Hang \<and>
      (\<exists>v. v \<noteq> sample_uri \<and> removes_waiting (evs ! n) (a', (q', x')) v)"
    using sample_hub.keeps_succeeding [OF sample_keeps [OF a] sample_parts_end sample_polls_succeed,
        unfolded empty_iff, OF p]
    by blast
  have "n = length evs"
    using stuck safe run(1) nth_mem [of n evs] by fastforce
  with run have "hub_run sample_parts evs (a, ({}, sample_world)) = (Ret nts, (a', (q', x')))"
    "own_notes sample_uri (zip evs nts) = own_notes sample_uri (zip evs (expected_notes sample_uri False evs))"
    by simp_all
  then show ?thesis by blast
qed

section \<open>Properties\<close>

text \<open>
  C6. The monitor removes a device exactly when it is silent for too long. After a device was
  added, whatever is added, removed, announced, polled, reported and verified afterwards, in any
  order: as long as nobody asks to remove it and its task reports often enough, so that no run of
  the monitor comes the maximum interval or more after the addition or the last report, the device
  stays; and the next run of the monitor that reports no error keeps it exactly when the last of
  these is less than the maximum interval ago.
\<close>

theorem silent_device_is_removed:
  assumes docs: "bbolt_docs B opened buckets txb" and order: "visits_all (hp_order hp)"
    and db: "hp_db hp = bucket_db B name"
    and "live opened cs" and "dom (am_devices m) = cached_uris cs" and "own_notifiers cs" and "cs_monitor cs"
    and waiting: "q \<subseteq> cached_uris cs"
    and add: "store_Add (hub_store hp) u t d (m, r, cs) = (Ret None, a)"
    and run: "hub_run hp evs (a, (q, w)) = (Ret nts, ((m', r', cs'), w'))"
    and polled: "polled_in_time u (am_maxInactiveInterval m) (zip evs nts) (cs_mono cs) (cs_mono cs)"
    and times: "times_after u (zip evs nts) (cs_mono cs) (cs_mono cs) = (now, seen)"
  shows "u \<in> cached_uris cs' \<and>
     (\<forall>ord m'' r'' cs'' w''. distinct ord \<and> set ord = cached_uris cs' \<and>
        hub_step hp (Verify ord) ((m', r', cs'), w') = (Ret (Done None), ((m'', r'', cs''), w'')) \<longrightarrow>
        (u \<in> cached_uris cs'' \<longleftrightarrow> mono_sub now seen < sint (am_maxInactiveInterval m)))"
proof -
  have c: "cached_devices (hp_db hp) opened (hp_order hp)" unfolding db by (rule bucket_cached [OF docs order])
  note h = hub.intro [OF c]
  let ?max = "am_maxInactiveInterval m"
  have "app_inv opened (m, r, cs)" by (simp add: app_inv_def assms(4,5))
  from hub.keeps_added [OF h this assms(6,7) waiting add, of "\<lambda>_. True" w]
  have "hub_keeps opened (\<lambda>_. True) ?max u (cs_mono cs) (cs_mono cs) (a, (q, w))" by simp
  from hub.keeps_run [OF h this _ run polled times]
  have k: "hub_keeps opened (\<lambda>_. True) ?max u now seen ((m', r', cs'), w')" by (simp add: polls_keep_def)
  obtain q' x where w': "w' = (q', x)" by (cases w')
  have inv: "app_inv opened (m', r', cs')" and u: "u \<in> cached_uris cs'" and q': "q' \<subseteq> cached_uris cs'"
    and s: "am_devices m' u = Some seen" "cs_mono cs' = now" "am_maxInactiveInterval m' = ?max"
    using k by (auto simp: hub_keeps_def watched_def cached_uris_def w')
  have "u \<in> cached_uris cs'' \<longleftrightarrow> mono_sub now seen < sint ?max"
    if "distinct ord" "set ord = cached_uris cs'"
      "hub_step hp (Verify ord) ((m', r', cs'), w') = (Ret (Done None), ((m'', r'', cs''), w''))"
    for ord m'' r'' cs'' w''
  proof -
    have "monitor_run app_now (app_awake_store (hp_db hp) (hp_fmt1123 hp) (hp_order hp)) ord (m', r', cs') =
        (Ret None, (m'', r'', cs''))"
      using hub.busy_verify [OF h inv q', of ord] that(3) by (auto simp: w' noted_Ret)
    then show ?thesis
      using cached_devices.app_run_spec [OF c inv that(1), of "hp_fmt1123 hp"] that(2) u s
      by (auto simp: device_active_def)
  qed
  with u show ?thesis by blast
qed

theorem silent_device_is_removed_witness:
  "\<exists>a nts m' r' cs' w'.
     store_Add (hub_store sample_parts) sample_uri ''bonsai'' ''plant'' (hub_monitor, new_runner (), sample_store) =
       (Ret None, a) \<and>
     hub_run sample_parts [Tick 10 0 id, Poll sample_uri, Notified sample_uri, Tick 14 0 id, Verify [sample_uri], Tick 20 0 id]
       (a, ({}, sample_world)) = (Ret nts, ((m', r', cs'), w')) \<and>
     nts ! 2 = Done None \<and> sample_uri \<in> cached_uris cs' \<and>
     (\<forall>ord m'' r'' cs'' w''. distinct ord \<and> set ord = cached_uris cs' \<and>
        hub_step sample_parts (Verify ord) ((m', r', cs'), w') = (Ret (Done None), ((m'', r'', cs''), w'')) \<longrightarrow>
        sample_uri \<notin> cached_uris cs'')"
proof -
  let ?evs = "[Tick 10 0 id :: (clock_restorer \<times> point list) hub_event, Poll sample_uri, Notified sample_uri, Tick 14 0 id, Verify [sample_uri], Tick 20 0 id]"
  obtain a where a: "store_Add (hub_store sample_parts) sample_uri ''bonsai'' ''plant''
      (hub_monitor, new_runner (), sample_store) = (Ret None, a)"
    using sample_hub_added by blast
  have p: "polled_in_time sample_uri 5 (zip ?evs (expected_notes sample_uri False ?evs)) 7 7"
    by (simp add: mono_sub_def)
  have safe: "\<forall>ev \<in> set ?evs. \<forall>s v. v \<noteq> sample_uri \<longrightarrow> \<not> removes_waiting ev s v"
    by (simp add: removes_waiting_def)
  from sample_run [OF a p safe] obtain nts b w' where
    "hub_run sample_parts ?evs (a, ({}, sample_world)) = (Ret nts, (b, w'))"
    and l: "own_notes sample_uri (zip ?evs nts) =
      own_notes sample_uri (zip ?evs (expected_notes sample_uri False ?evs))"
    by (auto simp del: hub_run.simps)
  then obtain m' r' cs' where run: "hub_run sample_parts ?evs (a, ({}, sample_world)) = (Ret nts, ((m', r', cs'), w'))"
    by (cases b) blast
  obtain n1 n2 n3 n4 n5 n6 where nts: "nts = [n1, n2, n3, n4, n5, n6]"
    using hub_run_length [OF run] by (auto simp: length_Suc_conv)
  then have n3: "n3 = Done None" using l by (simp add: own_notes_def)
  have p: "polled_in_time sample_uri (am_maxInactiveInterval hub_monitor) (zip ?evs nts)
      (cs_mono sample_store) (cs_mono sample_store)"
    "times_after sample_uri (zip ?evs nts) (cs_mono sample_store) (cs_mono sample_store) = (20, 10)"
    by (simp_all add: nts n3 sample_store_facts mono_sub_def)
  have h: "visits_all (hp_order sample_parts)" "hp_db sample_parts = bucket_db mem_bbolt ''b''"
    by (simp_all add: sample_parts_def visits_all_sorted)
  have late: "\<not> mono_sub 20 10 < sint (am_maxInactiveInterval hub_monitor)"
    by (simp add: sample_store_facts mono_sub_def)
  have "nts ! 2 = Done None" by (simp add: nts n3)
  with silent_device_is_removed [OF mem.bbolt_docs_axioms h sample_live sample_store_facts(4,5,2) empty_subsetI a run p]
    a run late
  show ?thesis by blast
qed

text \<open>
  C9. A device that answers is kept, and only the deadlock of the monitor can stop the hub. A device
  is added whose endpoints answer every request, with well-formed documents that carry its
  identifier and times the verifier accepts, and the data handler takes what it sends. Whatever is
  added, removed, announced, polled, reported and verified afterwards, in any order, and whatever
  the other devices answer: as long as nobody asks to remove the device and its task reports often
  enough, so that no run of the monitor comes the maximum interval or more after the addition or
  the last report, every poll of the device that can take place succeeds, every report of it is
  taken, and the device is stored, after all the events, or up to an event that never returns; and
  that event is a removal, by a request or by the monitor, of another device whose task waits for
  the mutex of the monitor.
\<close>

theorem answering_device_is_kept:
  assumes docs: "bbolt_docs B opened buckets txb" and order: "visits_all (hp_order hp)"
    and db: "hp_db hp = bucket_db B name" and lib: "hp_lib hp = go_json json_err oor" and ends: "parts_end hp"
    and "live opened cs" and "dom (am_devices m) = cached_uris cs" and "own_notifiers cs" and "cs_monitor cs"
    and waiting: "q \<subseteq> cached_uris cs"
    and up: "device_up hp (cs_params cs) u i reg tel"
    and add: "store_Add (hub_store hp) u t d (m, r, cs) = (Ret None, a)"
    and polled: "polled_in_time u (am_maxInactiveInterval m) (zip evs (expected_notes u False evs))
      (cs_mono cs) (cs_mono cs)"
  shows "\<exists>n nts m' r' cs' q' w'. n \<le> length evs \<and>
     hub_run hp (take n evs) (a, (q, w)) = (Ret nts, ((m', r', cs'), (q', w'))) \<and>
     own_notes u (zip (take n evs) nts) = own_notes u (zip (take n evs) (expected_notes u False evs)) \<and>
     u \<in> cached_uris cs' \<and>
     (n = length evs \<or> fst (hub_step hp (evs ! n) ((m', r', cs'), (q', w'))) = Hang \<and>
        (\<exists>v. v \<noteq> u \<and> removes_waiting (evs ! n) ((m', r', cs'), (q', w')) v))"
proof -
  have c: "cached_devices (hp_db hp) opened (hp_order hp)" unfolding db by (rule bucket_cached [OF docs order])
  note h = hub.intro [OF c]
  let ?P = "wired (cs_params cs) u i"
  have inv: "app_inv opened (m, r, cs)" by (simp add: app_inv_def assms(6,7))
  have wired: "?P n" if "cache_add (hp_db hp) (hp_fmt1123 hp) u t d cs = (Ret None, cs1)" "nodes_of cs1 u = Some n" for cs1 n
    using cache_add_wired [OF that(1), of i] that(2) by auto
  have k: "hub_keeps opened ?P (am_maxInactiveInterval m) u (cs_mono cs) (cs_mono cs) (a, (q, w))" and u: "u \<notin> q"
    using hub.keeps_added [OF h inv assms(8,9) waiting add, of ?P w] wired by blast+
  then have idle: "(u \<in> q) = False" by simp
  obtain n nts a' q' w' now seen where run: "n \<le> length evs"
    "hub_run hp (take n evs) (a, (q, w)) = (Ret nts, (a', (q', w')))"
    "own_notes u (zip (take n evs) nts) = own_notes u (zip (take n evs) (expected_notes u False evs))"
    "hub_keeps opened ?P (am_maxInactiveInterval m) u now seen (a', (q', w'))"
    "n = length evs \<or> fst (hub_step hp (evs ! n) (a', (q', w'))) = Hang \<and>
       (\<exists>v. v \<noteq> u \<and> removes_waiting (evs ! n) (a', (q', w')) v)"
    using hub.keeps_succeeding [OF h k ends device_up_polls [OF up lib], unfolded idle, OF polled] by blast
  obtain m' r' cs' where a': "a' = (m', r', cs')" by (cases a')
  have "u \<in> cached_uris cs'" using run(4) by (auto simp: a' hub_keeps_def watched_def cached_uris_def)
  with run(1-3,5) show ?thesis unfolding a' by blast
qed

theorem answering_device_is_kept_witness:
  "\<exists>a nts m' r' cs' w'.
     store_Add (hub_store sample_parts) sample_uri ''bonsai'' ''plant'' (hub_monitor, new_runner (), sample_store) =
       (Ret None, a) \<and>
     hub_run sample_parts [Tick 10 0 id, Poll sample_uri, Client (AddOp other_uri ''bonsai'' ''tree''),
         Notified sample_uri, Tick 14 0 id, Verify [sample_uri]]
       (a, ({}, sample_world)) = (Ret nts, ((m', r', cs'), w')) \<and>
     nts ! 1 = Done None \<and> nts ! 3 = Done None \<and> sample_uri \<in> cached_uris cs'"
proof -
  let ?evs = "[Tick 10 0 id :: (clock_restorer \<times> point list) hub_event, Poll sample_uri,
    Client (AddOp other_uri ''bonsai'' ''tree''), Notified sample_uri, Tick 14 0 id, Verify [sample_uri]]"
  obtain a where a: "store_Add (hub_store sample_parts) sample_uri ''bonsai'' ''plant''
      (hub_monitor, new_runner (), sample_store) = (Ret None, a)"
    using sample_hub_added by blast
  have h: "visits_all (hp_order sample_parts)" "hp_db sample_parts = bucket_db mem_bbolt ''b''"
    "hp_lib sample_parts = go_json (\<lambda>_. IoEOF) (\<lambda>_. 0)"
    by (simp_all add: sample_parts_def visits_all_sorted)
  have p: "polled_in_time sample_uri (am_maxInactiveInterval hub_monitor)
      (zip ?evs (expected_notes sample_uri False ?evs)) (cs_mono sample_store) (cs_mono sample_store)"
    by (simp add: sample_store_facts mono_sub_def)
  have up: "device_up sample_parts (cs_params sample_store) sample_uri ''0xAB'' (\<lambda>_. sample_registration)
      (\<lambda>_. sample_telemetry)"
    unfolding sample_store_facts(3) by (rule sample_device_up)
  obtain n nts m' r' cs' q' w' where k: "n \<le> length ?evs"
    "hub_run sample_parts (take n ?evs) (a, ({}, sample_world)) = (Ret nts, ((m', r', cs'), (q', w')))"
    "own_notes sample_uri (zip (take n ?evs) nts) =
      own_notes sample_uri (zip (take n ?evs) (expected_notes sample_uri False ?evs))"
    "sample_uri \<in> cached_uris cs'"
    "n = length ?evs \<or> fst (hub_step sample_parts (?evs ! n) ((m', r', cs'), (q', w'))) = Hang \<and>
      (\<exists>v. v \<noteq> sample_uri \<and> removes_waiting (?evs ! n) ((m', r', cs'), (q', w')) v)"
    using answering_device_is_kept [OF mem.bbolt_docs_axioms h sample_parts_end sample_live sample_store_facts(4,5,2)
        empty_subsetI up a p, of sample_world]
    by blast
  have "\<forall>ev \<in> set ?evs. \<forall>v. v \<noteq> sample_uri \<longrightarrow> \<not> removes_waiting ev ((m', r', cs'), (q', w')) v"
    by (simp add: removes_waiting_def)
  with k(1,5) nth_mem [of n ?evs] have n: "n = length ?evs" by fastforce
  then obtain n1 n2 n3 n4 n5 n6 where nts: "nts = [n1, n2, n3, n4, n5, n6]"
    using hub_run_length [OF k(2)] by (auto simp: length_Suc_conv)
  then have "nts ! 1 = Done None \<and> nts ! 3 = Done None" using k(3) n by (simp add: own_notes_def)
  moreover have "take n ?evs = ?evs" using n by simp
  ultimately show ?thesis using a k(2,4) by metis
qed

text \<open>
  C34. Restored devices are removed although their tasks succeed: a store that was just built has
  no device that reports to a monitor. After the monitor was created with the store, and the
  store was started, whatever the polls of the devices do, they return, and the first run of the
  monitor that comes the maximum interval later and reports no error removes every restored
  device, from the store and from the database.
\<close>

theorem restored_devices_are_removed:
  assumes docs: "bbolt_docs B opened buckets txb" and order: "visits_all (hp_order hp)" and "opened d"
    and db: "hp_db hp = bucket_db B name" and ends: "parts_end hp"
    and new: "new_cache_store (hp_db hp) (hp_fmt1123 hp) params rs d now t0 = (Ret (), cs)"
    and mon: "new_alive_monitor app_now (app_awake_store (hp_db hp) (hp_fmt1123 hp) (hp_order hp)) max_inactive
      (r, cs) = (Ret m, (r, cs1))"
    and ord: "distinct ord" "set ord = cached_uris cs"
    and start: "cache_start ord (set_alive_monitor cs1) = (Ret None, cs2)"
    and quiet: "list_all quiet evs"
    and late: "sint max_inactive \<le> mono_sub (fold clock_step evs (cs_mono cs2)) t0"
  shows "\<exists>nts s w'. hub_run hp evs ((m, r, cs2), ({}, w)) = (Ret nts, (s, w')) \<and>
     (\<forall>m' r' cs' w''. hub_step hp (Verify ord) (s, w') = (Ret (Done None), ((m', r', cs'), w'')) \<longrightarrow>
        cached_uris cs' = {} \<and> (\<forall>u \<in> cached_uris cs. bucket_content buckets name (cs_db cs') u = None))"
proof -
  have c: "cached_devices (hp_db hp) opened (hp_order hp)" unfolding db by (rule bucket_cached [OF docs order])
  have p: "persistent_devices (hp_db hp) opened (hp_order hp) (bucket_content buckets name)"
    unfolding db by (rule bucket_persistent [OF docs order])
  have f: "fresh cs" "opened (cs_db cs)" "cs_mono cs = t0"
    using total_db.new_cache_store_fresh [OF cached_devices.axioms(1) [OF c] assms(3) new] by simp_all
  have m: "m = \<lparr>am_maxInactiveInterval = max_inactive,
      am_devices = (\<lambda>u. if u \<in> cached_uris cs then Some t0 else None)\<rparr>" "cs1 = cs"
    using cached_devices.fresh_monitor [OF c f(1), of "hp_fmt1123 hp" max_inactive r] mon f(3)
    by (simp_all cong del: if_weak_cong)
  have "restored opened cs (cs_mono cs2) cs2"
    using monitored_start [OF c f(1,2) ord] start m(2) by (auto simp: restored_def unnotified_def)
  then obtain nts cs3 w3 where run: "hub_run hp evs ((m, r, cs2), ({}, w)) = (Ret nts, ((m, r, cs3), ({}, w3)))"
    and r3: "restored opened cs (fold clock_step evs (cs_mono cs2)) cs3"
    using quiet_run [OF _ ends quiet] by blast
  have inv: "app_inv opened (m, r, cs3)" using r3 by (auto simp: app_inv_def m(1) dom_def restored_def)
  have silent: "\<not> device_active (cs_mono cs3) m u" for u
    using late r3 by (auto simp: device_active_def m(1) restored_def split: if_splits)
  have "cached_uris cs' = {} \<and> (\<forall>u \<in> cached_uris cs. bucket_content buckets name (cs_db cs') u = None)"
    if "hub_step hp (Verify ord) ((m, r, cs3), ({}, w3)) = (Ret (Done None), ((m', r', cs'), w''))" for m' r' cs' w''
  proof -
    have v: "monitor_run app_now (app_awake_store (hp_db hp) (hp_fmt1123 hp) (hp_order hp)) ord (m, r, cs3) =
        (Ret None, (m', r', cs'))"
      using that by (auto simp: noted_Ret busy_store_idle)
    have "cached_uris cs' = {}"
      using cached_devices.app_run_spec [OF c inv ord(1), of "hp_fmt1123 hp"] v ord(2) r3 silent
      by (auto simp: restored_def)
    then show ?thesis
      using persistent_devices.app_run_content [OF p inv v] r3 by (auto simp: restored_def)
  qed
  with run show ?thesis by blast
qed

theorem restored_devices_are_removed_witness:
  "\<exists>d cs cs2 m nts s w m' r' cs' w'.
     new_cache_store (bucket_db mem_bbolt ''b'') (\<lambda>_. ''now'') sample_params new_resolve_store d 0 0 =
       (Ret (), cs) \<and> cached_uris cs = {sample_uri} \<and>
     hub_run sample_parts [Tick 4 0 id, Poll sample_uri, Tick 9 0 id] ((m, new_runner (), cs2), ({}, sample_world)) =
       (Ret nts, (s, w)) \<and>
     hub_step sample_parts (Verify [sample_uri]) (s, w) =
       (Ret (Done None), ((m', r' :: unit runner, cs'), w')) \<and>
     cached_uris cs' = {} \<and> bucket_content mem_view ''b'' (cs_db cs') sample_uri = None"
proof -
  let ?db = "bucket_db mem_bbolt ''b''" and ?f = "\<lambda>_. ''now''"
  let ?st = "app_awake_store ?db ?f sorted_list_of_set :: (unit runner \<times> mem_buckets cache_store) store"
  have h: "hp_db sample_parts = ?db" "hp_fmt1123 sample_parts = ?f" "hp_order sample_parts = sorted_list_of_set"
    by (simp_all add: sample_parts_def)
  obtain d cs where new: "new_cache_store ?db ?f sample_params new_resolve_store d 0 0 = (Ret (), cs)"
    "cached_uris cs = {sample_uri}"
    using restart_device by blast
  have f: "fresh cs" "cs_mono cs = 0"
    using mem.bucket.new_cache_store_fresh [OF _ new(1)] by simp_all
  let ?m = "\<lparr>am_maxInactiveInterval = 5, am_devices = (\<lambda>u. if u \<in> {sample_uri} then Some 0 else None)\<rparr>"
  have mon: "new_alive_monitor app_now ?st 5 (new_runner (), cs) = (Ret ?m, (new_runner (), cs))"
    using bucket_devices.fresh_monitor [OF f(1), of "''b''" ?f 5 "new_runner ()"]
    unfolding new(2) f(2) .
  obtain cs2 where st: "cache_start [sample_uri] (set_alive_monitor cs) = (Ret None, cs2)"
    "live (\<lambda>_. True) cs2" "cached_uris cs2 = {sample_uri}" "unnotified cs2"
    using monitored_start [OF bucket_devices.cached_devices_axioms f(1), of "[sample_uri]"] new(2)
    by (auto simp: unnotified_def)
  let ?evs = "[Tick 4 0 id, Poll sample_uri, Tick 9 0 id]"
  have "restored (\<lambda>_. True) cs2 (cs_mono cs2) cs2" using st by (simp add: restored_def)
  from quiet_run [OF this sample_parts_end, of ?evs ?m "new_runner ()" sample_world] obtain nts cs3 w3 where
    run: "hub_run sample_parts ?evs ((?m, new_runner (), cs2), ({}, sample_world)) = (Ret nts, ((?m, new_runner (), cs3), ({}, w3)))"
    and r3: "restored (\<lambda>_. True) cs2 9 cs3"
    by (auto simp del: hub_run.simps)
  have "sample_uri \<in> dom (nodes_of cs3)" using r3 st(3) by (simp add: restored_def cached_uris_def)
  then obtain n where n: "nodes_of cs3 sample_uri = Some n" by blast
  then have "sn_starts n = 1" using r3 by (simp add: restored_def live_def)
  from mem_remove [OF n this] obtain cs' where r: "cache_remove ?db sample_uri cs3 = (Ret None, cs')" by blast
  have verify: "hub_step sample_parts (Verify [sample_uri]) ((?m, new_runner (), cs3), ({}, w3)) =
      (Ret (Done None), ((delete_device sample_uri ?m, new_runner (), cs'), ({}, w3)))"
    using r3 by (simp add: h noted_def lift_fst_def monitor_run_def and_then_def lift_snd_def app_now_Ret
        app_remove_Ret [OF r] mono_sub_def restored_def busy_store_idle)
  have "cached_uris cs' = {} \<and> bucket_content mem_view ''b'' (cs_db cs') sample_uri = None"
    using restored_devices_are_removed [where hp = sample_parts and ord = "[sample_uri]" and evs = ?evs and
        w = sample_world, OF mem.bbolt_docs_axioms _ _ h(1) sample_parts_end _ _ _ _ st(1)]
      new mon run verify
    by (fastforce simp: h visits_all_sorted mono_sub_def simp del: hub_run.simps hub_step.simps)
  then show ?thesis using new run verify by blast
qed

end
