(* ===== verification/Simulator.thy ===== *)
theory Simulator
  imports Polling "HOL-Library.List_Lexorder" "HOL-Library.Char_ord"
begin

text \<open>
  \<^verbatim>\<open>projects/sim/main.go\<close>, the simulated device: its two handlers and the routes of its server,
  and what the hub makes of it.
\<close>

section \<open>The handlers and the routes\<close>

text \<open>\<^verbatim>\<open>Encode\<close> writes the members of a map in the order of their keys, and a line feed.\<close>

definition encode_map :: "(string \<times> json_text) list \<Rightarrow> response_writer \<Rightarrow> err option \<times> response_writer" where
  "encode_map data w = write_body [Raw (document (sort_key fst data))] w"

definition telemetry_data :: "(string \<times> json_text) list" where
  "telemetry_data =
     [(''timestamp'', TNum (- 1)), (''temperature'', TNum (45 / 2)), (''humidity'', TNum 60)]"

definition telemetry_handler :: "'s http_handler" where
  "telemetry_handler r = respond (\<lambda>w.
     (let w = set_header ''Content-Type'' ''application/json'' w
      in case encode_map telemetry_data w of
           (Some e, w) \<Rightarrow> http_error (WithErr '''' e) 500 w
         | (None, w) \<Rightarrow> w))"

definition registration_data :: "(string \<times> json_text) list" where
  "registration_data = [(''timestamp'', TNum (- 1)), (''device_id'', TStr ''0xABCD'')]"

definition registration_handler :: "'s http_handler" where
  "registration_handler r = respond (\<lambda>w.
     (let w = set_header ''Content-Type'' ''application/json'' w
      in case encode_map registration_data w of
           (Some e, w) \<Rightarrow> http_error (WithErr '''' e) 500 w
         | (None, w) \<Rightarrow> w))"

definition sim_routes :: "string \<rightharpoonup> 's http_handler" where
  "sim_routes = [''/telemetry'' \<mapsto> telemetry_handler, ''/registration'' \<mapsto> registration_handler]"

text \<open>The connection to the simulator that listens on \<open>base\<close>; other paths are not found.\<close>

definition sim_answers :: "string \<Rightarrow> 's http_do" where
  "sim_answers base req =
     (case sim_routes (drop (length base) (get_url req)) of
        Some h \<Rightarrow> serve h req
      | None \<Rightarrow> serve (\<lambda>r. respond (http_error (Raw ''404 page not found'') 404)) req)"

section \<open>What the hub makes of it\<close>

lemma sim_registration_response:
  "\<exists>resp. sim_answers base \<lparr>get_url = base @ ''/registration'', get_query = v\<rparr> s = (Ret (Inr resp), s) \<and>
     carries resp (bytes_of (document (sort_key fst registration_data)))"
  by (simp add: sim_answers_def sim_routes_def serve_def registration_handler_def respond_def
      encode_map_def carries_def response_of_def new_response_def set_header_def write_body_def
      write_header_def)

lemma sorted_registration_data:
  "sort_key fst registration_data = [(''device_id'', TStr ''0xABCD''), (''timestamp'', TNum (- 1))]"
  by (simp add: registration_data_def less_char_def)

text \<open>
  C38. The hub never takes data of the simulator: it answers the registration with a time of - 1,
  which both verifiers refuse, so a run ends with a synchronization and an error, whatever the
  data handler is. The identifier of the simulator is known afterwards.
\<close>

theorem simulator_is_never_handled:
  fixes send :: "http_client \<Rightarrow> i64 \<Rightarrow> 's http_do"
  assumes task: "task = device_task send local_clock remote_last handler dev"
    and "endpoint_do send (hd_registration dev) = sim_answers base"
    and "ep_url (hd_registration dev) = base @ ''/registration''"
    and "url_parse (base @ ''/registration'') = Inr u"
    and "j \<in> {'''', ''0xABCD''}"
    and "pd_timeSynchronizer task (h, s) = (Ret e, (h', s'))"
  shows "poll_run (go_json json_err oor) (task\<lparr>pd_deviceID := j\<rparr>, (h, s)) =
     (Ret (Some (Status StatusError)), (task\<lparr>pd_deviceID := ''0xABCD''\<rparr>, (h', s')))"
proof -
  let ?reg = "sort_key fst registration_data"
  have p: "plain (TNum (- 1))" "plain_json (TNum (- 1)) = JNum (- 1)"
    using plain_int [of "- 1"] by simp_all
  have v: "utf8_valid ''0xABCD''" "utf8_valid ''device_id''" "utf8_valid ''timestamp''" by code_simp+
  have plain: "\<forall>(k, v) \<in> set ?reg. utf8_valid k \<and> plain v"
    using p v by (simp add: sorted_registration_data del: plain.simps(1))
  have f: "doc_fields ?reg = [''device_id'' \<mapsto> JStr ''0xABCD'', ''timestamp'' \<mapsto> JNum (- 1)]"
    using p by (auto simp: sorted_registration_data doc_fields_def simp del: plain_json.simps(1))
  have "answers_document (endpoint_do send (hd_registration dev)) (base @ ''/registration'') (\<lambda>_. ?reg)"
    unfolding answers_document_def assms(2) using assms(4) by (blast intro: sim_registration_response)
  from url_fetch_document [OF this] have fetch:
    "pd_registrationFetcher (task\<lparr>pd_deviceID := j\<rparr>) (h, s) = (Ret (Inr (bytes_of (document ?reg))), (h, s))"
    using assms(3) by (simp add: task device_task_def new_poll_device_def outcome_simps)
  have refused: "pd_timeVerifier task (- 1) (h, s) = (Ret False, (h, s))"
    by (simp add: task device_task_def new_poll_device_def basic_verify_time_def drift_verify_time_def
        outcome_simps split: clock_verifier.split)
  show ?thesis
    using refused_time_only_synchronizes [OF fetch, of "go_json json_err oor" "doc_fields ?reg"
        "''0xABCD''" "- 1" "(h, s)" e "(h', s')"] unmarshal_document [OF plain] refused assms(5,6)
    by (simp add: go_json_def f accepts_id_def int64_of_float_def ceiling_def)
qed

text \<open>A device at the address of the simulator, with the transactions of its clients.\<close>

definition sim_address :: string where
  "sim_address = ''http://127.0.0.1:8080''"

definition record_handler :: "(string \<times> JSON) list data_handler" where
  "record_handler =
     \<lparr>HandleTelemetry = (\<lambda>i js s. (Ret None, s @ [(i, js)])),
      HandleRegistration = (\<lambda>i js s. (Ret None, s @ [(i, js)]))\<rparr>"

definition sim_device :: http_device where
  "sim_device =
     \<lparr>hd_deviceID = '''', hd_synchronizer = SyncNotSupported, hd_verifier = VerifyDrift 5000000000,
      hd_registration = \<lparr>ep_client = DefaultClient, ep_url = sim_address @ ''/registration'', ep_timeout = 1\<rparr>,
      hd_telemetry = \<lparr>ep_client = DefaultClient, ep_url = sim_address @ ''/telemetry'', ep_timeout = 1\<rparr>,
      hd_notifier = None\<rparr>"

definition sim_task :: "(string \<times> (string \<times> JSON) list) poll_device" where
  "sim_task = device_task (\<lambda>_ _. sim_answers sim_address) stopped_clock stopped_clock record_handler sim_device"

theorem simulator_is_never_handled_witness:
  "poll_run (go_json (\<lambda>_. IoEOF) (\<lambda>_. 0)) (sim_task\<lparr>pd_deviceID := []\<rparr>, ([], [])) =
     (Ret (Some (Status StatusError)), (sim_task\<lparr>pd_deviceID := ''0xABCD''\<rparr>, ([], [])))"
proof -
  have u: "url_parse (sim_address @ ''/registration'') =
      Inr \<lparr>url_Scheme = ''http'', url_Host = ''127.0.0.1:8080''\<rparr>"
    by code_simp
  show ?thesis
    by (rule simulator_is_never_handled [OF sim_task_def _ _ u])
      (simp_all add: sim_task_def sim_device_def endpoint_do_def device_task_def new_poll_device_def
        func_synchronizer_def)
qed

end
