(* ===== verification/Spec2Isabelle.thy ===== *)
theory Spec2Isabelle
  imports Api Lifecycle App MonitorLock Discovery Server Monitoring Simulator
begin

text \<open>
  \<^bold>\<open>device-hub: a verification development.\<close>

  The program (Go, under \<^verbatim>\<open>src/\<close>) collects data from IoT devices over HTTP and stores it in
  influxdb. A device is known by its URI. It is added by an HTTP request or because it announces
  itself over mDNS, it is persisted in a bbolt database, and a runner of its own polls it: the
  registration document and the telemetry document are fetched, decoded, checked for the
  identifier of the device and for a plausible time, and handed to the influxdb handler. A device
  whose clock is wrong is synchronized. A device that was not polled successfully for too long is
  removed by a monitor.

  \<^bold>\<open>How the code is modelled.\<close> A struct is a \<open>record\<close>, a method is a function of the state it
  changes: an \<open>action\<close> takes a state and returns the outcome (\<open>Ret\<close>, \<open>Panic\<close> or \<open>Hang\<close>) with
  the new state, so a nil dereference, a write to a nil map, a channel that is closed twice and a
  wait without an end are values. An error is a value of \<open>err\<close>; a call that returns a value and
  an error returns a sum. An \<open>int64\<close> is a 64 bit word. An interface of the code is a record of
  actions or an action in a world that is a type variable; a decorator works on the product of
  its state and the world it decorates. What runs under one lock from its beginning to its end is
  one action; a task that has to wait for a lock does so as an event of its own. Where several
  goroutines meet (the runner, calls of \<^verbatim>\<open>Resolve\<close>, the monitor's mutex, the HTTP server) the
  model is a labelled step function with an inductive execution relation.

  \<^bold>\<open>The theories, bottom up.\<close>

  \<^item> \<open>Prelude\<close>: integers, errors (\<^verbatim>\<open>components/status/code.go\<close>), outcomes and actions.
    \<open>GoLib\<close>, \<open>NetAddr\<close>, \<open>GoUrl\<close>, \<open>GoQuery\<close>, \<open>GoJson\<close>, \<open>JsonText\<close>, \<open>JsonDecode\<close>, \<open>Durations\<close>,
    \<open>GoTime\<close>: what the program uses of
    Go's \<^verbatim>\<open>strings\<close>, \<^verbatim>\<open>strconv\<close>, \<^verbatim>\<open>net\<close>, \<^verbatim>\<open>net/url\<close>, \<^verbatim>\<open>encoding/json\<close> and
    \<^verbatim>\<open>time\<close>, with \<^verbatim>\<open>float64\<close> rounding written out.
  \<^item> \<open>Colfer\<close>, \<open>Colfer_Codec\<close>, \<open>Colfer_Roundtrip\<close>: the codec of the persisted record
    (\<^verbatim>\<open>devstore/Colfer.go\<close>) with its index arithmetic; the byte format as a pure function, the
    refinement of the writer to it, and the round trip of the reader.
  \<^item> \<open>Sched\<close>: \<^verbatim>\<open>system/syssched\<close>, the fan-outs, the task wrappers and the runner with its
    goroutines and channels.
  \<^item> \<open>Clocks\<close>: \<^verbatim>\<open>syscore.SystemClock\<close>, the synchronizer, \<^verbatim>\<open>stcore.SystemClockRestorer\<close> and
    the time verifiers of \<^verbatim>\<open>devcore\<close>. Locale \<open>persisted_clock\<close>.
  \<^item> \<open>Mdns\<close>, \<open>Resolve\<close>, \<open>Zeroconf\<close>: \<^verbatim>\<open>system/sysmdns\<close> and \<^verbatim>\<open>system/sysnet\<close>.
  \<^item> \<open>Http\<close>, \<open>Server\<close>: \<^verbatim>\<open>http/htcore\<close>, \<^verbatim>\<open>http/hthandler\<close>, \<^verbatim>\<open>http/httransport\<close>.
  \<^item> \<open>Poll\<close>: \<^verbatim>\<open>device/devcore\<close>, the polling device. \<open>Influx\<close>: \<^verbatim>\<open>storage/stinfluxdb\<close>.
  \<^item> \<open>KvDb\<close>: \<^verbatim>\<open>stcore.DB\<close> and its two implementations. Locales \<open>total_db\<close>,
    \<open>persistent_db\<close>, and \<open>bbolt_docs\<close> for what bbolt documents.
  \<^item> \<open>Store\<close>, \<open>AliveMonitor\<close>, \<open>CacheStore\<close>: \<^verbatim>\<open>device/devstore\<close>. Locale \<open>device_store\<close> is
    the contract of a store (a set of URIs); \<open>awakened_store\<close> and \<open>monitored_store\<close> show that
    the two decorators keep it; \<open>CacheStore_Contract\<close> shows that the cache store keeps it over
    every total database (\<open>cached_devices\<close>) and that over a persistent one a restart restores
    it (\<open>persistent_devices\<close>), and interprets both on the databases of the program.
  \<^item> \<open>StoreHttp\<close>: the HTTP handlers of a store. \<open>Log\<close>: the loggers of
    \<^verbatim>\<open>syscore/log.go\<close>. \<open>App\<close>: \<^verbatim>\<open>projects/main/main.go\<close>.
  \<^item> Compositions: \<open>Devices\<close> (cache store, both decorators, bucket), \<open>Api\<close> (routes, handlers and
    that store), \<open>Discovery\<close> (browser, resolve store and that store), \<open>Polling\<close> (a device's task
    from the bytes of the responses to the points in the database), \<open>PollEnds\<close> (a poll ends when
    its transactions do), \<open>Monitoring\<close> (the hub over time: requests, announced services, polls
    with the whole task of a device, its reports to the monitor, runs of the monitor and time, in
    any order; a device that answers and reports is kept, a silent one is removed, and a removal
    that meets a task that waits for the monitor's mutex never returns; locale \<open>hub\<close>),
    \<open>Lifecycle\<close> (what happens outside the life-cycle the code is written for), \<open>MonitorLock\<close>
    (the steps of the monitor's mutex and a device's runner). \<open>Simulator\<close>: \<^verbatim>\<open>projects/sim/main.go\<close>, and the hub against it.

  \<^bold>\<open>Parameters.\<close> Code that is not in the repository is an argument, and what is assumed of it
  is a named locale or a hypothesis with a witness: bbolt (\<open>bbolt_docs\<close>, interpreted on a
  bbolt in memory), the zeroconf library (\<open>zeroconf_lib\<close>: its resolver and what a lookup delivers), the
  influxdb client (\<open>influx_client\<close>: its writes and query results), the network (the transaction of an HTTP client), the operating system (\<open>env\<close>:
  files, interfaces, sockets). So are the time zone of the host (\<open>fmt1123\<close>), the order in which
  the runtime visits a map (\<open>order\<close>), and Go's conversion of a float out of range of \<open>int64\<close>,
  which the language leaves open.

  \<^bold>\<open>Bounds and fuel.\<close> The loops of the codec are functions with a measure. The loop of
  \<^verbatim>\<open>time.ParseDuration\<close> takes the length of the text as fuel: each round consumes a byte
  (\<open>duration_loop_fuel\<close>). The JSON reader takes twice the length: each call but the one that
  enters a value consumes a byte (\<open>read_fuel\<close> shows that more fuel changes nothing), and it
  refuses what is nested deeper than 10000, as Go does. Step systems have no bound: their theorems
  are about every execution, and the liveness theorems give the number of steps. The hub of
  \<open>Monitoring\<close> has no fuel either: from \<open>parts_end\<close>, that the transactions, clocks and handlers
  of its parts end, it is proved that its events return, but for the removal of a device whose
  task waits for the mutex (\<open>removes_waiting\<close>).

  \<^bold>\<open>Not modelled.\<close> The texts that are logged (\<^verbatim>\<open>syscore/log.go\<close>,
  \<^verbatim>\<open>devstore/log_error_handler.go\<close>): no part of the program reads them. The command
  line parser is third-party: the options are a record with the defaults of the flags. The
  monotonic clock and \<^verbatim>\<open>time.Now\<close> are actions.
\<close>

end
